(* ===== verification/Prelude.thy ===== *)
theory Prelude
  imports
    Main
    "HOL-Library.State_Monad"
    "HOL-Library.List_Lexorder"
    "HOL-Library.Char_ord"
    "HOL-Library.Option_ord"
    "HOL-Library.Product_Lexorder"
    "HOL-Library.Code_Target_Nat"
begin

text \<open>
  The vocabulary shared by the component theories.

  \<^item> \<open>result\<close> is Rust's \<open>Result\<close>; \<open>sat_add\<close>, \<open>sat_mul\<close> are the saturating
    operations of \<open>u64\<close> (saturating subtraction is subtraction on \<open>nat\<close>).
  \<^item> \<open>bm_get\<close>, \<open>bm_insert\<close>, \<open>bm_remove\<close> and friends are \<open>BTreeMap\<close> as an
    association list in key order. The locale \<open>keyed_map\<close> states the laws a client of
    a map uses and derives what follows from them once.
  \<^item> \<open>act\<close> is a computation of the decision core: it reads and writes the state
    and appends to the effects it returns. The locale \<open>act_preorder\<close> is the proof
    calculus for such computations: a reflexive and transitive relation that
    holds along every primitive step holds along the whole handler.
  \<^item> \<open>run_steps\<close> folds a step function over a sequence of inputs, and the locale
    \<open>step_machine\<close> lifts an invariant of one step to every run.
  \<^item> \<open>codec\<close> is the contract of a printer and a parser that invert each other.
\<close>

named_theorems bm_simps \<open>lookup laws of the ordered maps\<close>
named_theorems act_simps \<open>evaluation of computations of the core\<close>
named_theorems bound_simps \<open>the integer bounds, unfolded\<close>

section \<open>Results and machine integers\<close>

datatype ('a, 'e) result = Ok 'a | Err 'e

fun is_ok :: "('a, 'e) result \<Rightarrow> bool" where
  "is_ok (Ok _) = True"
| "is_ok (Err _) = False"

fun result_ok :: "('a, 'e) result \<Rightarrow> 'a option" where
  "result_ok (Ok x) = Some x"
| "result_ok (Err _) = None"

type_synonym ms = int
type_synonym cell_id = string
type_synonym node_id = string
type_synonym request_id = nat
type_synonym web_socket_id = nat
type_synonym op_id = nat
type_synonym epoch = nat

definition u64_max :: nat where
  "u64_max = 18446744073709551615"

definition i64_max :: int where
  "i64_max = 9223372036854775807"

definition i64_min :: int where
  "i64_min = -9223372036854775808"

lemmas [bound_simps] = u64_max_def i64_max_def i64_min_def

definition sat_add :: "nat \<Rightarrow> nat \<Rightarrow> nat" where
  "sat_add a b = min u64_max (a + b)"

definition sat_mul :: "nat \<Rightarrow> nat \<Rightarrow> nat" where
  "sat_mul a b = min u64_max (a * b)"

definition checked_add :: "nat \<Rightarrow> nat \<Rightarrow> nat option" where
  "checked_add a b = (if a + b \<le> u64_max then Some (a + b) else None)"

definition i64_sat :: "int \<Rightarrow> int" where
  "i64_sat x = max i64_min (min i64_max x)"

definition div_ceil :: "nat \<Rightarrow> nat \<Rightarrow> nat" where
  "div_ceil a b = (a + b - 1) div b"

lemma sat_add_le_max [simp]: "sat_add a b \<le> u64_max"
  by (simp add: sat_add_def)

lemma sat_mul_le_max [simp]: "sat_mul a b \<le> u64_max"
  by (simp add: sat_mul_def)

lemma sat_add_mono: "a \<le> a' \<Longrightarrow> b \<le> b' \<Longrightarrow> sat_add a b \<le> sat_add a' b'"
  by (auto simp: sat_add_def min_def)

lemma sat_add_ge: "a \<le> u64_max \<Longrightarrow> a \<le> sat_add a b"
  by (simp add: sat_add_def)

lemma sat_add_exact: "a + b \<le> u64_max \<Longrightarrow> sat_add a b = a + b"
  by (simp add: sat_add_def)

lemma sat_add_le: "sat_add a b \<le> a + b"
  by (simp add: sat_add_def)

lemma checked_add_Some: "checked_add a b = Some c \<longleftrightarrow> c = a + b \<and> a + b \<le> u64_max"
  by (auto simp: checked_add_def)

lemma div_ceil_bound: "0 < b \<Longrightarrow> a \<le> div_ceil a b * b"
proof -
  assume "0 < b"
  then have "a + b - 1 = (a + b - 1) div b * b + (a + b - 1) mod b"
    and "(a + b - 1) mod b < b" by simp_all
  then have "a + b - 1 < (a + b - 1) div b * b + b" by linarith
  then show ?thesis unfolding div_ceil_def by linarith
qed

section \<open>Ordered maps\<close>

type_synonym ('k, 'v) bmap = "('k \<times> 'v) list"

abbreviation bm_get :: "('k, 'v) bmap \<Rightarrow> 'k \<Rightarrow> 'v option" where
  "bm_get m k \<equiv> map_of m k"

fun bm_insert :: "'k::linorder \<Rightarrow> 'v \<Rightarrow> ('k, 'v) bmap \<Rightarrow> ('k, 'v) bmap" where
  "bm_insert k v [] = [(k, v)]"
| "bm_insert k v ((k', v') # m) =
     (if k < k' then (k, v) # (k', v') # m
      else if k = k' then (k, v) # m
      else (k', v') # bm_insert k v m)"

definition bm_remove :: "'k \<Rightarrow> ('k, 'v) bmap \<Rightarrow> ('k, 'v) bmap" where
  "bm_remove k m = filter (\<lambda>(k', _). k' \<noteq> k) m"

definition bm_has :: "('k, 'v) bmap \<Rightarrow> 'k \<Rightarrow> bool" where
  "bm_has m k = (bm_get m k \<noteq> None)"

definition bm_modify :: "'k::linorder \<Rightarrow> ('v \<Rightarrow> 'v) \<Rightarrow> ('k, 'v) bmap \<Rightarrow> ('k, 'v) bmap" where
  "bm_modify k f m = (case bm_get m k of None \<Rightarrow> m | Some v \<Rightarrow> bm_insert k (f v) m)"

definition bm_keys :: "('k, 'v) bmap \<Rightarrow> 'k list" where
  "bm_keys m = map fst m"

definition bm_values :: "('k, 'v) bmap \<Rightarrow> 'v list" where
  "bm_values m = map snd m"

definition bm_ok :: "('k::linorder, 'v) bmap \<Rightarrow> bool" where
  "bm_ok m = sorted_wrt (<) (map fst m)"

lemma bm_get_insert: "bm_get (bm_insert k v m) k' = (if k' = k then Some v else bm_get m k')"
  by (induction k v m rule: bm_insert.induct) auto

lemma bm_get_remove: "bm_get (bm_remove k m) k' = (if k' = k then None else bm_get m k')"
  by (induction m) (auto simp: bm_remove_def)

text \<open>The interface of a keyed map, as the components use it.\<close>

locale keyed_map =
  fixes lookup :: "'m \<Rightarrow> 'k \<Rightarrow> 'v option"
    and insertm :: "'k \<Rightarrow> 'v \<Rightarrow> 'm \<Rightarrow> 'm"
    and removem :: "'k \<Rightarrow> 'm \<Rightarrow> 'm"
  assumes lookup_insert: "lookup (insertm k v m) k' = (if k' = k then Some v else lookup m k')"
    and lookup_remove: "lookup (removem k m) k' = (if k' = k then None else lookup m k')"
begin

lemma lookup_insert_same: "lookup (insertm k v m) k = Some v"
  by (simp add: lookup_insert)

lemma lookup_insert_other: "k' \<noteq> k \<Longrightarrow> lookup (insertm k v m) k' = lookup m k'"
  by (simp add: lookup_insert)

lemma lookup_remove_same: "lookup (removem k m) k = None"
  by (simp add: lookup_remove)

lemma lookup_remove_other: "k' \<noteq> k \<Longrightarrow> lookup (removem k m) k' = lookup m k'"
  by (simp add: lookup_remove)

lemma lookup_reinsert:
  assumes "lookup m k = Some v"
  shows "lookup (insertm k v (removem k m)) = lookup m"
  using assms by (auto simp: fun_eq_iff lookup_insert lookup_remove)

lemma lookup_modify:
  "lookup (case lookup m k of None \<Rightarrow> m | Some v \<Rightarrow> insertm k (f v) m) k' =
     (if k' = k then map_option f (lookup m k) else lookup m k')"
  by (simp add: lookup_insert split: option.split)

lemma dom_insert: "dom (lookup (insertm k v m)) = insert k (dom (lookup m))"
  by (auto simp: dom_def lookup_insert)

lemma dom_remove: "dom (lookup (removem k m)) = dom (lookup m) - {k}"
  by (auto simp: dom_def lookup_remove)

end

interpretation bm: keyed_map "bm_get" "bm_insert" "bm_remove"
  by unfold_locales (fact bm_get_insert bm_get_remove)+

lemmas [simp, bm_simps] =
  bm.lookup_insert_same bm.lookup_insert_other bm.lookup_remove_same bm.lookup_remove_other

lemma bm_get_modify:
  "bm_get (bm_modify k f m) k' = (if k' = k then map_option f (bm_get m k) else bm_get m k')"
  unfolding bm_modify_def by (rule bm.lookup_modify)

lemma bm_has_iff: "bm_has m k \<longleftrightarrow> k \<in> dom (bm_get m)"
  by (auto simp: bm_has_def)

lemma set_bm_insert: "set (map fst (bm_insert k v m)) = insert k (set (map fst m))"
  by (induction k v m rule: bm_insert.induct) auto

lemma bm_ok_Nil [simp]: "bm_ok []"
  by (simp add: bm_ok_def)

lemma bm_ok_Cons: "bm_ok ((k, v) # m) \<longleftrightarrow> (\<forall>k'\<in>fst ` set m. k < k') \<and> bm_ok m"
  by (auto simp: bm_ok_def)

lemma bm_ok_insert [simp]: "bm_ok m \<Longrightarrow> bm_ok (bm_insert k v m)"
proof (induction k v m rule: bm_insert.induct)
  case (2 k v k' v' m)
  then show ?case
    using set_bm_insert [of k v m] by (fastforce simp: bm_ok_Cons image_iff)
qed (simp add: bm_ok_def)

lemma bm_ok_remove [simp]: "bm_ok m \<Longrightarrow> bm_ok (bm_remove k m)"
  by (auto simp: bm_ok_def bm_remove_def sorted_wrt_map sorted_wrt_filter)

lemma bm_ok_modify [simp]: "bm_ok m \<Longrightarrow> bm_ok (bm_modify k f m)"
  by (simp add: bm_modify_def split: option.split)

lemma bm_ok_distinct: "bm_ok m \<Longrightarrow> distinct (map fst m)"
  by (auto simp: bm_ok_def strict_sorted_iff)

lemma bm_get_mem: "bm_ok m \<Longrightarrow> (k, v) \<in> set m \<longleftrightarrow> bm_get m k = Some v"
  by (simp add: bm_ok_distinct)

text \<open>\<open>Iterator::min_by_key\<close>: the first element with the least key.\<close>

fun min_by_key :: "('a \<Rightarrow> 'k::linorder) \<Rightarrow> 'a list \<Rightarrow> 'a option" where
  "min_by_key f [] = None"
| "min_by_key f (x # xs) =
     (case min_by_key f xs of
        None \<Rightarrow> Some x
      | Some y \<Rightarrow> Some (if f x \<le> f y then x else y))"

lemma min_by_key_mem: "min_by_key f xs = Some x \<Longrightarrow> x \<in> set xs"
  by (induction xs arbitrary: x) (auto split: option.splits if_splits)

lemma min_by_key_le: "min_by_key f xs = Some x \<Longrightarrow> y \<in> set xs \<Longrightarrow> f x \<le> f y"
proof (induction xs arbitrary: x y)
  case (Cons z zs)
  show ?case
  proof (cases "min_by_key f zs")
    case None
    then have "zs = []" by (cases zs) (auto split: option.splits)
    then show ?thesis using Cons.prems None by simp
  next
    case (Some w)
    then show ?thesis
      using Cons.prems Cons.IH [OF Some] by (auto split: if_splits intro: order_trans)
  qed
qed simp

lemma min_by_key_None: "min_by_key f xs = None \<longleftrightarrow> xs = []"
  by (cases xs) (auto split: option.splits)

section \<open>Computations of the core\<close>

type_synonym ('s, 'e, 'a) act = "('s \<times> 'e list, 'a) state"

definition look :: "('s \<Rightarrow> 'a) \<Rightarrow> ('s, 'e, 'a) act" where
  "look f = State (\<lambda>(s, es). (f s, (s, es)))"

definition upd :: "('s \<Rightarrow> 's) \<Rightarrow> ('s, 'e, unit) act" where
  "upd f = State (\<lambda>(s, es). ((), (f s, es)))"

definition emit :: "'e \<Rightarrow> ('s, 'e, unit) act" where
  "emit e = State (\<lambda>(s, es). ((), (s, es @ [e])))"

definition skip :: "('s, 'e, unit) act" where
  "skip = State (\<lambda>c. ((), c))"

definition ret :: "'a \<Rightarrow> ('s, 'e, 'a) act" where
  "ret x = State (\<lambda>c. (x, c))"

text \<open>Run with an effect list of its own, and hand that list back.\<close>

definition captured :: "('s, 'e, 'a) act \<Rightarrow> ('s, 'e, 'a \<times> 'e list) act" where
  "captured m = State (\<lambda>(s, es). case run_state m (s, []) of (x, (s', new)) \<Rightarrow> ((x, new), (s', es)))"

definition emit_all :: "'e list \<Rightarrow> ('s, 'e, unit) act" where
  "emit_all new = State (\<lambda>(s, es). ((), (s, es @ new)))"

definition onlyif :: "bool \<Rightarrow> ('s, 'e, unit) act \<Rightarrow> ('s, 'e, unit) act" where
  "onlyif b m = (if b then m else skip)"

primrec for_each :: "'x list \<Rightarrow> ('x \<Rightarrow> ('s, 'e, unit) act) \<Rightarrow> ('s, 'e, unit) act" where
  "for_each [] f = skip"
| "for_each (x # xs) f = do { f x; for_each xs f }"

primrec fold_act :: "('x \<Rightarrow> 'c \<Rightarrow> ('s, 'e, 'c) act) \<Rightarrow> 'x list \<Rightarrow> 'c \<Rightarrow> ('s, 'e, 'c) act" where
  "fold_act f [] c = ret c"
| "fold_act f (x # xs) c = do { c' \<leftarrow> f x c; fold_act f xs c' }"

definition runs :: "('s, 'e, 'a) act \<Rightarrow> 's \<Rightarrow> 'a \<times> 's \<times> 'e list" where
  "runs m s = run_state m (s, [])"

lemma run_look [simp, act_simps]: "run_state (look f) (s, es) = (f s, (s, es))"
  by (simp add: look_def)

lemma run_upd [simp, act_simps]: "run_state (upd f) (s, es) = ((), (f s, es))"
  by (simp add: upd_def)

lemma run_emit [simp, act_simps]: "run_state (emit e) (s, es) = ((), (s, es @ [e]))"
  by (simp add: emit_def)

lemma run_skip [simp, act_simps]: "run_state skip c = ((), c)"
  by (simp add: skip_def)

lemma run_ret [simp, act_simps]: "run_state (ret x) c = (x, c)"
  by (simp add: ret_def)

lemma run_captured [simp, act_simps]:
  "run_state (captured m) (s, es) =
     (case run_state m (s, []) of (x, (s', new)) \<Rightarrow> ((x, new), (s', es)))"
  by (simp add: captured_def)

lemma run_emit_all [simp, act_simps]: "run_state (emit_all new) (s, es) = ((), (s, es @ new))"
  by (simp add: emit_all_def)

lemma run_onlyif [simp, act_simps]: "run_state (onlyif b m) c = (if b then run_state m c else ((), c))"
  by (simp add: onlyif_def)

text \<open>
  A relation between the state and effects before and after a computation. If it
  is reflexive and transitive, it holds along a computation as soon as it holds
  along each of its primitive steps.
\<close>

definition along ::
  "('s \<times> 'e list \<Rightarrow> 's \<times> 'e list \<Rightarrow> bool) \<Rightarrow> ('s, 'e, 'a) act \<Rightarrow> bool" where
  "along R m = (\<forall>c. R c (snd (run_state m c)))"

locale act_preorder =
  fixes R :: "'s \<times> 'e list \<Rightarrow> 's \<times> 'e list \<Rightarrow> bool"
  assumes refl: "R c c"
    and trans: "R a b \<Longrightarrow> R b c \<Longrightarrow> R a c"
begin

lemma along_bind:
  assumes "along R m" and "\<And>x. along R (f x)"
  shows "along R (State_Monad.bind m f)"
  unfolding along_def
proof
  fix c
  obtain x c' where m: "run_state m c = (x, c')" by (cases "run_state m c") simp
  have "R c c'" using assms(1) m by (metis along_def snd_conv)
  moreover have "R c' (snd (run_state (f x) c'))" using assms(2) unfolding along_def by blast
  ultimately show "R c (snd (run_state (State_Monad.bind m f) c))"
    using m trans by simp
qed

lemma along_look: "along R (look f)"
  by (auto simp: along_def refl)

lemma along_skip: "along R skip"
  by (simp add: along_def refl)

lemma along_ret: "along R (ret x)"
  by (simp add: along_def refl)

lemma along_if: "(b \<Longrightarrow> along R m) \<Longrightarrow> (\<not> b \<Longrightarrow> along R m') \<Longrightarrow> along R (if b then m else m')"
  by simp

lemma along_onlyif: "(b \<Longrightarrow> along R m) \<Longrightarrow> along R (onlyif b m)"
  by (simp add: onlyif_def along_skip)

lemma along_option:
  "(x = None \<Longrightarrow> along R m) \<Longrightarrow> (\<And>y. x = Some y \<Longrightarrow> along R (f y)) \<Longrightarrow>
   along R (case x of None \<Rightarrow> m | Some y \<Rightarrow> f y)"
  by (simp split: option.split)

lemma along_result:
  "(\<And>y. x = Ok y \<Longrightarrow> along R (f y)) \<Longrightarrow> (\<And>y. x = Err y \<Longrightarrow> along R (g y)) \<Longrightarrow>
   along R (case x of Ok y \<Rightarrow> f y | Err y \<Rightarrow> g y)"
  by (simp split: result.split)

lemma along_prod: "(\<And>y z. along R (f y z)) \<Longrightarrow> along R (case x of (y, z) \<Rightarrow> f y z)"
  by (simp split: prod.split)

lemma along_let: "(\<And>y. along R (f y)) \<Longrightarrow> along R (Let x f)"
  by simp

lemma along_for_each: "(\<And>x. x \<in> set xs \<Longrightarrow> along R (f x)) \<Longrightarrow> along R (for_each xs f)"
  by (induction xs) (auto intro: along_bind along_skip)

lemma along_fold_act:
  "(\<And>x c. x \<in> set xs \<Longrightarrow> along R (f x c)) \<Longrightarrow> along R (fold_act f xs c)"
  by (induction xs arbitrary: c) (auto intro: along_bind along_ret)

lemmas along_rules =
  along_bind along_look along_skip along_ret along_if along_onlyif along_option along_result
  along_prod along_let along_for_each along_fold_act

end

text \<open>The two relations every handler is measured with: what it may emit, and what it keeps.\<close>

definition emits_only :: "('e \<Rightarrow> bool) \<Rightarrow> 's \<times> 'e list \<Rightarrow> 's \<times> 'e list \<Rightarrow> bool" where
  "emits_only P c c' = (\<exists>new. snd c' = snd c @ new \<and> (\<forall>e\<in>set new. P e))"

definition keeps :: "('s \<Rightarrow> bool) \<Rightarrow> 's \<times> 'e list \<Rightarrow> 's \<times> 'e list \<Rightarrow> bool" where
  "keeps I c c' = (I (fst c) \<longrightarrow> I (fst c'))"

interpretation em: act_preorder "emits_only P" for P
proof unfold_locales
  fix P :: "'e \<Rightarrow> bool" and a b c :: "'s \<times> 'e list"
  assume "emits_only P a b" and "emits_only P b c"
  then show "emits_only P a c" unfolding emits_only_def by fastforce
qed (simp add: emits_only_def)

interpretation kp: act_preorder "keeps I" for I
  by unfold_locales (auto simp: keeps_def)

lemma emits_upd: "along (emits_only P) (upd f)"
  by (auto simp: along_def emits_only_def)

lemma emits_emit: "P e \<Longrightarrow> along (emits_only P) (emit e)"
  by (auto simp: along_def emits_only_def)

lemma keeps_upd: "(\<And>s. I s \<Longrightarrow> I (f s)) \<Longrightarrow> along (keeps I) (upd f)"
  by (auto simp: along_def keeps_def)

lemma keeps_emit: "along (keeps I) (emit e)"
  by (auto simp: along_def keeps_def)

lemma emits_only_runs:
  assumes "along (emits_only P) m" and "e \<in> set (snd (snd (runs m s)))"
  shows "P e"
proof -
  have "emits_only P (s, []) (snd (run_state m (s, [])))" using assms(1) by (simp add: along_def)
  then show ?thesis using assms(2) by (auto simp: emits_only_def runs_def)
qed

lemma keeps_runs:
  assumes "along (keeps I) m" and "I s"
  shows "I (fst (snd (runs m s)))"
  using assms by (fastforce simp: along_def keeps_def runs_def)

section \<open>Machines and codecs\<close>

definition run_steps :: "('s \<Rightarrow> 'i \<Rightarrow> 's) \<Rightarrow> 's \<Rightarrow> 'i list \<Rightarrow> 's" where
  "run_steps step s xs = foldl step s xs"

lemma run_steps_Nil [simp]: "run_steps f s [] = s"
  by (simp add: run_steps_def)

lemma run_steps_Cons [simp]: "run_steps f s (x # xs) = run_steps f (f s x) xs"
  by (simp add: run_steps_def)

lemma run_steps_append: "run_steps f s (xs @ ys) = run_steps f (run_steps f s xs) ys"
  by (simp add: run_steps_def)

locale step_machine =
  fixes step :: "'s \<Rightarrow> 'i \<Rightarrow> 's"
    and inv :: "'s \<Rightarrow> bool"
  assumes step_inv: "inv s \<Longrightarrow> inv (step s i)"
begin

lemma run_inv: "inv s \<Longrightarrow> inv (run_steps step s xs)"
  by (induction xs arbitrary: s) (simp_all add: step_inv)

end

locale codec =
  fixes encode :: "'a \<Rightarrow> 'b"
    and decode :: "'b \<Rightarrow> 'a option"
    and valid :: "'a \<Rightarrow> bool"
  assumes decode_encode: "valid x \<Longrightarrow> decode (encode x) = Some x"
    and decode_valid: "decode y = Some x \<Longrightarrow> valid x \<and> encode x = y"
begin

lemma encode_inj: "inj_on encode {x. valid x}"
  by (rule inj_onI) (metis decode_encode mem_Collect_eq option.inject)

lemma decode_iff: "decode y = Some x \<longleftrightarrow> valid x \<and> y = encode x"
  using decode_encode decode_valid by blast

lemma decode_inj: "decode y = Some x \<Longrightarrow> decode y' = Some x \<Longrightarrow> y = y'"
  by (simp add: decode_iff)

end

end
