(* ===== verification/Serving.thy ===== *)
theory Serving
  imports Prelude
begin

text \<open>
  The small serving policies of \<open>crates/logic\<close>: the input gate of a cell
  (\<open>gate.rs\<close>), the redispatch rule for a failed peer forward (\<open>routing.rs\<close>), the
  WebSocket close decisions and frame scanner (\<open>schedule.rs\<close>), the peer
  authentication predicates (\<open>peer.rs\<close>), the cell scope check (\<open>cell.rs\<close>) and the
  SQLite failure predicate (\<open>sqlite.rs\<close>).

  Event ids are numbers; the nesting counter of the gate (\<open>u32\<close>) is a number that
  is assumed not to reach \<open>2 ^ 32\<close>. A byte is a number below 256, and the
  bit tests of the scanner are written with \<open>div\<close> and \<open>mod\<close>.
\<close>

section \<open>Definitions\<close>

subsection \<open>The input gate\<close>

type_synonym event_id = nat

record input_gate =
  holder :: "event_id option"
  outstanding :: nat

definition input_gate_new :: input_gate where
  "input_gate_new = \<lparr>holder = None, outstanding = 0\<rparr>"

definition is_open :: "input_gate \<Rightarrow> bool" where
  "is_open g = (holder g = None)"

definition acquire :: "input_gate \<Rightarrow> event_id \<Rightarrow> bool \<times> input_gate" where
  "acquire g event =
     (case holder g of
        None \<Rightarrow> (True, g\<lparr>holder := Some event, outstanding := 1\<rparr>)
      | Some h \<Rightarrow>
          if h = event then (True, g\<lparr>outstanding := outstanding g + 1\<rparr>) else (False, g))"

definition release :: "input_gate \<Rightarrow> event_id \<Rightarrow> bool \<times> input_gate" where
  "release g event =
     (if holder g \<noteq> Some event then (False, g)
      else
        let g = g\<lparr>outstanding := outstanding g - 1\<rparr> in
        if outstanding g = 0 then (True, g\<lparr>holder := None\<rparr>) else (False, g))"

definition abandon :: "input_gate \<Rightarrow> event_id \<Rightarrow> bool \<times> input_gate" where
  "abandon g event =
     (if holder g \<noteq> Some event then (False, g)
      else (True, g\<lparr>holder := None, outstanding := 0\<rparr>))"

text \<open>A call on the gate, and the reference: how many holds every event has.\<close>

datatype gate_call = CallAcquire event_id | CallRelease event_id | CallAbandon event_id

fun gate_step :: "input_gate \<Rightarrow> gate_call \<Rightarrow> bool \<times> input_gate" where
  "gate_step g (CallAcquire e) = acquire g e"
| "gate_step g (CallRelease e) = release g e"
| "gate_step g (CallAbandon e) = abandon g e"

type_synonym holds = "event_id \<Rightarrow> nat"

fun holds_step :: "holds \<Rightarrow> gate_call \<Rightarrow> bool \<times> holds" where
  "holds_step h (CallAcquire e) =
     (if \<exists>e'. e' \<noteq> e \<and> 0 < h e' then (False, h) else (True, h(e := h e + 1)))"
| "holds_step h (CallRelease e) = (h e = 1, h(e := h e - 1))"
| "holds_step h (CallAbandon e) = (0 < h e, h(e := 0))"

definition gate_holds :: "input_gate \<Rightarrow> holds" where
  "gate_holds g e = (if holder g = Some e then outstanding g else 0)"

definition gate_ok :: "input_gate \<Rightarrow> bool" where
  "gate_ok g = (holder g = None \<longleftrightarrow> outstanding g = 0)"

fun gate_answers :: "input_gate \<Rightarrow> gate_call list \<Rightarrow> bool list" where
  "gate_answers g [] = []"
| "gate_answers g (c # cs) = fst (gate_step g c) # gate_answers (snd (gate_step g c)) cs"

fun holds_answers :: "holds \<Rightarrow> gate_call list \<Rightarrow> bool list" where
  "holds_answers h [] = []"
| "holds_answers h (c # cs) = fst (holds_step h c) # holds_answers (snd (holds_step h c)) cs"

subsection \<open>Redispatch after a failed forward\<close>

datatype attempt = NotOwner | NeverConnected | Ambiguous

record dispatcher =
  retried_not_owner :: bool
  retried_never_connected :: bool

definition dispatcher_default :: dispatcher where
  "dispatcher_default = \<lparr>retried_not_owner = False, retried_never_connected = False\<rparr>"

fun redispatch :: "dispatcher \<Rightarrow> attempt \<Rightarrow> bool \<times> dispatcher" where
  "redispatch d Ambiguous = (False, d)"
| "redispatch d NotOwner =
     (if retried_not_owner d then (False, d) else (True, d\<lparr>retried_not_owner := True\<rparr>))"
| "redispatch d NeverConnected =
     (if retried_never_connected d then (False, d)
      else (True, d\<lparr>retried_never_connected := True\<rparr>))"

fun redispatched :: "dispatcher \<Rightarrow> attempt list \<Rightarrow> attempt list" where
  "redispatched d [] = []"
| "redispatched d (a # as) =
     (case redispatch d a of
        (True, d') \<Rightarrow> a # redispatched d' as
      | (False, d') \<Rightarrow> redispatched d' as)"

subsection \<open>WebSocket close codes and the frame scanner\<close>

definition websocket_close_code_is_allowed :: "nat \<Rightarrow> bool" where
  "websocket_close_code_is_allowed code =
     ((1000 \<le> code \<and> code \<le> 1003) \<or> (1007 \<le> code \<and> code \<le> 1014)
      \<or> (3000 \<le> code \<and> code \<le> 4999))"

definition websocket_echo_close :: "nat \<Rightarrow> bool \<Rightarrow> bool \<Rightarrow> nat option" where
  "websocket_echo_close peer_code peer_was_clean handler_sent_close =
     (if handler_sent_close then None
      else if \<not> peer_was_clean then
        (if peer_code = 1002 \<or> peer_code = 1007 then Some peer_code else None)
      else if peer_code = 1005 then Some 1000
      else Some peer_code)"

datatype scan_state =
    Opcode
  | Length
  | ExtendedLength nat nat
  | Payload nat
  | Stopped

function observe :: "scan_state \<Rightarrow> nat list \<Rightarrow> scan_state" where
  "observe st [] = st"
| "observe Opcode (byte # rest) = observe (if byte mod 16 = 8 then Stopped else Length) rest"
| "observe Length (byte # rest) =
     observe
       (if byte = 0 then Opcode
        else if byte \<le> 125 then Payload byte
        else if byte = 126 then ExtendedLength 2 0
        else if byte = 127 then ExtendedLength 8 0
        else Stopped) rest"
| "observe (ExtendedLength remaining value) (byte # rest) =
     observe
       (if remaining = 8 \<and> 128 \<le> byte then Stopped
        else
          let value = value * 256 + byte; remaining = remaining - 1 in
          if remaining = 0 then (if value = 0 then Opcode else Payload value)
          else ExtendedLength remaining value) rest"
| "observe (Payload remaining) (byte # rest) =
     (let count = min remaining (length (byte # rest)); remaining = remaining - count in
      observe (if remaining = 0 then Opcode else Payload remaining) (drop count (byte # rest)))"
| "observe Stopped (byte # rest) = Stopped"
  by pat_completeness auto

termination
  by (relation "measures [\<lambda>(st, bytes). length bytes, \<lambda>(st, bytes). if st = Payload 0 then 1 else 0]")
     (auto split: if_splits)

definition can_append_close :: "scan_state \<Rightarrow> bool" where
  "can_append_close st = (st = Opcode)"

text \<open>
  The reference for the scanner: a stream that consists of complete unmasked
  frames, none of them a Close. A length byte up to 125 is the payload length;
  126 and 127 announce a big-endian length of two and of eight bytes, the latter below
  \<open>2 ^ 63\<close>.
\<close>

definition be_value :: "nat list \<Rightarrow> nat" where
  "be_value bs = foldl (\<lambda>v b. v * 256 + b) 0 bs"

inductive frame :: "nat list \<Rightarrow> bool" where
  short: "op mod 16 \<noteq> 8 \<Longrightarrow> n \<le> 125 \<Longrightarrow> length payload = n \<Longrightarrow> frame (op # n # payload)"
| medium: "op mod 16 \<noteq> 8 \<Longrightarrow> length len = 2 \<Longrightarrow> length payload = be_value len \<Longrightarrow>
     frame (op # 126 # len @ payload)"
| long: "op mod 16 \<noteq> 8 \<Longrightarrow> length len = 8 \<Longrightarrow> hd len < 128 \<Longrightarrow> length payload = be_value len \<Longrightarrow>
     frame (op # 127 # len @ payload)"

inductive frames :: "nat list \<Rightarrow> bool" where
  empty: "frames []"
| more: "frame bs \<Longrightarrow> frames rest \<Longrightarrow> frames (bs @ rest)"

text \<open>One byte at a time, the way the stream is read when every chunk is a single byte.\<close>

fun scan_byte :: "scan_state \<Rightarrow> nat \<Rightarrow> scan_state" where
  "scan_byte Opcode byte = (if byte mod 16 = 8 then Stopped else Length)"
| "scan_byte Length byte =
     (if byte = 0 then Opcode
      else if byte \<le> 125 then Payload byte
      else if byte = 126 then ExtendedLength 2 0
      else if byte = 127 then ExtendedLength 8 0
      else Stopped)"
| "scan_byte (ExtendedLength remaining value) byte =
     (if remaining = 8 \<and> 128 \<le> byte then Stopped
      else if remaining = 1 then
        (if value * 256 + byte = 0 then Opcode else Payload (value * 256 + byte))
      else ExtendedLength (remaining - 1) (value * 256 + byte))"
| "scan_byte (Payload remaining) byte =
     (if remaining = 1 then Opcode else Payload (remaining - 1))"
| "scan_byte Stopped byte = Stopped"

fun scan_ok :: "scan_state \<Rightarrow> bool" where
  "scan_ok (ExtendedLength remaining _) = (0 < remaining)"
| "scan_ok (Payload remaining) = (0 < remaining)"
| "scan_ok _ = True"

subsection \<open>Peer authentication, cell scopes, SQLite failures\<close>

definition ascii_alphanumeric :: "char \<Rightarrow> bool" where
  "ascii_alphanumeric c =
     ((CHR ''0'' \<le> c \<and> c \<le> CHR ''9'') \<or> (CHR ''A'' \<le> c \<and> c \<le> CHR ''Z'')
      \<or> (CHR ''a'' \<le> c \<and> c \<le> CHR ''z''))"

definition valid_identity :: "string \<Rightarrow> bool" where
  "valid_identity s =
     (s \<noteq> [] \<and> length s \<le> 128 \<and> s \<noteq> ''.'' \<and> s \<noteq> ''..''
      \<and> list_all (\<lambda>b. ascii_alphanumeric b \<or> b \<in> {CHR ''_'', CHR ''-'', CHR ''.''}) s)"

definition within_clock_window :: "nat \<Rightarrow> nat \<Rightarrow> nat \<Rightarrow> bool" where
  "within_clock_window now timestamp window =
     ((if now \<le> timestamp then timestamp - now else now - timestamp) \<le> window)"

definition replay_entry_expired :: "nat \<Rightarrow> nat \<Rightarrow> nat \<Rightarrow> bool" where
  "replay_entry_expired now seen_ms retention = (retention < now - seen_ms)"

definition MAX_CELL_SCOPE :: nat where
  "MAX_CELL_SCOPE = 255"

definition valid_cell_scope :: "string \<Rightarrow> bool" where
  "valid_cell_scope scope =
     (scope \<noteq> [] \<and> length scope \<le> MAX_CELL_SCOPE \<and> scope \<noteq> ''.'' \<and> scope \<noteq> ''..''
      \<and> list_all
          (\<lambda>b. ascii_alphanumeric b \<or> b \<in> {CHR ''_'', CHR ''-'', CHR ''.'', CHR '':'', CHR ''$''})
          scope)"

definition poisons_actor :: "int \<Rightarrow> bool \<Rightarrow> bool \<Rightarrow> bool" where
  "poisons_actor result_code started_in_transaction now_autocommit =
     (let primary = result_code mod 256 in
      started_in_transaction \<and> now_autocommit \<and> primary \<in> {13, 10, 7, 9})"

section \<open>Lemmas\<close>

lemma gate_step_ok: "gate_ok g \<Longrightarrow> gate_ok (snd (gate_step g c))"
  by (cases c)
     (auto simp: gate_ok_def acquire_def release_def abandon_def Let_def split: option.splits)

interpretation gm: step_machine "\<lambda>g c. snd (gate_step g c)" gate_ok
  by unfold_locales (rule gate_step_ok)

lemma gate_step_simulates:
  assumes "gate_ok g"
  shows "holds_step (gate_holds g) c = (fst (gate_step g c), gate_holds (snd (gate_step g c)))"
  using assms
  by (cases c)
     (auto simp: gate_ok_def gate_holds_def acquire_def release_def abandon_def Let_def fun_eq_iff
           split: option.splits)

lemma gate_answers_simulate:
  "gate_ok g \<Longrightarrow> gate_answers g cs = holds_answers (gate_holds g) cs"
  by (induction cs arbitrary: g) (simp_all add: gate_step_simulates gate_step_ok)

lemma gate_ok_new: "gate_ok input_gate_new"
  by (simp add: gate_ok_def input_gate_new_def)

lemma gate_holds_new: "gate_holds input_gate_new = (\<lambda>_. 0)"
  by (simp add: gate_holds_def input_gate_new_def fun_eq_iff)

lemma gate_holds_run:
  "gate_ok g \<Longrightarrow> gate_holds (run_steps (\<lambda>g c. snd (gate_step g c)) g cs)
     = run_steps (\<lambda>h c. snd (holds_step h c)) (gate_holds g) cs"
  by (induction cs arbitrary: g) (simp_all add: gate_step_simulates gate_step_ok)

lemma gate_single_holder: "\<exists>e. {e'. 0 < gate_holds g e'} \<subseteq> {e}"
  by (cases "holder g") (auto simp: gate_holds_def split: if_splits)

lemma gate_open_iff: "gate_ok g \<Longrightarrow> is_open g \<longleftrightarrow> gate_holds g = (\<lambda>_. 0)"
  by (cases "holder g") (auto simp: gate_ok_def gate_holds_def is_open_def fun_eq_iff)

subsection \<open>The frame scanner\<close>

lemma scan_byte_ok: "scan_ok st \<Longrightarrow> scan_ok (scan_byte st byte)"
  by (cases st) auto

interpretation sm: step_machine scan_byte scan_ok
  by unfold_locales (rule scan_byte_ok)

lemma scan_Stopped [simp]: "run_steps scan_byte Stopped bs = Stopped"
  by (induction bs) simp_all

lemma scan_Payload:
  assumes "0 < n"
  shows "run_steps scan_byte (Payload n) bs =
    (if length bs < n then Payload (n - length bs) else run_steps scan_byte Opcode (drop n bs))"
  using assms
proof (induction bs arbitrary: n)
  case (Cons b bs)
  show ?case
  proof (cases "n = 1")
    case False
    then show ?thesis using Cons.IH [of "n - 1"] Cons.prems by (auto simp: drop_Cons')
  qed simp
qed simp

lemma observe_scan: "scan_ok st \<Longrightarrow> observe st bs = run_steps scan_byte st bs"
proof (induction st bs rule: observe.induct)
  case (5 remaining byte rest)
  then show ?case
    by (auto simp: Let_def scan_Payload min_def simp del: run_steps_Cons split: if_splits)
qed (auto simp: Let_def)

lemma scan_ExtendedLength:
  assumes "length ls = r" and "0 < r" and "r \<le> 8" and "r = 8 \<longrightarrow> hd ls < 128"
  shows "run_steps scan_byte (ExtendedLength r v) ls =
    (let value = foldl (\<lambda>v b. v * 256 + b) v ls in if value = 0 then Opcode else Payload value)"
  using assms
proof (induction ls arbitrary: r v)
  case (Cons b ls)
  show ?case
  proof (cases "r = 1")
    case False
    then show ?thesis using Cons.IH [of "r - 1" "v * 256 + b"] Cons.prems by auto
  qed (use Cons.prems in \<open>simp add: Let_def\<close>)
qed simp

lemma scan_ExtendedLength_short:
  assumes "length ls < r" and "r \<le> 8"
  shows "run_steps scan_byte (ExtendedLength r v) ls \<noteq> Opcode"
  using assms
proof (induction ls arbitrary: r v)
  case (Cons b ls)
  then show ?case using Cons.IH [of "r - 1" "v * 256 + b"] by auto
qed simp

lemma scan_length_field:
  assumes "r = 2 \<or> r = 8" and "length len = r" and "r = 8 \<longrightarrow> hd len < 128"
  shows "run_steps scan_byte (ExtendedLength r 0) (len @ rest) =
    run_steps scan_byte (if be_value len = 0 then Opcode else Payload (be_value len)) rest"
proof -
  have "0 < r" "r \<le> 8" using assms(1) by auto
  from scan_ExtendedLength [OF assms(2) this assms(3), of 0] show ?thesis
    by (simp add: run_steps_append be_value_def Let_def)
qed

lemma scan_payload_Opcode:
  "run_steps scan_byte (if n = 0 then Opcode else Payload n) bs = Opcode \<longleftrightarrow>
   n \<le> length bs \<and> run_steps scan_byte Opcode (drop n bs) = Opcode"
  by (auto simp: scan_Payload)

lemma scan_extended:
  assumes r: "r = 2 \<or> r = 8"
  shows "run_steps scan_byte (ExtendedLength r 0) bs = Opcode \<longleftrightarrow>
    (\<exists>len payload rest. bs = len @ payload @ rest \<and> length len = r \<and> (r = 8 \<longrightarrow> hd len < 128)
       \<and> length payload = be_value len \<and> run_steps scan_byte Opcode rest = Opcode)"
    (is "?run bs = Opcode \<longleftrightarrow> ?split")
proof
  assume run: "?run bs = Opcode"
  have "r \<le> length bs" using run scan_ExtendedLength_short [of bs r 0] r by force
  then obtain len tl where bs: "bs = len @ tl" and length: "length len = r"
    by (metis append_take_drop_id length_take min.absorb2)
  obtain b ls where len: "len = b # ls" using length r by (cases len) auto
  have hd: "r = 8 \<longrightarrow> hd len < 128"
    using run by (cases "b < 128") (auto simp: bs len)
  have "be_value len \<le> length tl \<and> run_steps scan_byte Opcode (drop (be_value len) tl) = Opcode"
    using run unfolding bs scan_length_field [OF r length hd] scan_payload_Opcode .
  then show ?split
    using bs length hd
    by (intro exI [of _ len] exI [of _ "take (be_value len) tl"] exI [of _ "drop (be_value len) tl"]) simp
next
  assume ?split
  then obtain len payload rest where bs: "bs = len @ payload @ rest" and length: "length len = r"
    and hd: "r = 8 \<longrightarrow> hd len < 128" and pl: "length payload = be_value len"
    and rest: "run_steps scan_byte Opcode rest = Opcode" by blast
  show "?run bs = Opcode"
    unfolding bs scan_length_field [OF r length hd] scan_payload_Opcode using pl rest by simp
qed

lemma scan_frame_step:
  assumes "run_steps scan_byte Opcode bs = Opcode" and "bs \<noteq> []"
  shows "\<exists>f rest. bs = f @ rest \<and> frame f \<and> run_steps scan_byte Opcode rest = Opcode"
proof -
  obtain op bs' where bs': "bs = op # bs'" using assms(2) by (cases bs) auto
  have op: "op mod 16 \<noteq> 8" using assms(1) by (auto simp: bs')
  then obtain n tl where tl: "bs' = n # tl" using assms(1) by (cases bs') (auto simp: bs')
  consider "n \<le> 125" | "n = 126" | "n = 127" | "127 < n" by linarith
  then show ?thesis
  proof cases
    case 1
    then have "run_steps scan_byte (if n = 0 then Opcode else Payload n) tl = Opcode"
      using assms(1) op by (auto simp: bs' tl split: if_splits)
    then have "n \<le> length tl" and "run_steps scan_byte Opcode (drop n tl) = Opcode"
      unfolding scan_payload_Opcode by simp_all
    then show ?thesis using op 1 frame.short [OF op 1, of "take n tl"]
      by (intro exI [of _ "op # n # take n tl"] exI [of _ "drop n tl"]) (simp add: bs' tl)
  next
    case 2
    then have "run_steps scan_byte (ExtendedLength 2 0) tl = Opcode" using assms(1) op by (simp add: bs' tl)
    then obtain len payload rest where "tl = len @ payload @ rest" "length len = 2"
      "length payload = be_value len" "run_steps scan_byte Opcode rest = Opcode"
      using scan_extended [of 2 tl] by auto
    then show ?thesis using 2 op frame.medium [OF op, of len payload]
      by (intro exI [of _ "op # 126 # len @ payload"] exI [of _ rest]) (simp add: bs' tl)
  next
    case 3
    then have "run_steps scan_byte (ExtendedLength 8 0) tl = Opcode" using assms(1) op by (simp add: bs' tl)
    then obtain len payload rest where "tl = len @ payload @ rest" "length len = 8" "hd len < 128"
      "length payload = be_value len" "run_steps scan_byte Opcode rest = Opcode"
      using scan_extended [of 8 tl] by auto
    then show ?thesis using 3 op frame.long [OF op, of len payload]
      by (intro exI [of _ "op # 127 # len @ payload"] exI [of _ rest]) (simp add: bs' tl)
  next
    case 4
    then show ?thesis using assms(1) op by (simp add: bs' tl)
  qed
qed

lemma scan_frame: "frame f \<Longrightarrow> run_steps scan_byte Opcode (f @ rest) = run_steps scan_byte Opcode rest"
proof (induction f rule: frame.induct)
  case (short op n payload)
  then show ?case by (auto simp: scan_Payload)
next
  case (medium op len payload)
  then show ?case using scan_length_field [of 2 len "payload @ rest"]
    by (auto simp: scan_Payload split: if_splits)
next
  case (long op len payload)
  then show ?case using scan_length_field [of 8 len "payload @ rest"]
    by (auto simp: scan_Payload split: if_splits)
qed

lemma scan_frames: "run_steps scan_byte Opcode bs = Opcode \<longleftrightarrow> frames bs"
proof
  show "run_steps scan_byte Opcode bs = Opcode \<Longrightarrow> frames bs"
  proof (induction "length bs" arbitrary: bs rule: less_induct)
    case less
    show ?case
    proof (cases "bs = []")
      case False
      then obtain f rest where "bs = f @ rest" "frame f" "run_steps scan_byte Opcode rest = Opcode"
        using scan_frame_step less.prems by blast
      moreover have "f \<noteq> []" using \<open>frame f\<close> by (auto elim: frame.cases)
      ultimately show ?thesis using less.hyps [of rest] by (auto intro: frames.more)
    qed (simp add: frames.empty)
  qed
qed (induction bs rule: frames.induct, simp_all add: scan_frame)

lemma observe_chunks: "foldl observe Opcode chunks = run_steps scan_byte Opcode (concat chunks)"
proof (induction chunks rule: rev_induct)
  case (snoc chunk chunks)
  have "scan_ok (run_steps scan_byte Opcode (concat chunks))" by (rule sm.run_inv) simp
  then show ?case using snoc by (simp add: observe_scan run_steps_append)
qed simp

subsection \<open>Redispatch and peer authentication\<close>

lemma redispatched_count:
  "count_list (redispatched d as) NotOwner \<le> (if retried_not_owner d then 0 else 1) \<and>
   count_list (redispatched d as) NeverConnected \<le> (if retried_never_connected d then 0 else 1) \<and>
   count_list (redispatched d as) Ambiguous = 0"
proof (induction "as" arbitrary: d)
  case (Cons a "as")
  show ?case
    using Cons.IH [of d] Cons.IH [of "d\<lparr>retried_not_owner := True\<rparr>"]
      Cons.IH [of "d\<lparr>retried_never_connected := True\<rparr>"]
    by (cases a) (auto split: if_splits)
qed simp

lemma valid_cell_scope_component:
  assumes "valid_cell_scope scope"
  shows "CHR ''/'' \<notin> set scope" and "scope \<noteq> []"
  using assms by (auto simp: valid_cell_scope_def ascii_alphanumeric_def list_all_iff less_eq_char_def)

section \<open>Properties\<close>

text \<open>
  C34. The input gate is the reference lock: over any sequence of calls, every answer of
  \<open>acquire\<close>, \<open>release\<close> and \<open>abandon\<close> is the one given by counting each event's
  outstanding holds, at most one event ever holds the gate, and the gate is open
  exactly when no event has a hold left. In particular a stale release or abandon by
  another event never opens it. The outstanding count, a \<open>u32\<close> in the code, is taken to be unbounded: the
  statement is about events that open fewer than \<open>2 ^ 32\<close> blocks inside each other.
\<close>

theorem input_gate_is_lock:
  "gate_answers input_gate_new calls = holds_answers (\<lambda>_. 0) calls \<and>
   (let g = run_steps (\<lambda>g c. snd (gate_step g c)) input_gate_new calls in
      gate_holds g = run_steps (\<lambda>h c. snd (holds_step h c)) (\<lambda>_. 0) calls
      \<and> (\<exists>e. {e'. 0 < gate_holds g e'} \<subseteq> {e})
      \<and> (is_open g \<longleftrightarrow> gate_holds g = (\<lambda>_. 0)))"
  using gate_answers_simulate [OF gate_ok_new] gate_holds_run [OF gate_ok_new]
    gate_single_holder gate_open_iff [OF gm.run_inv [OF gate_ok_new]]
  by (simp add: gate_holds_new)

text \<open>
  A failed forward is sent again at most once because the peer was not the owner
  and at most once because the connection was never made, over any sequence of
  failures, and never after an ambiguous failure: at-most-once execution is kept and
  the loop ends.
\<close>

lemma redispatch_bounded:
  "count_list (redispatched dispatcher_default as) a \<le> (if a = Ambiguous then 0 else 1) \<and>
   length (redispatched dispatcher_default as) \<le> 2"
proof -
  have len: "length xs = count_list xs NotOwner + count_list xs NeverConnected + count_list xs Ambiguous" for xs
    by (induction xs) (auto, metis attempt.exhaust)
  show ?thesis
    using redispatched_count [of dispatcher_default "as"] len [of "redispatched dispatcher_default as"]
    by (cases a) (auto simp: dispatcher_default_def)
qed

text \<open>
  C35. The WebSocket scanner allows a synthetic Close to be appended exactly when the
  bytes written so far are complete frames, none of them a Close, whatever the
  chunks in which the bytes were written.
\<close>

theorem close_scanner_exact:
  "can_append_close (foldl observe Opcode chunks) \<longleftrightarrow> frames (concat chunks)"
  by (simp add: can_append_close_def observe_chunks scan_frames)

text \<open>
  Replay protection: if the retention is at least twice the clock window, a nonce
  that may be dropped from the replay cache belongs to a signature whose timestamp is no longer accepted.
\<close>

lemma replay_cache_covers_window:
  assumes "within_clock_window seen_ms timestamp window"
    and "2 * window \<le> retention"
    and "replay_entry_expired now seen_ms retention"
  shows "\<not> within_clock_window now timestamp window"
  using assms by (auto simp: within_clock_window_def replay_entry_expired_def split: if_splits)

lemma replay_cache_covers_window_witness:
  "\<not> within_clock_window 70000 (5000::nat) 30000"
  by (rule replay_cache_covers_window [where seen_ms = 0 and retention = 60000])
     (simp_all add: within_clock_window_def replay_entry_expired_def)

text \<open>
  A retention of one clock window, which the comment on \<open>replay_entry_expired\<close> and the
  compile-time assertion of \<open>peer_auth.rs\<close> accept, is not enough: a nonce from a peer whose
  clock runs ahead is forgotten while its signature is still accepted.
\<close>

lemma replay_one_window_too_short:
  "within_clock_window 100000 130000 30000 \<and> replay_entry_expired 130001 100000 30000
   \<and> within_clock_window 130001 130000 30000"
  by (simp add: within_clock_window_def replay_entry_expired_def)

end
