(* ===== verification/LogTier.thy ===== *)
theory LogTier
  imports Prelude
begin

text \<open>
  The decision core of the replicated log tier (\<open>log_tier.rs\<close>): the log record in
  the bucket and its recovery state machine, a follower's fragment with its seal mark, the
  write-all/ack-all rule of the leader, the guards on sealing, crediting, deleting and
  reconfiguring, and the ship loop's truncation ledger.

  Sets of nodes are sets, \<open>ends\<close> is an ordered map, the batches of the ledger are of any
  type. Offsets and epochs are numbers: the increments \<open>end + 1\<close> and
  \<open>epoch + 1\<close> of the source overflow only after \<open>2 ^ 64\<close> steps.
\<close>

section \<open>Definitions\<close>

type_synonym offset = nat

datatype log_state = Open | Recovering | Sealed

record log_record =
  lr_epoch :: epoch
  lr_ensemble :: "node_id set"
  lr_tiered :: offset
  lr_bucket_complete :: bool
  lr_state :: log_state
  lr_claimant :: "node_id option"
  lr_claimed_ms :: "nat option"

definition create_record :: "node_id set \<Rightarrow> offset \<Rightarrow> log_record option" where
  "create_record ensemble bucket_end =
     (if ensemble = {} then None
      else Some \<lparr>lr_epoch = 1, lr_ensemble = ensemble, lr_tiered = bucket_end,
        lr_bucket_complete = False, lr_state = Open, lr_claimant = None, lr_claimed_ms = None\<rparr>)"

subsection \<open>A follower's fragment\<close>

record follower_log =
  fl_fragment_epoch :: epoch
  fl_base :: offset
  fl_end :: offset
  fl_sealed_to :: epoch

definition join :: "epoch \<Rightarrow> offset \<Rightarrow> follower_log" where
  "join fragment_epoch base =
     \<lparr>fl_fragment_epoch = fragment_epoch, fl_base = base, fl_end = base, fl_sealed_to = 0\<rparr>"

definition accept_append :: "follower_log \<Rightarrow> epoch \<Rightarrow> offset \<Rightarrow> bool \<times> follower_log" where
  "accept_append f epoch offset =
     (if epoch \<noteq> fl_fragment_epoch f \<or> epoch \<le> fl_sealed_to f \<or> offset \<noteq> fl_end f + 1
      then (False, f)
      else (True, f\<lparr>fl_end := offset\<rparr>))"

definition seal :: "follower_log \<Rightarrow> epoch \<Rightarrow> offset \<times> follower_log" where
  "seal f epoch =
     (let f = (if fl_sealed_to f < epoch then f\<lparr>fl_sealed_to := epoch\<rparr> else f) in (fl_end f, f))"

definition truncate_log :: "follower_log \<Rightarrow> offset \<Rightarrow> follower_log" where
  "truncate_log f tiered = (if fl_base f < tiered then f\<lparr>fl_base := tiered\<rparr> else f)"

subsection \<open>Acknowledgement and reconfiguration\<close>

record leader_view =
  lv_epoch :: epoch
  lv_ensemble :: "node_id set"

definition ack_fleet_allowed :: "leader_view \<Rightarrow> (node_id, offset) bmap \<Rightarrow> offset \<Rightarrow> bool" where
  "ack_fleet_allowed view ends next =
     (lv_ensemble view \<noteq> {} \<and>
      (\<forall>member\<in>lv_ensemble view.
         case bm_get ends member of None \<Rightarrow> False | Some e \<Rightarrow> next \<le> e))"

record reconfig_plan =
  rp_tier_through :: offset
  rp_record :: log_record

definition plan_reconfigure ::
  "log_record \<Rightarrow> offset \<Rightarrow> node_id set \<Rightarrow> reconfig_plan option" where
  "plan_reconfigure current log_end ensemble =
     (if lr_state current \<noteq> Open \<or> ensemble = {} \<or> ensemble = lr_ensemble current then None
      else Some \<lparr>rp_tier_through = log_end,
        rp_record = \<lparr>lr_epoch = lr_epoch current + 1, lr_ensemble = ensemble,
          lr_tiered = log_end, lr_bucket_complete = False, lr_state = Open,
          lr_claimant = None, lr_claimed_ms = None\<rparr>\<rparr>)"

subsection \<open>Recovery\<close>

definition start_recovery :: "log_record \<Rightarrow> node_id \<Rightarrow> nat \<Rightarrow> log_record option" where
  "start_recovery r claimant now_ms =
     (if lr_state r \<noteq> Open then None
      else Some (r\<lparr>lr_state := Recovering, lr_claimant := Some claimant,
        lr_claimed_ms := Some now_ms\<rparr>))"

definition recovery_claimed_by :: "log_record \<Rightarrow> node_id \<Rightarrow> bool" where
  "recovery_claimed_by r claimant =
     (lr_state r = Recovering \<and> lr_claimant r = Some claimant)"

definition recovery_claim_live :: "log_record \<Rightarrow> nat \<Rightarrow> nat \<Rightarrow> bool" where
  "recovery_claim_live r now_ms stale_after_ms =
     (lr_state r = Recovering \<and> lr_claimant r \<noteq> None \<and>
      (case lr_claimed_ms r of None \<Rightarrow> False | Some claimed \<Rightarrow> now_ms - claimed < stale_after_ms))"

definition refresh_recovery :: "log_record \<Rightarrow> node_id \<Rightarrow> nat \<Rightarrow> log_record option" where
  "refresh_recovery r claimant now_ms =
     (if \<not> recovery_claimed_by r claimant then None
      else Some (r\<lparr>lr_claimed_ms := Some now_ms\<rparr>))"

definition take_over_recovery ::
  "log_record \<Rightarrow> node_id \<Rightarrow> nat \<Rightarrow> nat \<Rightarrow> log_record option" where
  "take_over_recovery r claimant now_ms stale_after_ms =
     (if lr_state r \<noteq> Recovering \<or> recovery_claim_live r now_ms stale_after_ms then None
      else Some (r\<lparr>lr_claimant := Some claimant, lr_claimed_ms := Some now_ms\<rparr>))"

definition certify :: "offset \<Rightarrow> offset \<Rightarrow> offset" where
  "certify tiered sealed_end = max tiered sealed_end"

definition finish_recovery :: "log_record \<Rightarrow> offset \<Rightarrow> log_record option" where
  "finish_recovery r cert =
     (if lr_state r \<noteq> Recovering then None
      else Some (r\<lparr>lr_tiered := cert, lr_state := Sealed, lr_claimant := None,
        lr_claimed_ms := None\<rparr>))"

subsection \<open>Guards\<close>

datatype takeover_gate_kind = BucketComplete | RecoverFirst

fun takeover_gate :: "log_record option \<Rightarrow> takeover_gate_kind" where
  "takeover_gate None = BucketComplete"
| "takeover_gate (Some r) = (if lr_state r = Sealed then BucketComplete else RecoverFirst)"

datatype maintain_step_kind = CreateFresh | Reopen epoch | Wait

fun maintain_step :: "log_record option \<Rightarrow> maintain_step_kind" where
  "maintain_step None = CreateFresh"
| "maintain_step (Some r) =
     (if lr_state r = Recovering then Wait else Reopen (lr_epoch r + 1))"

definition graceful_seal_allowed :: "log_record \<Rightarrow> epoch \<Rightarrow> bool \<Rightarrow> bool \<Rightarrow> bool" where
  "graceful_seal_allowed r epoch batch_in_flight per_cell_complete =
     (lr_state r = Open \<and> lr_epoch r = epoch \<and> \<not> batch_in_flight \<and> per_cell_complete)"

definition bundle_credit_allowed :: "log_record option \<Rightarrow> epoch \<Rightarrow> bool" where
  "bundle_credit_allowed rec epoch =
     (case rec of None \<Rightarrow> False | Some r \<Rightarrow> lr_epoch r = epoch \<and> lr_state r = Open)"

definition bundle_deletable :: "(nat \<times> nat) list \<Rightarrow> bool" where
  "bundle_deletable rows = list_all (\<lambda>(txid, covered). txid \<le> covered) rows"

definition fragment_closed :: "log_record \<Rightarrow> epoch \<Rightarrow> bool" where
  "fragment_closed r fragment_epoch =
     (fragment_epoch < lr_epoch r \<or> (lr_epoch r = fragment_epoch \<and> lr_state r = Sealed))"

definition may_reconfigure :: "bool \<Rightarrow> bool \<Rightarrow> bool" where
  "may_reconfigure batch_in_flight all_shipped_covered =
     (\<not> batch_in_flight \<and> all_shipped_covered)"

subsection \<open>The ship ledger\<close>

record 'b ship_ledger =
  sl_epoch :: epoch
  sl_covered_seq :: offset
  sl_outstanding :: "(offset \<times> 'b) list"

definition ship_ledger_default :: "'b ship_ledger" where
  "ship_ledger_default = \<lparr>sl_epoch = 0, sl_covered_seq = 0, sl_outstanding = []\<rparr>"

definition observe_epoch :: "epoch \<Rightarrow> 'b ship_ledger \<Rightarrow> 'b ship_ledger" where
  "observe_epoch epoch l =
     (if epoch \<noteq> sl_epoch l
      then l\<lparr>sl_epoch := epoch, sl_outstanding := [], sl_covered_seq := 0\<rparr>
      else l)"

definition shipped :: "offset \<Rightarrow> 'b \<Rightarrow> 'b ship_ledger \<Rightarrow> 'b ship_ledger" where
  "shipped last_seq batch l = l\<lparr>sl_outstanding := sl_outstanding l @ [(last_seq, batch)]\<rparr>"

fun advance_front :: "('b \<Rightarrow> bool) \<Rightarrow> offset \<Rightarrow> (offset \<times> 'b) list \<Rightarrow> offset \<times> (offset \<times> 'b) list" where
  "advance_front covered seq [] = (seq, [])"
| "advance_front covered seq ((last_seq, batch) # rest) =
     (if covered batch then advance_front covered last_seq rest
      else (seq, (last_seq, batch) # rest))"

definition advance :: "('b \<Rightarrow> bool) \<Rightarrow> 'b ship_ledger \<Rightarrow> 'b ship_ledger" where
  "advance covered l =
     (let (seq, rest) = advance_front covered (sl_covered_seq l) (sl_outstanding l) in
      l\<lparr>sl_covered_seq := seq, sl_outstanding := rest\<rparr>)"

datatype shortfall = NoPeer | NoEligiblePeer

definition fleet_shortfall :: "nat \<Rightarrow> nat \<Rightarrow> nat option \<Rightarrow> nat \<Rightarrow> shortfall option" where
  "fleet_shortfall live_peers now_ms last_ms interval_ms =
     (if (case last_ms of None \<Rightarrow> False | Some reported \<Rightarrow> now_ms - reported < interval_ms) then None
      else Some (if live_peers = 0 then NoPeer else NoEligiblePeer))"

subsection \<open>Calls on a follower and on the ledger\<close>

datatype follower_call = FAppend epoch offset | FSeal epoch | FTruncate offset

fun follower_step :: "follower_log \<Rightarrow> follower_call \<Rightarrow> follower_log" where
  "follower_step f (FAppend epoch offset) = snd (accept_append f epoch offset)"
| "follower_step f (FSeal epoch) = snd (seal f epoch)"
| "follower_step f (FTruncate tiered) = truncate_log f tiered"

datatype 'b ledger_call = LEpoch epoch | LShipped offset 'b | LAdvance "'b \<Rightarrow> bool"

fun ledger_step :: "'b ship_ledger \<Rightarrow> 'b ledger_call \<Rightarrow> 'b ship_ledger" where
  "ledger_step l (LEpoch e) = observe_epoch e l"
| "ledger_step l (LShipped q b) = shipped q b l"
| "ledger_step l (LAdvance c) = advance c l"

text \<open>The batches shipped since the last change of epoch.\<close>

fun shipped_since :: "epoch \<Rightarrow> (offset \<times> 'b) list \<Rightarrow> 'b ledger_call list \<Rightarrow> (offset \<times> 'b) list" where
  "shipped_since e acc [] = acc"
| "shipped_since e acc (LEpoch e' # cs) =
     (if e' = e then shipped_since e acc cs else shipped_since e' [] cs)"
| "shipped_since e acc (LShipped q b # cs) = shipped_since e (acc @ [(q, b)]) cs"
| "shipped_since e acc (LAdvance c # cs) = shipped_since e acc cs"

section \<open>Lemmas\<close>

lemmas follower_defs = accept_append_def seal_def truncate_log_def Let_def

lemma follower_step_mono:
  "fl_end f \<le> fl_end (follower_step f c) \<and> fl_sealed_to f \<le> fl_sealed_to (follower_step f c)
   \<and> fl_fragment_epoch (follower_step f c) = fl_fragment_epoch f"
  by (cases c) (auto simp: follower_defs)

lemma follower_run_mono:
  "fl_end f \<le> fl_end (run_steps follower_step f cs)
   \<and> fl_fragment_epoch (run_steps follower_step f cs) = fl_fragment_epoch f"
proof (induction cs arbitrary: f)
  case (Cons c cs)
  then show ?case using follower_step_mono [of f c] by (metis order_trans run_steps_Cons)
qed simp

definition sealed_at :: "offset \<Rightarrow> follower_log \<Rightarrow> bool" where
  "sealed_at e f = (fl_fragment_epoch f \<le> fl_sealed_to f \<and> fl_end f = e)"

interpretation sealed: step_machine follower_step "sealed_at e" for e
proof unfold_locales
  fix e f c
  assume "sealed_at e f"
  then show "sealed_at e (follower_step f c)"
    by (cases c) (auto simp: sealed_at_def follower_defs)
qed

lemma seal_freezes:
  assumes "fl_fragment_epoch f \<le> epoch"
  shows "fl_end (run_steps follower_step (snd (seal f epoch)) cs) = fst (seal f epoch)"
proof -
  have "sealed_at (fst (seal f epoch)) (snd (seal f epoch))"
    using assms by (auto simp: sealed_at_def seal_def Let_def)
  then show ?thesis using sealed.run_inv by (fastforce simp: sealed_at_def)
qed

lemma ack_bounded_by_member:
  assumes "ack_fleet_allowed view ends next" and "m \<in> lv_ensemble view"
    and "\<And>e. bm_get ends m = Some e \<Longrightarrow> e \<le> b"
  shows "next \<le> b"
  using assms by (force simp: ack_fleet_allowed_def split: option.splits)

lemma advance_front_split:
  assumes "advance_front c seq outs = (seq', rest)"
  shows "\<exists>done. outs = done @ rest \<and> (\<forall>(q, b)\<in>set done. c b) \<and>
    seq' = (if done = [] then seq else fst (last done)) \<and>
    (rest = [] \<or> \<not> c (snd (hd rest)))"
  using assms
proof (induction c seq outs rule: advance_front.induct)
  case (2 covered seq last_seq batch rest')
  show ?case
  proof (cases "covered batch")
    case True
    then obtain d where "rest' = d @ rest" "\<forall>(q, b)\<in>set d. covered b"
      "seq' = (if d = [] then last_seq else fst (last d))" "rest = [] \<or> \<not> covered (snd (hd rest))"
      using 2 by auto
    then show ?thesis using True by (intro exI [of _ "(last_seq, batch) # d"]) auto
  next
    case False
    then show ?thesis using 2 by auto
  qed
qed simp

definition ledger_split ::
  "('b \<Rightarrow> bool) \<Rightarrow> (offset \<times> 'b) list \<Rightarrow> 'b ship_ledger \<Rightarrow> bool" where
  "ledger_split P sent l =
     (\<exists>done. sent = done @ sl_outstanding l \<and> (\<forall>(q, b)\<in>set done. P b)
        \<and> sl_covered_seq l = (if done = [] then 0 else fst (last done)))"

lemma ledger_split_advance:
  assumes "ledger_split P sent l" and "c \<le> P"
  shows "ledger_split P sent (advance c l)"
proof -
  obtain d where d: "sent = d @ sl_outstanding l" "\<forall>(q, b)\<in>set d. P b"
    "sl_covered_seq l = (if d = [] then 0 else fst (last d))"
    using assms(1) by (auto simp: ledger_split_def)
  obtain seq' rest where a: "advance_front c (sl_covered_seq l) (sl_outstanding l) = (seq', rest)"
    by (cases "advance_front c (sl_covered_seq l) (sl_outstanding l)")
  obtain d' where d': "sl_outstanding l = d' @ rest" "\<forall>(q, b)\<in>set d'. c b"
    "seq' = (if d' = [] then sl_covered_seq l else fst (last d'))"
    using advance_front_split [OF a] by blast
  moreover have "\<forall>(q, b)\<in>set d'. P b" using d'(2) assms(2) by (auto simp: le_fun_def)
  ultimately show ?thesis
    using d a by (auto simp: ledger_split_def advance_def intro!: exI [of _ "d @ d'"])
qed

lemma ledger_split_reset:
  "e \<noteq> sl_epoch l \<Longrightarrow> ledger_split P [] (observe_epoch e l) \<and> sl_epoch (observe_epoch e l) = e"
  by (simp add: observe_epoch_def ledger_split_def)

lemma ledger_split_shipped:
  assumes "ledger_split P sent l"
  shows "ledger_split P (sent @ [(q, b)]) (shipped q b l)"
proof -
  obtain d where "sent = d @ sl_outstanding l" "\<forall>(q, b)\<in>set d. P b"
    "sl_covered_seq l = (if d = [] then 0 else fst (last d))"
    using assms by (auto simp: ledger_split_def)
  then show ?thesis unfolding ledger_split_def shipped_def by (intro exI [of _ d]) simp
qed

lemma ledger_step_epoch:
  "sl_epoch (shipped q b l) = sl_epoch l" "sl_epoch (advance c l) = sl_epoch l"
  by (simp_all add: shipped_def advance_def split_beta)

lemma ledger_split_run:
  assumes "ledger_split P sent l" and "\<forall>c. LAdvance c \<in> set cs \<longrightarrow> c \<le> P"
  shows "ledger_split P (shipped_since (sl_epoch l) sent cs) (run_steps ledger_step l cs)"
  using assms
proof (induction cs arbitrary: l sent)
  case (Cons call cs)
  have IH: "ledger_split P (shipped_since (sl_epoch l') sent' cs) (run_steps ledger_step l' cs)"
    if "ledger_split P sent' l'" for l' sent'
    using Cons.IH [OF that] Cons.prems(2) by simp
  show ?case
  proof (cases call)
    case (LEpoch e)
    show ?thesis
    proof (cases "e = sl_epoch l")
      case True
      then show ?thesis using IH [OF Cons.prems(1)] LEpoch by (simp add: observe_epoch_def)
    next
      case False
      from ledger_split_reset [OF this, of P] IH [of "[]" "observe_epoch e l"]
      show ?thesis using LEpoch False by simp
    qed
  next
    case (LShipped q b)
    then show ?thesis
      using IH [OF ledger_split_shipped [OF Cons.prems(1), of q b]] by (simp add: ledger_step_epoch)
  next
    case (LAdvance c)
    then have "c \<le> P" using Cons.prems(2) by simp
    then show ?thesis
      using LAdvance IH [OF ledger_split_advance [OF Cons.prems(1)]] by (simp add: ledger_step_epoch)
  qed
qed simp

section \<open>Properties\<close>

text \<open>
  C10. No acknowledged frame is lost by recovery. Take any member \<open>m\<close> of the leader's ensemble and any
  sequence of calls on its fragment in which recovery seals it at an epoch at or above the
  fragment's. Whatever the leader acknowledged under write-all, from ends that \<open>m\<close> had really
  reached at any moment before or after the seal, is at or below the cut that \<open>certify\<close> draws from the
  answer of that one seal: appends after the seal are refused, so a fenced leader cannot
  acknowledge past the cut either.
\<close>

theorem certified_cut_covers_acks:
  assumes "m \<in> lv_ensemble view"
    and "ack_fleet_allowed view ends next"
    and "fl_fragment_epoch f \<le> epoch"
    and "bm_get ends m = Some confirmed"
    and "confirmed \<le> fl_end (run_steps follower_step f before)
         \<or> confirmed \<le> fl_end (run_steps follower_step f (before @ FSeal epoch # after))"
  shows "next \<le> certify tiered (fst (seal (run_steps follower_step f before) epoch))"
proof -
  let ?g = "run_steps follower_step f before"
  have fe: "fl_fragment_epoch ?g \<le> epoch" using follower_run_mono [of f before] assms(3) by simp
  have "fl_end (run_steps follower_step f (before @ FSeal epoch # after)) = fst (seal ?g epoch)"
    using seal_freezes [OF fe] by (simp add: run_steps_append)
  moreover have "fl_end ?g = fst (seal ?g epoch)" by (simp add: seal_def Let_def)
  ultimately have "confirmed \<le> fst (seal ?g epoch)" using assms(5) by auto
  moreover have "next \<le> confirmed"
    using ack_bounded_by_member [OF assms(2,1)] assms(4) by simp
  ultimately show ?thesis by (simp add: certify_def)
qed

theorem certified_cut_covers_acks_witness:
  "(2::nat) \<le> certify 0 (fst (seal (run_steps follower_step (join 1 0)
      [FAppend 1 1, FAppend 1 2, FAppend 1 3]) 1))"
  by (rule certified_cut_covers_acks
        [where m = "''a''" and view = "\<lparr>lv_epoch = 1, lv_ensemble = {''a''}\<rparr>"
           and ends = "[(''a'', 3)]" and confirmed = 3 and after = "[FAppend 1 4]"])
     (simp_all add: ack_fleet_allowed_def join_def accept_append_def)

text \<open>
  C11. The ship ledger's truncation watermark never passes an uncovered batch. Over any run of the ship
  loop from the empty ledger, the batches shipped in the current epoch are a prefix of batches that
  some \<open>advance\<close> found covered followed by exactly the outstanding ones in order, and
  \<open>covered_seq\<close> is the sequence of the last covered batch, or 0 when there is none, as it is
  right after every change of epoch.
\<close>

theorem ledger_truncates_covered_only:
  "ledger_split (\<lambda>b. \<exists>c. LAdvance c \<in> set calls \<and> c b)
     (shipped_since 0 [] calls) (run_steps ledger_step ship_ledger_default calls)"
proof -
  let ?P = "\<lambda>b. \<exists>c. LAdvance c \<in> set calls \<and> c b"
  have "ledger_split ?P [] ship_ledger_default"
    by (simp add: ledger_split_def ship_ledger_default_def)
  moreover have "\<forall>c. LAdvance c \<in> set calls \<longrightarrow> c \<le> ?P" by (intro allI impI le_funI le_boolI exI conjI)
  ultimately show ?thesis using ledger_split_run by (metis (no_types, lifting) ship_ledger.select_convs(1) ship_ledger_default_def)
qed

text \<open>
  One recoverer at a time. A claim that was taken over is dead for the old claimant: its heartbeat
  is refused on the record the new claimant wrote, and on every record that the new claimant's own
  heartbeats produce from it; a live claim is never taken over; and once the recovery is
  finished the record is sealed, the takeover gate opens, and no heartbeat, takeover or second
  finish applies.
\<close>

lemma recovery_claim_exclusive:
  assumes "take_over_recovery r b now stale = Some r'" and "a \<noteq> b"
  shows "\<not> recovery_claim_live r now stale \<and> refresh_recovery r' a t = None \<and>
    (\<exists>r2. refresh_recovery r' b t = Some r2 \<and> refresh_recovery r2 a t' = None \<and>
       (\<exists>r3. finish_recovery r2 cert = Some r3 \<and> lr_tiered r3 = cert \<and>
          takeover_gate (Some r3) = BucketComplete \<and>
          refresh_recovery r3 b t' = None \<and> take_over_recovery r3 a t' stale = None \<and>
          finish_recovery r3 cert' = None))"
proof -
  have r: "lr_state r = Recovering" "\<not> recovery_claim_live r now stale"
    and r': "r' = r\<lparr>lr_claimant := Some b, lr_claimed_ms := Some now\<rparr>"
    using assms(1) by (auto simp: take_over_recovery_def split: if_splits)
  then have "refresh_recovery r' b t = Some (r'\<lparr>lr_claimed_ms := Some t\<rparr>)"
    and "refresh_recovery r' a t = None" and "refresh_recovery (r'\<lparr>lr_claimed_ms := Some t\<rparr>) a t' = None"
    using assms(2) by (simp_all add: refresh_recovery_def recovery_claimed_by_def)
  then show ?thesis
    using r by (simp add: r' finish_recovery_def take_over_recovery_def refresh_recovery_def recovery_claimed_by_def)
qed

lemma recovery_claim_exclusive_witness:
  "\<exists>r r'. take_over_recovery r ''b'' 100 10 = Some r' \<and> refresh_recovery r' ''a'' 101 = None"
proof -
  define r where "r = \<lparr>lr_epoch = 1, lr_ensemble = {''x''}, lr_tiered = 0, lr_bucket_complete = False,
    lr_state = Recovering, lr_claimant = Some ''a'', lr_claimed_ms = Some 5\<rparr>"
  have "take_over_recovery r ''b'' 100 10
      = Some (r\<lparr>lr_claimant := Some ''b'', lr_claimed_ms := Some 100\<rparr>)"
    by (simp add: r_def take_over_recovery_def recovery_claim_live_def)
  moreover from recovery_claim_exclusive [OF this, of "''a''" 101]
  have "refresh_recovery (r\<lparr>lr_claimant := Some ''b'', lr_claimed_ms := Some 100\<rparr>) ''a'' 101 = None"
    by simp
  ultimately show ?thesis by blast
qed

end
