(* ===== verification/Pressure.thy ===== *)
theory Pressure
  imports Prelude
begin

text \<open>
  Memory pressure (\<open>pressure.rs\<close>): the watermarks, the two independent latches with their
  hysteresis, the measurements derived from a sample, and the outbound pin budget. The
  locale \<open>hysteresis\<close> is the contract of one latch; both ceilings of \<open>classify\<close> are
  interpretations of it.
\<close>

section \<open>Definitions\<close>

record pressure_config =
  high_bytes :: "nat option"
  rss_hard_bytes :: "nat option"

record latches =
  la_memory :: bool
  la_rss_hard :: bool

definition latches_default :: latches where
  "latches_default = \<lparr>la_memory = False, la_rss_hard = False\<rparr>"

datatype metric = InUse | Rss

record load =
  ld_resident_cells :: nat
  ld_rss_bytes :: nat
  ld_in_use_bytes :: nat
  ld_cgroup_working_set_bytes :: "nat option"
  ld_cgroup_current_bytes :: "nat option"
  ld_container_reserved_bytes :: nat

definition memory_bytes :: "load \<Rightarrow> nat" where
  "memory_bytes l =
     (let allocator_slack = ld_rss_bytes l - ld_in_use_bytes l;
          cgroup_in_use =
            (case ld_cgroup_working_set_bytes l of None \<Rightarrow> 0 | Some b \<Rightarrow> b) - allocator_slack
      in sat_add (max (ld_in_use_bytes l) cgroup_in_use) (ld_container_reserved_bytes l))"

definition hard_bytes :: "load \<Rightarrow> nat" where
  "hard_bytes l =
     sat_add (case ld_cgroup_current_bytes l of None \<Rightarrow> ld_rss_bytes l | Some b \<Rightarrow> b)
       (ld_container_reserved_bytes l)"

definition rollout_hard_bytes :: "load \<Rightarrow> nat" where
  "rollout_hard_bytes l =
     sat_add
       (case ld_cgroup_working_set_bytes l of
          None \<Rightarrow> (case ld_cgroup_current_bytes l of None \<Rightarrow> ld_rss_bytes l | Some b \<Rightarrow> b)
        | Some working_set \<Rightarrow> max working_set (ld_rss_bytes l))
       (ld_container_reserved_bytes l)"

fun metric_bytes :: "load \<Rightarrow> metric \<Rightarrow> nat" where
  "metric_bytes l InUse = memory_bytes l"
| "metric_bytes l Rss = hard_bytes l"

definition SHED_MEMORY :: string where
  "SHED_MEMORY = ''memory''"

definition SHED_RSS_HARD :: string where
  "SHED_RSS_HARD = ''rss-hard''"

definition usable :: "nat \<Rightarrow> nat option" where
  "usable bytes = (if 0 < bytes then Some bytes else None)"

definition from_limits :: "nat option \<Rightarrow> nat option \<Rightarrow> pressure_config" where
  "from_limits total_memory_bytes max_rss_mb =
     (let high =
            (case max_rss_mb of
               None \<Rightarrow> Option.bind total_memory_bytes (\<lambda>total. usable (total div 5 * 4))
             | Some megabytes \<Rightarrow>
                 if megabytes = 0 then None else usable (sat_mul megabytes (1024 * 1024)));
          hard =
            Option.bind high (\<lambda>high.
              let fallback = (if high * 5 \<le> u64_max then high * 5 div 4 else u64_max);
                  cap =
                    (case Option.bind total_memory_bytes (\<lambda>total. usable (total div 100 * 95)) of
                       None \<Rightarrow> fallback
                     | Some cap \<Rightarrow> cap)
              in usable cap)
      in \<lparr>high_bytes = high, rss_hard_bytes = hard\<rparr>)"

definition ceiling_above_cap :: "pressure_config \<Rightarrow> bool" where
  "ceiling_above_cap c =
     (case (high_bytes c, rss_hard_bytes c) of
        (Some high, Some cap) \<Rightarrow> cap \<le> high
      | _ \<Rightarrow> False)"

definition low_watermark :: "nat \<Rightarrow> nat" where
  "low_watermark ceiling = sat_mul ceiling 4 div 5"

definition over :: "nat option \<Rightarrow> nat \<Rightarrow> bool \<Rightarrow> bool" where
  "over ceiling sample latched =
     (case ceiling of
        None \<Rightarrow> False
      | Some c \<Rightarrow> c \<le> sample \<or> (latched \<and> low_watermark c < sample))"

definition classify :: "pressure_config \<Rightarrow> load \<Rightarrow> latches \<Rightarrow> latches \<times> string option" where
  "classify c s was =
     (let latches = \<lparr>la_memory = over (high_bytes c) (memory_bytes s) (la_memory was),
                     la_rss_hard = over (rss_hard_bytes c) (hard_bytes s) (la_rss_hard was)\<rparr>;
          reason =
            (if la_rss_hard latches then Some SHED_RSS_HARD
             else if la_memory latches then Some SHED_MEMORY
             else None)
      in (latches, reason))"

definition has_headroom :: "pressure_config \<Rightarrow> load \<Rightarrow> bool" where
  "has_headroom c sample =
     (let below = (\<lambda>ceiling bytes.
            case ceiling of None \<Rightarrow> True | Some ceiling \<Rightarrow> bytes \<le> low_watermark ceiling)
      in below (high_bytes c) (memory_bytes sample)
         \<and> below (rss_hard_bytes c) (rollout_hard_bytes sample))"

definition resume_line :: "pressure_config \<Rightarrow> metric \<Rightarrow> nat option" where
  "resume_line c m =
     map_option low_watermark (case m of InUse \<Rightarrow> high_bytes c | Rss \<Rightarrow> rss_hard_bytes c)"

definition walk_metric :: "latches \<Rightarrow> metric" where
  "walk_metric l = (if la_memory l then InUse else Rss)"

definition release_target :: "nat \<Rightarrow> nat" where
  "release_target resident_cells = resident_cells - max (resident_cells div 10) 1"

definition MAX_OUTBOUND_PIN_PERCENT :: nat where
  "MAX_OUTBOUND_PIN_PERCENT = 50"

definition may_pin_outbound :: "nat \<Rightarrow> nat option \<Rightarrow> bool" where
  "may_pin_outbound pinned_cells ceiling =
     (case ceiling of
        None \<Rightarrow> True
      | Some cap \<Rightarrow> pinned_cells < max (sat_mul cap MAX_OUTBOUND_PIN_PERCENT div 100) 1)"

section \<open>Lemmas\<close>

text \<open>
  One latch: a sample may engage it and a sample may release it; between the two it holds.
\<close>

locale hysteresis =
  fixes latch :: "bool \<Rightarrow> 'x \<Rightarrow> bool"
    and engages :: "'x \<Rightarrow> bool"
    and releases :: "'x \<Rightarrow> bool"
  assumes latch_eq: "latch l x \<longleftrightarrow> engages x \<or> (l \<and> \<not> releases x)"
begin

lemma latched_iff:
  "run_steps latch False xs \<longleftrightarrow>
   (\<exists>before x after. xs = before @ x # after \<and> engages x \<and> \<not> list_ex releases after)"
proof (induction xs rule: rev_induct)
  case (snoc y ys)
  show ?case
  proof
    assume "run_steps latch False (ys @ [y])"
    then have "engages y \<or> run_steps latch False ys \<and> \<not> releases y"
      by (simp add: run_steps_append latch_eq)
    then show "\<exists>before x after. ys @ [y] = before @ x # after \<and> engages x \<and> \<not> list_ex releases after"
    proof (elim disjE conjE)
      assume "engages y"
      then show ?thesis by (intro exI [of _ ys] exI [of _ y] exI [of _ "[]"]) simp
    next
      assume "run_steps latch False ys" and y: "\<not> releases y"
      then obtain b x a where "ys = b @ x # a" "engages x" "\<not> list_ex releases a"
        using snoc by blast
      then show ?thesis using y by (intro exI [of _ b] exI [of _ x] exI [of _ "a @ [y]"]) simp
    qed
  next
    assume "\<exists>before x after. ys @ [y] = before @ x # after \<and> engages x \<and> \<not> list_ex releases after"
    then obtain b x a where ys: "ys @ [y] = b @ x # a" and x: "engages x" and a: "\<not> list_ex releases a"
      by blast
    show "run_steps latch False (ys @ [y])"
    proof (cases a rule: rev_cases)
      case Nil
      then show ?thesis using ys x by (simp add: run_steps_append latch_eq)
    next
      case (snoc a' z)
      then have "ys = b @ x # a'" "z = y" using ys by auto
      then have "run_steps latch False ys" and "\<not> releases y" using x a snoc snoc.IH by auto
      then show ?thesis by (simp add: run_steps_append latch_eq)
    qed
  qed
qed simp

lemma run_latch: "run_steps latch l xs = (run_steps latch False xs \<or> (l \<and> \<not> list_ex releases xs))"
  by (induction xs rule: rev_induct) (auto simp: run_steps_append latch_eq)

end

definition crosses :: "nat option \<Rightarrow> nat \<Rightarrow> bool" where
  "crosses ceiling sample = (case ceiling of None \<Rightarrow> False | Some c \<Rightarrow> c \<le> sample)"

definition clears :: "nat option \<Rightarrow> nat \<Rightarrow> bool" where
  "clears ceiling sample = (case ceiling of None \<Rightarrow> True | Some c \<Rightarrow> sample \<le> low_watermark c)"

interpretation memory_latch:
  hysteresis "\<lambda>l s. over (high_bytes c) (memory_bytes s) l"
    "\<lambda>s. crosses (high_bytes c) (memory_bytes s)" "\<lambda>s. clears (high_bytes c) (memory_bytes s)" for c
  by unfold_locales (auto simp: over_def crosses_def clears_def split: option.splits)

interpretation hard_latch:
  hysteresis "\<lambda>l s. over (rss_hard_bytes c) (hard_bytes s) l"
    "\<lambda>s. crosses (rss_hard_bytes c) (hard_bytes s)" "\<lambda>s. clears (rss_hard_bytes c) (hard_bytes s)" for c
  by unfold_locales (auto simp: over_def crosses_def clears_def split: option.splits)

lemma classify_run:
  "run_steps (\<lambda>l s. fst (classify c s l)) l xs =
     \<lparr>la_memory = run_steps (\<lambda>l s. over (high_bytes c) (memory_bytes s) l) (la_memory l) xs,
      la_rss_hard = run_steps (\<lambda>l s. over (rss_hard_bytes c) (hard_bytes s) l) (la_rss_hard l) xs\<rparr>"
  by (induction xs arbitrary: l) (simp_all add: classify_def Let_def)

lemma low_watermark_less: "0 < c \<Longrightarrow> low_watermark c < c"
proof -
  assume "0 < c"
  moreover have "sat_mul c 4 \<le> c * 4" by (simp add: sat_mul_def)
  ultimately show ?thesis unfolding low_watermark_def by linarith
qed

lemma headroom_clears: "has_headroom c s \<Longrightarrow> clears (high_bytes c) (memory_bytes s)"
  by (auto simp: has_headroom_def clears_def Let_def split: option.splits)

section \<open>Properties\<close>

text \<open>
  C12. The pressure latches have exact hysteresis and do not share state. After any sequence of samples from
  an unlatched node, the memory latch is set exactly when some sample reached the ordinary ceiling and no
  later sample came down to its low watermark, and the hard latch exactly when some sample's
  complete charge reached the cap and no later one came down to the cap's own low watermark: one
  crossing never holds the node against the other's watermark.
\<close>

theorem pressure_hysteresis:
  "(let l = run_steps (\<lambda>l s. fst (classify c s l)) latches_default samples in
     (la_memory l \<longleftrightarrow>
        (\<exists>before x after. samples = before @ x # after \<and> crosses (high_bytes c) (memory_bytes x)
           \<and> \<not> list_ex (\<lambda>s. clears (high_bytes c) (memory_bytes s)) after))
     \<and> (la_rss_hard l \<longleftrightarrow>
        (\<exists>before x after. samples = before @ x # after \<and> crosses (rss_hard_bytes c) (hard_bytes x)
           \<and> \<not> list_ex (\<lambda>s. clears (rss_hard_bytes c) (hard_bytes s)) after)))"
  unfolding classify_run latches_default_def Let_def latches.simps
    memory_latch.latched_iff hard_latch.latched_iff by blast

text \<open>
  The watermarks built from the machine and the operator's setting are never zero, whatever the inputs: a zero
  watermark would latch the node for its lifetime. With the default setting on a machine of at least 634
  bytes the ordinary ceiling is strictly below the absolute cap, which is itself below the
  machine's memory, so both watermarks exist and the cap can fire.
\<close>

lemma from_limits_sound:
  assumes "634 \<le> memory"
  shows "high_bytes (from_limits t m) \<noteq> Some 0 \<and> rss_hard_bytes (from_limits t m) \<noteq> Some 0 \<and>
    (\<exists>high cap. from_limits (Some memory) None = \<lparr>high_bytes = Some high, rss_hard_bytes = Some cap\<rparr>
       \<and> high < cap \<and> cap < memory \<and> \<not> ceiling_above_cap (from_limits (Some memory) None))"
proof -
  have "high_bytes (from_limits t m) \<noteq> Some 0" "rss_hard_bytes (from_limits t m) \<noteq> Some 0"
    by (auto simp: from_limits_def usable_def Let_def split: option.splits if_splits
        dest!: bind_eq_Some_conv [THEN iffD1])
  moreover have "0 < memory div 5 * 4" "0 < memory div 100 * 95"
    "memory div 5 * 4 < memory div 100 * 95" "memory div 100 * 95 < memory"
    using assms by linarith+
  ultimately show ?thesis
    by (simp add: from_limits_def usable_def Let_def ceiling_above_cap_def)
qed

lemma from_limits_sound_witness:
  "high_bytes (from_limits (Some 1000) None) \<noteq> Some 0"
  using from_limits_sound [of 1000 "Some 1000" None] by simp

end
