(* ===== verification/Wake.thy ===== *)
theory Wake
  imports Serving
begin

text \<open>
  Alarm publications and the retirement frontier (\<open>wake.rs\<close>): publication identities and their
  text form, the civil-date minute buckets, the keys of wake entries, the bounded cache of
  confirmed publications, and the waker's predicates.

  An identity's components are \<open>u64\<close> (numbers up to \<open>u64_max\<close>); dates are computed on \<open>int\<close>,
  with Rust's truncating division written as \<open>tdiv\<close>. Rust strings are byte strings. A Rust panic
  (\<open>unwrap\<close> in \<open>take_retired\<close>) is the value \<open>None\<close>.
\<close>

section \<open>Definitions\<close>

subsection \<open>Publication identities\<close>

datatype publication_id = PublicationId (pid_epoch: nat) (pid_sequence: nat)

instantiation publication_id :: linorder
begin

definition less_eq_publication_id :: "publication_id \<Rightarrow> publication_id \<Rightarrow> bool" where
  "less_eq_publication_id a b =
     (pid_epoch a < pid_epoch b \<or> (pid_epoch a = pid_epoch b \<and> pid_sequence a \<le> pid_sequence b))"

definition less_publication_id :: "publication_id \<Rightarrow> publication_id \<Rightarrow> bool" where
  "less_publication_id a b =
     (pid_epoch a < pid_epoch b \<or> (pid_epoch a = pid_epoch b \<and> pid_sequence a < pid_sequence b))"

instance
proof
  fix a b :: publication_id
  show "a \<le> b \<Longrightarrow> b \<le> a \<Longrightarrow> a = b"
    by (cases a; cases b) (auto simp: less_eq_publication_id_def)
qed (auto simp: less_eq_publication_id_def less_publication_id_def)

end

definition hex_char :: "nat \<Rightarrow> char" where
  "hex_char d = (if d < 10 then char_of (48 + d) else char_of (87 + d))"

primrec hex_pad :: "nat \<Rightarrow> nat \<Rightarrow> string" where
  "hex_pad 0 n = []"
| "hex_pad (Suc k) n = hex_pad k (n div 16) @ [hex_char (n mod 16)]"

definition publication_id_to_string :: "publication_id \<Rightarrow> string" where
  "publication_id_to_string i =
     hex_pad 16 (pid_epoch i) @ ''-'' @ hex_pad 16 (pid_sequence i)"

definition split_once :: "char \<Rightarrow> string \<Rightarrow> (string \<times> string) option" where
  "split_once c s =
     (if c \<in> set s
      then Some (takeWhile (\<lambda>x. x \<noteq> c) s, tl (dropWhile (\<lambda>x. x \<noteq> c) s))
      else None)"

definition hex_digit :: "char \<Rightarrow> nat option" where
  "hex_digit c =
     (let n = (of_char c :: nat) in
      if 48 \<le> n \<and> n \<le> 57 then Some (n - 48)
      else if 97 \<le> n \<and> n \<le> 102 then Some (n - 87)
      else if 65 \<le> n \<and> n \<le> 70 then Some (n - 55)
      else None)"

fun hex_value :: "nat \<Rightarrow> string \<Rightarrow> nat option" where
  "hex_value acc [] = Some acc"
| "hex_value acc (c # cs) =
     (case hex_digit c of
        None \<Rightarrow> None
      | Some d \<Rightarrow> if acc * 16 + d \<le> u64_max then hex_value (acc * 16 + d) cs else None)"

definition from_str_radix_16 :: "string \<Rightarrow> nat option" where
  "from_str_radix_16 s =
     (case s of
        [] \<Rightarrow> None
      | c # cs \<Rightarrow>
          if c = CHR ''+'' then (if cs = [] then None else hex_value 0 cs) else hex_value 0 s)"

definition publication_id_parse :: "string \<Rightarrow> publication_id option" where
  "publication_id_parse value =
     (case split_once CHR ''-'' value of
        None \<Rightarrow> None
      | Some (epoch, sequence) \<Rightarrow>
          if length epoch \<noteq> 16 \<or> length sequence \<noteq> 16 then None
          else
            (case from_str_radix_16 epoch of
               None \<Rightarrow> None
             | Some e \<Rightarrow>
                 (case from_str_radix_16 sequence of
                    None \<Rightarrow> None
                  | Some q \<Rightarrow>
                      let i = PublicationId e q in
                      if 0 < e \<and> publication_id_to_string i = value then Some i else None)))"

subsection \<open>Alarm snapshots and retirements\<close>

record alarm_source =
  as_id :: publication_id
  as_position :: nat

record alarm_snapshot =
  sn_at_ms :: "ms option"
  sn_source :: "alarm_source option"

definition without_wake :: "ms option \<Rightarrow> alarm_snapshot" where
  "without_wake at_ms = \<lparr>sn_at_ms = at_ms, sn_source = None\<rparr>"

definition committed :: "ms option \<Rightarrow> alarm_source \<Rightarrow> alarm_snapshot" where
  "committed at_ms source = \<lparr>sn_at_ms = at_ms, sn_source = Some source\<rparr>"

definition same_installation :: "alarm_snapshot \<Rightarrow> alarm_snapshot \<Rightarrow> bool" where
  "same_installation a b =
     (sn_at_ms a = sn_at_ms b \<and> map_option as_id (sn_source a) = map_option as_id (sn_source b))"

record retirement =
  rt_id :: publication_id
  rt_at_ms :: "ms option"

definition retires :: "retirement \<Rightarrow> publication_id \<Rightarrow> bool" where
  "retires r candidate = (candidate < rt_id r \<or> (candidate = rt_id r \<and> rt_at_ms r = None))"

subsection \<open>Civil dates and minute buckets\<close>

definition tdiv :: "int \<Rightarrow> int \<Rightarrow> int" where
  "tdiv a b = (if 0 \<le> a then a div b else - ((- a) div b))"

definition civil_from_days :: "int \<Rightarrow> int \<times> int \<times> int" where
  "civil_from_days z =
     (let z = z + 719468;
          era = tdiv (if 0 \<le> z then z else z - 146096) 146097;
          doe = z - era * 146097;
          yoe = tdiv (doe - tdiv doe 1460 + tdiv doe 36524 - tdiv doe 146096) 365;
          doy = doe - (365 * yoe + tdiv yoe 4 - tdiv yoe 100);
          mp = tdiv (5 * doy + 2) 153;
          d = doy - tdiv (153 * mp + 2) 5 + 1;
          m = (if mp < 10 then mp + 3 else mp - 9)
      in (yoe + era * 400 + (if m \<le> 2 then 1 else 0), m, d))"

definition days_from_civil :: "int \<Rightarrow> int \<Rightarrow> int \<Rightarrow> int" where
  "days_from_civil y m d =
     (let y = y - (if m \<le> 2 then 1 else 0);
          era = tdiv (if 0 \<le> y then y else y - 399) 400;
          yoe = y - era * 400;
          mp = (if 2 < m then m - 3 else m + 9);
          doy = tdiv (153 * mp + 2) 5 + d - 1
      in era * 146097 + yoe * 365 + tdiv yoe 4 - tdiv yoe 100 + doy - 719468)"

fun dec_digits :: "nat \<Rightarrow> string" where
  "dec_digits n =
     (if n < 10 then [char_of (48 + n)] else dec_digits (n div 10) @ [char_of (48 + n mod 10)])"

text \<open>Rust's \<open>{n:0w}\<close>: zeros between the sign and the digits, up to width \<open>w\<close>.\<close>

definition dec_pad :: "nat \<Rightarrow> int \<Rightarrow> string" where
  "dec_pad w n =
     (let ds = dec_digits (nat \<bar>n\<bar>); sign = (if n < 0 then ''-'' else '''') in
      sign @ replicate (w - length sign - length ds) CHR ''0'' @ ds)"

definition minute_bucket :: "int \<Rightarrow> string" where
  "minute_bucket due_ms =
     (let mins = due_ms div 60000;
          (y, mo, d) = civil_from_days (mins div 1440);
          m = mins mod 1440
      in dec_pad 4 y @ ''-'' @ dec_pad 2 mo @ ''-'' @ dec_pad 2 d @ ''T''
         @ dec_pad 2 (m div 60) @ '':'' @ dec_pad 2 (m mod 60))"

fun dec_value :: "int \<Rightarrow> string \<Rightarrow> int option" where
  "dec_value acc [] = Some acc"
| "dec_value acc (c # cs) =
     (let n = (of_char c :: nat) in
      if 48 \<le> n \<and> n \<le> 57 then dec_value (acc * 10 + int (n - 48)) cs else None)"

text \<open>\<open>str::parse\<close> for a signed and for an unsigned integer, on the short slices used here.\<close>

definition parse_i64 :: "string \<Rightarrow> int option" where
  "parse_i64 s =
     (case s of
        [] \<Rightarrow> None
      | c # cs \<Rightarrow>
          if c = CHR ''+'' then (if cs = [] then None else dec_value 0 cs)
          else if c = CHR ''-'' then (if cs = [] then None else map_option uminus (dec_value 0 cs))
          else dec_value 0 s)"

definition parse_u32 :: "string \<Rightarrow> int option" where
  "parse_u32 s =
     (case s of
        [] \<Rightarrow> None
      | c # cs \<Rightarrow>
          if c = CHR ''+'' then (if cs = [] then None else dec_value 0 cs) else dec_value 0 s)"

definition slice :: "nat \<Rightarrow> nat \<Rightarrow> 'a list \<Rightarrow> 'a list" where
  "slice a b s = take (b - a) (drop a s)"

definition parse_minute :: "string \<Rightarrow> int option" where
  "parse_minute minute =
     (if length minute \<noteq> 16 then None
      else
        (case (parse_i64 (slice 0 4 minute), parse_u32 (slice 5 7 minute),
               parse_u32 (slice 8 10 minute), parse_i64 (slice 11 13 minute),
               parse_i64 (slice 14 16 minute)) of
           (Some y, Some mo, Some d, Some h, Some mi) \<Rightarrow>
             if slice 4 5 minute \<noteq> ''-'' \<or> slice 7 8 minute \<noteq> ''-''
                \<or> slice 10 11 minute \<noteq> ''T'' \<or> slice 13 14 minute \<noteq> '':''
                \<or> \<not> (1 \<le> mo \<and> mo \<le> 12) \<or> \<not> (1 \<le> d \<and> d \<le> 31)
                \<or> \<not> (0 \<le> h \<and> h < 24) \<or> \<not> (0 \<le> mi \<and> mi < 60)
             then None
             else
               let ms = (days_from_civil y mo d * 1440 + h * 60 + mi) * 60000 in
               if minute_bucket ms = minute then Some ms else None
         | _ \<Rightarrow> None))"

subsection \<open>Keys of wake entries\<close>

definition ENTRY_PREFIX :: string where
  "ENTRY_PREFIX = ''wake/entries/''"

definition entry_key :: "int \<Rightarrow> cell_id \<Rightarrow> publication_id \<Rightarrow> string" where
  "entry_key due_ms cell i =
     ENTRY_PREFIX @ minute_bucket due_ms @ ''/'' @ cell @ ''/'' @ publication_id_to_string i"

definition migration_seed_key :: "cell_id \<Rightarrow> string" where
  "migration_seed_key cell = ENTRY_PREFIX @ ''1970-01-01T00:00/'' @ cell @ ''/migration''"

record listed_entry =
  le_minute_ms :: int
  le_cell :: cell_id
  le_id :: publication_id

definition strip_prefix :: "string \<Rightarrow> string \<Rightarrow> string option" where
  "strip_prefix p s = (if take (length p) s = p then Some (drop (length p) s) else None)"

fun split_on :: "char \<Rightarrow> string \<Rightarrow> string list" where
  "split_on c [] = [[]]"
| "split_on c (x # xs) =
     (if x = c then [] # split_on c xs
      else (case split_on c xs of [] \<Rightarrow> [[x]] | w # ws \<Rightarrow> (x # w) # ws))"

definition parse_entry_key :: "string \<Rightarrow> listed_entry option" where
  "parse_entry_key key =
     (case strip_prefix ENTRY_PREFIX key of
        None \<Rightarrow> None
      | Some rest \<Rightarrow>
          (case split_on CHR ''/'' rest of
             minute # cell # identity # others \<Rightarrow>
               (case (if identity = ''migration'' \<and> minute = ''1970-01-01T00:00''
                      then Some (PublicationId 0 0)
                      else publication_id_parse identity) of
                  None \<Rightarrow> None
                | Some i \<Rightarrow>
                    if others \<noteq> [] \<or> \<not> valid_cell_scope cell then None
                    else
                      (case parse_minute minute of
                         None \<Rightarrow> None
                       | Some minute_ms \<Rightarrow>
                           Some \<lparr>le_minute_ms = minute_ms, le_cell = cell, le_id = i\<rparr>))
           | _ \<Rightarrow> None))"

definition trim_end_slash :: "string \<Rightarrow> string" where
  "trim_end_slash s = rev (dropWhile (\<lambda>c. c = CHR ''/'') (rev s))"

definition parse_minute_prefix :: "string \<Rightarrow> int option" where
  "parse_minute_prefix prefix =
     (case strip_prefix ENTRY_PREFIX prefix of
        None \<Rightarrow> None
      | Some rest \<Rightarrow> parse_minute (trim_end_slash rest))"

subsection \<open>The cache of confirmed publications\<close>

record publication =
  pb_key :: string
  pb_alarm :: alarm_snapshot

record wake_core =
  wc_confirmed :: "(cell_id, (publication_id, alarm_snapshot) bmap) bmap"

definition wake_core_new :: wake_core where
  "wake_core_new = \<lparr>wc_confirmed = []\<rparr>"

definition wake_covered :: "wake_core \<Rightarrow> cell_id \<Rightarrow> alarm_snapshot \<Rightarrow> bool" where
  "wake_covered w cell alarm =
     (sn_at_ms alarm \<noteq> None \<and> sn_source alarm \<noteq> None \<and>
      (case bm_get (wc_confirmed w) cell of
         None \<Rightarrow> False
       | Some recent \<Rightarrow> recent \<noteq> [] \<and> same_installation (snd (last recent)) alarm))"

definition publication_of :: "wake_core \<Rightarrow> cell_id \<Rightarrow> alarm_snapshot \<Rightarrow> publication option" where
  "publication_of w cell alarm =
     (case sn_at_ms alarm of
        None \<Rightarrow> None
      | Some due_ms \<Rightarrow>
          (case sn_source alarm of
             None \<Rightarrow> None
           | Some source \<Rightarrow>
               if due_ms < 0 \<or> pid_epoch (as_id source) = 0 \<or> wake_covered w cell alarm then None
               else Some \<lparr>pb_key = entry_key due_ms cell (as_id source), pb_alarm = alarm\<rparr>))"

definition RECENT_PUBLICATIONS :: nat where
  "RECENT_PUBLICATIONS = 32"

fun pop_to_recent :: "'a list \<Rightarrow> 'a list" where
  "pop_to_recent [] = []"
| "pop_to_recent (x # xs) =
     (if RECENT_PUBLICATIONS < length (x # xs) then pop_to_recent xs else x # xs)"

definition wake_confirm :: "wake_core \<Rightarrow> cell_id \<Rightarrow> alarm_snapshot \<Rightarrow> wake_core" where
  "wake_confirm w cell alarm =
     (case sn_source alarm of
        None \<Rightarrow> w
      | Some source \<Rightarrow>
          if sn_at_ms alarm \<noteq> None then
            let recent = (case bm_get (wc_confirmed w) cell of None \<Rightarrow> [] | Some r \<Rightarrow> r);
                recent = pop_to_recent (bm_insert (as_id source) alarm recent)
            in w\<lparr>wc_confirmed := bm_insert cell recent (wc_confirmed w)\<rparr>
          else w)"

fun retired_keys ::
  "cell_id \<Rightarrow> retirement \<Rightarrow> (publication_id, alarm_snapshot) bmap \<Rightarrow> string list option" where
  "retired_keys cell r [] = Some []"
| "retired_keys cell r ((i, alarm) # rest) =
     (if retires r i then
        (case sn_at_ms alarm of
           None \<Rightarrow> None
         | Some at_ms \<Rightarrow> map_option ((#) (entry_key at_ms cell i)) (retired_keys cell r rest))
      else retired_keys cell r rest)"

definition take_retired ::
  "wake_core \<Rightarrow> cell_id \<Rightarrow> retirement \<Rightarrow> (string list \<times> wake_core) option" where
  "take_retired w cell r =
     (case bm_get (wc_confirmed w) cell of
        None \<Rightarrow> Some ([], w)
      | Some recent \<Rightarrow>
          map_option
            (\<lambda>keys. (keys, w\<lparr>wc_confirmed :=
               bm_insert cell (filter (\<lambda>(i, _). \<not> retires r i) recent) (wc_confirmed w)\<rparr>))
            (retired_keys cell r recent))"

definition wake_forget :: "wake_core \<Rightarrow> cell_id \<Rightarrow> wake_core" where
  "wake_forget w cell = w\<lparr>wc_confirmed := bm_remove cell (wc_confirmed w)\<rparr>"

subsection \<open>The waker\<close>

definition waker_may_claim :: "bool \<Rightarrow> ms \<Rightarrow> ms \<Rightarrow> bool" where
  "waker_may_claim held_by_us expires_ms now_ms = (held_by_us \<or> expires_ms \<le> now_ms)"

definition elected_hint_needed :: "node_id option \<Rightarrow> node_id \<Rightarrow> bool \<Rightarrow> bool" where
  "elected_hint_needed owner node owner_live =
     (case owner of
        None \<Rightarrow> True
      | Some owner \<Rightarrow> if owner = node then True else \<not> owner_live)"

end
