(* ===== verification/WakeLaws.thy ===== *)
theory WakeLaws
  imports Wake
begin

text \<open>
  Laws of alarm publications (\<open>wake.rs\<close>): the text form of an identity, the minute buckets and the entry
  keys parse back to what they were printed from; the cache of confirmed publications stays bounded,
  keeps the newest identities, and never panics when it drains what a certificate retires.
\<close>

section \<open>Definitions\<close>

definition identity_ok :: "publication_id \<Rightarrow> bool" where
  "identity_ok i = (0 < pid_epoch i \<and> pid_epoch i \<le> u64_max \<and> pid_sequence i \<le> u64_max)"

definition year_start :: "nat \<Rightarrow> int" where
  "year_start y = 365 * int y + int y div 4 - int y div 100 + int y div 400"

definition era_days :: "int \<Rightarrow> int" where
  "era_days doe = doe - doe div 1460 + doe div 36524 - doe div 146096"

definition digit :: "nat \<Rightarrow> char" where
  "digit k = char_of (48 + k)"

text \<open>The first instant of the year 10000, which no longer has a year of four digits.\<close>

definition bucket_end :: int where
  "bucket_end = 253402300800000"

definition recent_of :: "wake_core \<Rightarrow> cell_id \<Rightarrow> (publication_id, alarm_snapshot) bmap" where
  "recent_of w cell = (case bm_get (wc_confirmed w) cell of None \<Rightarrow> [] | Some recent \<Rightarrow> recent)"

definition recent_ok :: "(publication_id, alarm_snapshot) bmap \<Rightarrow> bool" where
  "recent_ok recent =
     (bm_ok recent \<and> length recent \<le> RECENT_PUBLICATIONS
      \<and> list_all (\<lambda>(i, a). sn_at_ms a \<noteq> None \<and> map_option as_id (sn_source a) = Some i) recent)"

inductive wake_reachable :: "wake_core \<Rightarrow> bool" where
  fresh: "wake_reachable wake_core_new"
| confirmed: "wake_reachable w \<Longrightarrow> wake_reachable (wake_confirm w cell alarm)"
| retired: "wake_reachable w \<Longrightarrow> take_retired w cell r = Some (keys, w') \<Longrightarrow> wake_reachable w'"
| forgotten: "wake_reachable w \<Longrightarrow> wake_reachable (wake_forget w cell)"

definition alarm_of :: "nat \<Rightarrow> alarm_snapshot" where
  "alarm_of n = committed (Some 60000) \<lparr>as_id = PublicationId 1 n, as_position = n\<rparr>"

definition two_confirmed :: wake_core where
  "two_confirmed = wake_confirm (wake_confirm wake_core_new ''room'' (alarm_of 1)) ''room'' (alarm_of 2)"

section \<open>Hexadecimal identities\<close>

lemma length_hex_pad [simp]: "length (hex_pad k n) = k"
  by (induction k arbitrary: n) simp_all

lemma hex_digit_char: "d < 16 \<Longrightarrow> hex_digit (hex_char d) = Some d"
  by (auto simp: hex_digit_def hex_char_def of_char_of Let_def)

lemma of_hex_char: "d < 16 \<Longrightarrow> of_char (hex_char d) = (if d < 10 then 48 + d else 87 + d)"
  by (simp add: hex_char_def of_char_of)

lemma hex_char_plain:
  assumes "d < 16"
  shows "hex_char d \<noteq> CHR ''+'' \<and> hex_char d \<noteq> CHR ''-'' \<and> hex_char d \<noteq> CHR ''/''"
proof -
  have "hex_char d \<noteq> c" if "of_char c < (48 :: nat)" for c
    using that of_hex_char [OF assms] by (auto split: if_splits)
  then show ?thesis by simp
qed

lemma hex_pad_plain:
  "c \<in> set (hex_pad k n) \<Longrightarrow> c \<noteq> CHR ''+'' \<and> c \<noteq> CHR ''-'' \<and> c \<noteq> CHR ''/''"
proof (induction k arbitrary: n)
  case (Suc k)
  then consider "c \<in> set (hex_pad k (n div 16))" | "c = hex_char (n mod 16)" by auto
  then show ?case using Suc.IH hex_char_plain [of "n mod 16"] by cases simp_all
qed simp

lemma hex_value_append:
  "hex_value acc (xs @ ys) = (case hex_value acc xs of None \<Rightarrow> None | Some a \<Rightarrow> hex_value a ys)"
  by (induction acc xs rule: hex_value.induct) (auto split: option.split)

lemma hex_value_pad: "n < 16 ^ k \<Longrightarrow> n \<le> u64_max \<Longrightarrow> hex_value 0 (hex_pad k n) = Some n"
proof (induction k arbitrary: n)
  case (Suc k)
  have "n div 16 < 16 ^ k" using Suc.prems by (simp add: less_mult_imp_div_less mult.commute)
  then have "hex_value 0 (hex_pad k (n div 16)) = Some (n div 16)" using Suc by simp
  moreover have "n div 16 * 16 + n mod 16 = n" by simp
  ultimately show ?case using Suc.prems by (simp add: hex_value_append hex_digit_char)
qed simp

lemma hex_value_bound: "hex_value acc s = Some n \<Longrightarrow> acc \<le> u64_max \<Longrightarrow> n \<le> u64_max"
  by (induction acc s rule: hex_value.induct) (auto split: option.splits if_splits)

lemma from_str_radix_16_bound: "from_str_radix_16 s = Some n \<Longrightarrow> n \<le> u64_max"
  by (auto simp: from_str_radix_16_def simp del: hex_value.simps split: list.splits if_splits
      dest: hex_value_bound)

lemma from_str_radix_16_pad:
  assumes "n \<le> u64_max"
  shows "from_str_radix_16 (hex_pad 16 n) = Some n"
proof -
  obtain c cs where cs: "hex_pad 16 n = c # cs"
    by (cases "hex_pad 16 n") (use length_hex_pad [of 16 n] in auto)
  then have "c \<noteq> CHR ''+''" using hex_pad_plain [of c 16 n] by simp
  moreover have "n < 16 ^ 16" using assms by (simp add: u64_max_def)
  ultimately show ?thesis
    using hex_value_pad [of n 16] assms cs by (simp add: from_str_radix_16_def)
qed

lemma split_once_append:
  "c \<notin> set xs \<Longrightarrow> split_once c (xs @ c # ys) = Some (xs, ys)"
  by (induction xs) (auto simp: split_once_def)

interpretation identity: codec publication_id_to_string publication_id_parse identity_ok
proof unfold_locales
  fix i
  assume i: "identity_ok i"
  have "CHR ''-'' \<notin> set (hex_pad 16 (pid_epoch i))" using hex_pad_plain by blast
  then show "publication_id_parse (publication_id_to_string i) = Some i"
    using i
    by (simp add: publication_id_parse_def publication_id_to_string_def split_once_append
        from_str_radix_16_pad identity_ok_def Let_def)
next
  fix y i
  assume "publication_id_parse y = Some i"
  then show "identity_ok i \<and> publication_id_to_string i = y"
    by (auto simp: publication_id_parse_def identity_ok_def Let_def
        split: option.splits prod.splits if_splits dest: from_str_radix_16_bound)
qed

section \<open>Civil dates\<close>

lemma tdiv_nonneg [simp]: "0 \<le> a \<Longrightarrow> tdiv a b = a div b"
  by (simp add: tdiv_def)

text \<open>
  Within an era of 400 years the day number determines the year and the day of the year. \<open>year_start\<close> is the
  first day of a year, and \<open>era_days\<close> the quotient that \<open>civil_from_days\<close> divides by 365: it is monotone, and
  the first and the last day of each of the 400 years bound it.
\<close>

lemma quotient_steps:
  fixes a :: int
  assumes "0 < k"
  shows "a div k \<le> (a + 1) div k" and "(a + 1) div k \<le> a div k + 1"
proof -
  show "a div k \<le> (a + 1) div k" by (rule zdiv_mono1) (use assms in simp_all)
  have "(a + 1) div k \<le> (a + k) div k" by (rule zdiv_mono1) (use assms in simp_all)
  also have "(a + k) div k = a div k + 1" using div_add_self2 [of k a] assms by simp
  finally show "(a + 1) div k \<le> a div k + 1" .
qed

lemma era_days_step:
  assumes "0 \<le> doe" "doe < 146096"
  shows "era_days doe \<le> era_days (doe + 1)"
proof (cases "doe = 146095")
  case True
  then show ?thesis by (simp add: era_days_def)
next
  case False
  have c: "doe div 146096 = 0" by (rule div_pos_pos_trivial) (use assms in simp_all)
  have c': "(doe + 1) div 146096 = 0" by (rule div_pos_pos_trivial) (use assms False in simp_all)
  have *: "doe - q + b - c \<le> doe + 1 - q' + b' - c'"
    if "c = 0" "c' = 0" "q' \<le> q + 1" "b \<le> b'" for q q' b b' c c' :: int
    using that by linarith
  show ?thesis
    unfolding era_days_def by (rule * [OF c c' quotient_steps(2) quotient_steps(1)]) simp_all
qed

lemma era_days_mono:
  assumes "0 \<le> a" "a + int n \<le> 146096"
  shows "era_days a \<le> era_days (a + int n)"
  using assms
proof (induction n)
  case (Suc n)
  have "era_days (a + int n) \<le> era_days (a + int n + 1)"
    using Suc.prems by (intro era_days_step) simp_all
  moreover have "era_days a \<le> era_days (a + int n)" using Suc by simp
  ultimately show ?case by (simp add: algebra_simps)
qed simp

lemma era_days_le: "0 \<le> a \<Longrightarrow> a \<le> b \<Longrightarrow> b \<le> 146096 \<Longrightarrow> era_days a \<le> era_days b"
  using era_days_mono [of a "nat (b - a)"] by simp

lemma year_parts:
  fixes y :: nat
  obtains c q r where "y = 100 * c + 4 * q + r" "q < 25" "r < 4" "y div 4 = 25 * c + q" "y div 100 = c"
proof
  have y: "y = 4 * (y div 4) + y mod 4" by simp
  show z: "y div 4 = 25 * (y div 4 div 25) + y div 4 mod 25" by simp
  have "4 * z = 100 * c + 4 * q" if "z = 25 * c + q" for z c q :: nat using that by simp
  from this [OF z] show "y = 100 * (y div 4 div 25) + 4 * (y div 4 mod 25) + y mod 4"
    using y by simp
  show "y div 100 = y div 4 div 25" using div_mult2_eq [of y 4 25] by simp
qed simp_all

lemma year_start_quotients:
  assumes "y < 400"
  shows "year_start y div 1460 = int y div 4" "year_start y div 36524 = int y div 100"
    "year_start y div 146096 = 0" "0 < y \<Longrightarrow> 0 < year_start y mod 1460" "0 \<le> year_start y"
    "year_start y = 365 * int y + int y div 4 - int y div 100" "year_start y \<le> 146096"
proof -
  obtain c q r where y: "y = 100 * c + 4 * q + r" "q < 25" "r < 4" "y div 4 = 25 * c + q" "y div 100 = c"
    by (rule year_parts)
  have c: "c < 4" using y assms by simp
  have i: "int y div 4 = 25 * int c + int q" "int y div 100 = int c" "int y div 400 = 0"
    using arg_cong [OF y(4), of int] arg_cong [OF y(5), of int] assms by (simp_all add: zdiv_int)
  then show *: "year_start y = 365 * int y + int y div 4 - int y div 100" by (simp add: year_start_def)
  have s: "year_start y = 36524 * int c + 1461 * int q + 365 * int r" unfolding * i using y(1) by simp
  have "year_start y div 1460 = 25 * int c + int q"
    by (rule int_div_pos_eq [of _ _ _ "24 * int c + int q + 365 * int r"]) (use s y(2,3) c in simp_all)
  then show "year_start y div 1460 = int y div 4" using i by simp
  have "year_start y mod 1460 = 24 * int c + int q + 365 * int r"
    by (rule int_mod_pos_eq [of _ _ "25 * int c + int q"]) (use s y(2,3) c in simp_all)
  then show "0 < year_start y mod 1460" if "0 < y" using that y(1) by auto
  have "year_start y div 36524 = int c"
    by (rule int_div_pos_eq [of _ _ _ "1461 * int q + 365 * int r"]) (use s y(2,3) c in simp_all)
  then show "year_start y div 36524 = int y div 100" using i by simp
  show "0 \<le> year_start y" "year_start y \<le> 146096" using s y(2,3) c by simp_all
  show "year_start y div 146096 = 0" by (rule div_pos_pos_trivial) (use s y(2,3) c in simp_all)
qed

lemma era_days_year_start:
  assumes "y < 400"
  shows "era_days (year_start y) = 365 * int y"
proof -
  note q = year_start_quotients [OF assms]
  have "s - a + b - 0 = t" if "s = t + a - b" for s t a b :: int using that by linarith
  from this [OF q(6)] show ?thesis unfolding era_days_def q(1-3) .
qed

lemma quotient_pred:
  fixes a :: int
  assumes "0 < a mod k" "0 < k"
  shows "(a - 1) div k = a div k"
proof (rule int_div_pos_eq [of _ _ _ "a mod k - 1"])
  show "a - 1 = k * (a div k) + (a mod k - 1)" by (simp add: minus_mod_eq_mult_div [symmetric])
  have "a mod k < k" by (rule pos_mod_bound) (fact assms(2))
  then show "0 \<le> a mod k - 1" "a mod k - 1 < k" using assms by linarith+
qed

lemma era_days_before_year:
  assumes "0 < y" "y < 400"
  shows "era_days (year_start y - 1) < 365 * int y"
proof -
  note q = year_start_quotients [OF assms(2)]
  have "0 < year_start y" using q(4) [OF assms(1)] q(5) by (cases "year_start y = 0") simp_all
  then have c: "0 \<le> (year_start y - 1) div 146096" by (simp add: pos_imp_zdiv_nonneg_iff)
  have b: "(year_start y - 1) div 36524 \<le> year_start y div 36524" by (rule zdiv_mono1) simp_all
  have a: "(year_start y - 1) div 1460 = year_start y div 1460" by (rule quotient_pred) (use q(4) assms in simp_all)
  have *: "s - 1 - x + z - w < t" if "s - x + z' = t" "z \<le> z'" "0 \<le> w" for s x z z' w t :: int
    using that by linarith
  have "year_start y - year_start y div 1460 + year_start y div 36524 = 365 * int y"
    using era_days_year_start [OF assms(2)] unfolding era_days_def q(3) by simp
  from * [OF this b c] show ?thesis unfolding era_days_def a .
qed

lemma year_length: "y < 399 \<Longrightarrow> year_start (Suc y) \<le> year_start y + 366"
proof -
  assume "y < 399"
  have *: "365 * (a + 1) + q4' - q100' \<le> 365 * a + q4 - q100 + 366"
    if "q4' \<le> q4 + 1" "q100 \<le> q100'" for a q4 q4' q100 q100' :: int
    using that unfolding distrib_left by linarith
  have "int (Suc y) = int y + 1" by simp
  moreover have "y < 400" "Suc y < 400" using \<open>y < 399\<close> by simp_all
  ultimately show ?thesis
    using * [OF quotient_steps(2) [of 4 "int y"] quotient_steps(1) [of 100 "int y"], of "int y"]
    by (simp only: year_start_quotients(6))
qed

lemma era_days_range:
  assumes "0 \<le> doe" "doe < 146097"
  shows "0 \<le> era_days doe" "era_days doe \<le> 145999"
proof -
  have "era_days 0 \<le> era_days doe" "era_days doe \<le> era_days 146096"
    using assms by (auto intro!: era_days_le)
  then show "0 \<le> era_days doe" "era_days doe \<le> 145999" by (simp_all add: era_days_def)
qed

lemma year_of_era:
  assumes "0 \<le> doe" "doe < 146097"
  obtains y where "y < 400" and "era_days doe div 365 = int y"
    and "year_start y \<le> doe" and "doe \<le> year_start y + 365"
proof -
  note e = era_days_range [OF assms]
  define y where "y = nat (era_days doe div 365)"
  have y: "era_days doe div 365 = int y" using e by (simp add: y_def pos_imp_zdiv_nonneg_iff)
  have "era_days doe div 365 \<le> 145999 div 365" by (rule zdiv_mono1) (use e in simp_all)
  then have "y < 400" using y by simp
  have m: "365 * int y \<le> era_days doe" "era_days doe < 365 * int y + 365"
    using mult_div_mod_eq [of 365 "era_days doe"] y pos_mod_bound [of 365 "era_days doe"]
      pos_mod_sign [of 365 "era_days doe"] by linarith+
  have lo: "year_start y \<le> doe"
  proof (rule ccontr)
    assume less: "\<not> year_start y \<le> doe"
    then have "0 < y" using assms(1) by (cases y) (simp_all add: year_start_def)
    have "era_days doe \<le> era_days (year_start y - 1)" by (rule era_days_le) (use assms less year_start_quotients(7) [OF \<open>y < 400\<close>] in simp_all)
    then show False using era_days_before_year [OF \<open>0 < y\<close> \<open>y < 400\<close>] m by simp
  qed
  have hi: "doe \<le> year_start y + 365"
  proof (cases "y = 399")
    case True
    then show ?thesis using assms(2) by (simp add: year_start_def)
  next
    case False
    then have "Suc y < 400" using \<open>y < 400\<close> by simp
    have "doe < year_start (Suc y)"
    proof (rule ccontr)
      assume "\<not> doe < year_start (Suc y)"
      then have "era_days (year_start (Suc y)) \<le> era_days doe"
        by (intro era_days_le) (use assms year_start_quotients(5) [OF \<open>Suc y < 400\<close>] in simp_all)
      then show False using era_days_year_start [OF \<open>Suc y < 400\<close>] m by simp
    qed
    then show ?thesis using year_length [of y] \<open>Suc y < 400\<close> by simp
  qed
  show ?thesis by (rule that [OF \<open>y < 400\<close> y lo hi])
qed

lemma quotient_bounds:
  fixes a :: int
  assumes "0 < k"
  shows "k * (a div k) \<le> a" "a < k * (a div k) + k"
  using mult_div_mod_eq [of k a] pos_mod_sign [OF assms, of a] pos_mod_bound [OF assms, of a] by linarith+

text \<open>
  The month and the day of a day of the year counted from the first of March: \<open>mp\<close> is the month, \<open>t\<close> the days
  before it.
\<close>

lemma month_of_day:
  fixes doy :: int
  assumes "0 \<le> doy" "doy \<le> 365"
  defines "mp \<equiv> (5 * doy + 2) div 153"
  defines "t \<equiv> (153 * mp + 2) div 5"
  shows "0 \<le> mp" "mp \<le> 11" "t \<le> doy" "doy \<le> t + 30" "0 \<le> t" "10 \<le> mp \<longleftrightarrow> 306 \<le> doy"
proof -
  note m = quotient_bounds [of 153 "5 * doy + 2", folded mp_def, simplified]
  note d = quotient_bounds [of 5 "153 * mp + 2", folded t_def, simplified]
  show mp: "0 \<le> mp" using assms(1) unfolding mp_def by (simp add: pos_imp_zdiv_nonneg_iff)
  show "mp \<le> 11" "t \<le> doy" "doy \<le> t + 30" "0 \<le> t" using m d mp assms(1,2) by linarith+
  show "10 \<le> mp \<longleftrightarrow> 306 \<le> doy" using m by linarith
qed

text \<open>The last day of era 24 that lies before the year 10000 is the last of December 9999.\<close>

lemma last_four_digit_year:
  assumes "0 \<le> doe" "doe < 146097" "yoe < 400" "year_start yoe \<le> doe" "doe \<le> year_start yoe + 365"
  shows "int yoe + e * 400 + (if 306 \<le> doe - year_start yoe then 1 else 0) \<le> 9999 \<longleftrightarrow> doe + e * 146097 < 3652365"
proof -
  have start: "year_start 399 = 145731" by (simp add: year_start_def)
  have "year_start yoe \<le> 365 * 398 + 99" if "yoe \<noteq> 399"
  proof -
    have "yoe \<le> 398" "int yoe div 4 \<le> 99" "0 \<le> int yoe div 100" using that assms(3) by simp_all
    then show ?thesis unfolding year_start_quotients(6) [OF assms(3)] by simp
  qed
  then show ?thesis
    using assms start by (cases "yoe = 399"; cases "e = 24"; cases "e < 24") auto
qed

lemma civil_date:
  assumes "0 \<le> z"
  obtains y m d where "civil_from_days z = (y, m, d)" "0 \<le> y" "y \<le> 9999 \<longleftrightarrow> z < 2932897" "1 \<le> m" "m \<le> 12"
    "1 \<le> d" "d \<le> 31" "days_from_civil y m d = z"
proof -
  define e where "e = (z + 719468) div 146097"
  define doe where "doe = z + 719468 - e * 146097"
  have doe: "0 \<le> doe" "doe < 146097"
    using quotient_bounds [of 146097 "z + 719468"] by (simp_all add: doe_def e_def)
  have e: "0 \<le> e" unfolding e_def using assms(1) by (simp add: pos_imp_zdiv_nonneg_iff)
  obtain yoe where yoe: "yoe < 400" "era_days doe div 365 = int yoe" "year_start yoe \<le> doe" "doe \<le> year_start yoe + 365"
    using year_of_era [OF doe] .
  define doy where "doy = doe - year_start yoe"
  define mp where "mp = (5 * doy + 2) div 153"
  define t where "t = (153 * mp + 2) div 5"
  define m where "m = (if mp < 10 then mp + 3 else mp - 9)"
  define y where "y = int yoe + e * 400 + (if m \<le> 2 then 1 else 0)"
  have doy: "0 \<le> doy" "doy \<le> 365" using yoe by (simp_all add: doy_def)
  note md = month_of_day [OF doy, folded mp_def, folded t_def]
  show ?thesis
  proof
    have era: "tdiv (if 0 \<le> z + 719468 then z + 719468 else z + 719468 - 146096) 146097 = e"
      using assms(1) by (simp add: e_def)
    have year: "tdiv (doe - tdiv doe 1460 + tdiv doe 36524 - tdiv doe 146096) 365 = int yoe"
      using doe(1) yoe(2) by (simp only: tdiv_nonneg era_days_range [OF doe] flip: era_days_def)
    have day: "doe - (365 * int yoe + tdiv (int yoe) 4 - tdiv (int yoe) 100) = doy"
      by (simp add: doy_def year_start_quotients(6) [OF yoe(1)])
    have month: "tdiv (5 * doy + 2) 153 = mp" "tdiv (153 * mp + 2) 5 = t"
      using doy md(1) by (simp_all add: mp_def t_def)
    show "civil_from_days z = (y, m, doy - t + 1)"
      unfolding civil_from_days_def Let_def era doe_def [symmetric] year day month
      unfolding m_def [symmetric] y_def ..
    have year': "y - (if m \<le> 2 then 1 else 0) = int yoe + e * 400" by (simp add: y_def)
    have era': "tdiv (if 0 \<le> int yoe + e * 400 then int yoe + e * 400 else int yoe + e * 400 - 399) 400 = e"
      using e yoe(1) by simp
    have mp: "(if 2 < m then m - 3 else m + 9) = mp" using md(1,2) by (simp add: m_def)
    show "days_from_civil y m (doy - t + 1) = z"
      unfolding days_from_civil_def Let_def year' era' mp month using day by (simp add: doe_def)
    show "0 \<le> y" using e by (simp add: y_def)
    have "m \<le> 2 \<longleftrightarrow> 306 \<le> doe - year_start yoe" using md(1,2,6) unfolding doy_def [symmetric] m_def by auto
    then have "y \<le> 9999 \<longleftrightarrow> doe + e * 146097 < 3652365"
      unfolding y_def using last_four_digit_year [OF doe yoe(1,3,4), of e] by simp
    then show "y \<le> 9999 \<longleftrightarrow> z < 2932897" by (simp add: doe_def)
    show "1 \<le> m" "m \<le> 12" "1 \<le> doy - t + 1" "doy - t + 1 \<le> 31" using md(1-5) by (simp_all add: m_def)
  qed
qed

section \<open>Minute buckets\<close>

lemma of_digit: "k < 10 \<Longrightarrow> of_char (digit k) = 48 + k"
  by (simp add: digit_def of_char_of)

lemma digit_plain:
  assumes "k < 10"
  shows "digit k \<noteq> CHR ''+'' \<and> digit k \<noteq> CHR ''-'' \<and> digit k \<noteq> CHR ''/''"
proof -
  have "digit k \<noteq> c" if "of_char c < (48 :: nat)" for c using that of_digit [OF assms] by auto
  then show ?thesis by simp
qed

lemma slash_digit: "k < 10 \<Longrightarrow> CHR ''/'' \<noteq> digit k"
  using digit_plain [of k] by auto

lemma zero_digit: "CHR ''0'' = digit 0"
proof -
  have "char_of (of_char CHR ''0'' :: nat) = CHR ''0''" by (rule char_of_char)
  then show ?thesis by (simp add: digit_def)
qed

lemma dec_digits_small: "n < 10 \<Longrightarrow> dec_digits n = [digit n]"
  by (simp add: digit_def)

lemma dec_digits_step: "10 \<le> n \<Longrightarrow> dec_digits n = dec_digits (n div 10) @ [digit (n mod 10)]"
  by (simp add: digit_def)

lemmas dec_digits_rules = dec_digits_small dec_digits_step div_mult2_eq [symmetric] zero_digit

lemma dec_pad_2: "n < 100 \<Longrightarrow> dec_pad 2 (int n) = [digit (n div 10), digit (n mod 10)]"
  by (cases "n < 10") (simp_all add: dec_pad_def dec_digits_rules del: dec_digits.simps)

lemma dec_pad_4:
  assumes "n < 10000"
  shows "dec_pad 4 (int n) =
    [digit (n div 1000), digit (n div 100 mod 10), digit (n div 10 mod 10), digit (n mod 10)]"
proof -
  consider "n < 10" | "10 \<le> n" "n < 100" | "100 \<le> n" "n < 1000" | "1000 \<le> n" using assms by linarith
  then show ?thesis
    using assms
    by cases (simp_all add: dec_pad_def dec_digits_rules numeral_3_eq_3 numeral_2_eq_2 del: dec_digits.simps)
qed

lemma dec_value_digit [simp]: "k < 10 \<Longrightarrow> dec_value acc (digit k # cs) = dec_value (acc * 10 + int k) cs"
  by (simp add: of_digit)

lemma parse_digits:
  assumes "k < 10"
  shows "parse_u32 (digit k # cs) = dec_value 0 (digit k # cs)" "parse_i64 (digit k # cs) = dec_value 0 (digit k # cs)"
  using digit_plain [OF assms] by (simp_all add: parse_u32_def parse_i64_def del: dec_value.simps)

lemma parse_dec_pad_2:
  assumes "n < 100"
  shows "parse_u32 (dec_pad 2 (int n)) = Some (int n)" "parse_i64 (dec_pad 2 (int n)) = Some (int n)"
proof -
  have "int (n div 10 * 10 + n mod 10) = int n" by (simp only: div_mult_mod_eq)
  then have "int (n div 10) * 10 + int (n mod 10) = int n" by (simp only: of_nat_add of_nat_mult of_nat_numeral)
  moreover have "n div 10 < 10" using assms by auto
  ultimately show "parse_u32 (dec_pad 2 (int n)) = Some (int n)" "parse_i64 (dec_pad 2 (int n)) = Some (int n)"
    using assms by (simp_all add: dec_pad_2 parse_digits del: dec_value.simps(2))
qed

lemma parse_dec_pad_4:
  assumes "n < 10000"
  shows "parse_i64 (dec_pad 4 (int n)) = Some (int n)"
proof -
  have "n div 1000 * 10 + n div 100 mod 10 = n div 100" "n div 100 * 10 + n div 10 mod 10 = n div 10"
    using div_mult2_eq [of n 10 10] div_mult2_eq [of n 100 10] by simp_all
  then have "int (((n div 1000 * 10 + n div 100 mod 10) * 10 + n div 10 mod 10) * 10 + n mod 10) = int n"
    by (simp only: div_mult_mod_eq)
  then have "((int (n div 1000) * 10 + int (n div 100 mod 10)) * 10 + int (n div 10 mod 10)) * 10 + int (n mod 10) = int n"
    by (simp only: of_nat_add of_nat_mult of_nat_numeral)
  moreover have "n div 1000 < 10" using assms by auto
  ultimately show ?thesis
    using assms by (simp add: dec_pad_4 parse_digits del: dec_value.simps(2))
qed

lemma minute_parts:
  assumes "0 \<le> ms"
  obtains y mo d h mi where "minute_bucket ms =
      dec_pad 4 (int y) @ ''-'' @ dec_pad 2 (int mo) @ ''-'' @ dec_pad 2 (int d) @ ''T''
        @ dec_pad 2 (int h) @ '':'' @ dec_pad 2 (int mi)"
    "y < 10000 \<longleftrightarrow> ms < bucket_end" "1 \<le> mo" "mo \<le> 12" "1 \<le> d" "d \<le> 31" "h < 24" "mi < 60"
    "(days_from_civil (int y) (int mo) (int d) * 1440 + int h * 60 + int mi) * 60000 = ms div 60000 * 60000"
proof -
  define mins where "mins = ms div 60000"
  define z where "z = mins div 1440"
  define m where "m = mins mod 1440"
  define h where "h = m div 60"
  note lower = pos_imp_zdiv_nonneg_iff [THEN iffD2]
  have "0 \<le> mins" unfolding mins_def by (rule lower) (use assms in simp_all)
  then have z: "0 \<le> z" using lower [of 1440 mins, folded z_def] by simp
  have "mins < 4223371680 \<longleftrightarrow> ms < bucket_end"
    using quotient_bounds [of 60000 ms, folded mins_def] by (simp add: bucket_end_def) linarith
  moreover have "z < 2932897 \<longleftrightarrow> mins < 4223371680"
    using quotient_bounds [of 1440 mins, folded z_def] by simp linarith
  ultimately have late: "z < 2932897 \<longleftrightarrow> ms < bucket_end" by simp
  obtain y mo d where c: "civil_from_days z = (y, mo, d)" "0 \<le> y" "y \<le> 9999 \<longleftrightarrow> z < 2932897" "1 \<le> mo" "mo \<le> 12"
    "1 \<le> d" "d \<le> 31" "days_from_civil y mo d = z"
    using civil_date [OF z] .
  have year: "nat y < 10000 \<longleftrightarrow> ms < bucket_end" using c(2,3) late by (cases "ms < bucket_end") auto
  have m: "0 \<le> m" "m < 1440" by (simp_all add: m_def)
  have h: "0 \<le> h" "h < 24"
    using lower [of 60 m, folded h_def] quotient_bounds(1) [of 60 m, folded h_def] m by simp_all
  have "z * 1440 + h * 60 + m mod 60 = mins" by (simp add: z_def m_def h_def)
  moreover have "minute_bucket ms = dec_pad 4 y @ ''-'' @ dec_pad 2 mo @ ''-'' @ dec_pad 2 d @ ''T''
        @ dec_pad 2 h @ '':'' @ dec_pad 2 (m mod 60)"
    using c(1) unfolding minute_bucket_def Let_def mins_def [symmetric] z_def [symmetric] m_def [symmetric] h_def [symmetric]
    by simp
  ultimately show ?thesis
    using that [of "nat y" "nat mo" "nat d" "nat h" "nat (m mod 60)"] c(2,4-) h year
    unfolding mins_def [symmetric] by simp
qed

lemma parse_minute_bucket:
  assumes "0 \<le> ms" "ms < bucket_end"
  shows "parse_minute (minute_bucket ms) = Some (ms div 60000 * 60000)"
proof -
  obtain y mo d h mi where p: "minute_bucket ms =
      dec_pad 4 (int y) @ ''-'' @ dec_pad 2 (int mo) @ ''-'' @ dec_pad 2 (int d) @ ''T''
        @ dec_pad 2 (int h) @ '':'' @ dec_pad 2 (int mi)"
    and b: "y < 10000" "1 \<le> mo" "mo \<le> 12" "1 \<le> d" "d \<le> 31" "h < 24" "mi < 60"
    and v: "(days_from_civil (int y) (int mo) (int d) * 1440 + int h * 60 + int mi) * 60000 = ms div 60000 * 60000"
    using minute_parts [OF assms(1)] assms(2) by metis
  have again: "minute_bucket (ms div 60000 * 60000) = minute_bucket ms" by (simp add: minute_bucket_def)
  have two: "\<exists>u v. dec_pad 2 (int n) = [u, v] \<and> parse_u32 [u, v] = Some (int n) \<and> parse_i64 [u, v] = Some (int n)"
    if "n < 100" for n
    using parse_dec_pad_2 [OF that] dec_pad_2 [OF that] by simp
  obtain y1 y2 y3 y4 where Y: "dec_pad 4 (int y) = [y1, y2, y3, y4]" "parse_i64 [y1, y2, y3, y4] = Some (int y)"
    using parse_dec_pad_4 [OF b(1)] dec_pad_4 [OF b(1)] by simp
  obtain m1 m2 d1 d2 where D: "dec_pad 2 (int mo) = [m1, m2]" "parse_u32 [m1, m2] = Some (int mo)"
    "dec_pad 2 (int d) = [d1, d2]" "parse_u32 [d1, d2] = Some (int d)"
    using two [of mo] two [of d] b by auto
  obtain h1 h2 i1 i2 where H: "dec_pad 2 (int h) = [h1, h2]" "parse_i64 [h1, h2] = Some (int h)"
    "dec_pad 2 (int mi) = [i1, i2]" "parse_i64 [i1, i2] = Some (int mi)"
    using two [of h] two [of mi] b by auto
  have bucket: "minute_bucket ms = [y1, y2, y3, y4, CHR ''-'', m1, m2, CHR ''-'', d1, d2, CHR ''T'', h1, h2, CHR '':'', i1, i2]"
    by (simp add: p Y D H)
  show ?thesis
    using b again v unfolding parse_minute_def Let_def bucket by (simp add: slice_def Y D H)
qed

section \<open>Keys of entries\<close>

lemma dec_digits_no_slash: "CHR ''/'' \<notin> set (dec_digits n)"
proof (induction n rule: less_induct)
  case (less n)
  show ?case
  proof (cases "n < 10")
    case False
    then show ?thesis using less [of "n div 10"] by (simp add: dec_digits_step slash_digit del: dec_digits.simps)
  qed (simp add: dec_digits_small slash_digit del: dec_digits.simps)
qed

lemma minute_bucket_plain:
  assumes "0 \<le> ms"
  shows "CHR ''/'' \<notin> set (minute_bucket ms)"
proof -
  have "CHR ''/'' \<notin> set (dec_pad w (int n))" for w n
    using dec_digits_no_slash [of n] by (simp add: dec_pad_def Let_def del: dec_digits.simps)
  moreover obtain y mo d h mi where "minute_bucket ms =
      dec_pad 4 (int y) @ ''-'' @ dec_pad 2 (int mo) @ ''-'' @ dec_pad 2 (int d) @ ''T''
        @ dec_pad 2 (int h) @ '':'' @ dec_pad 2 (int mi)"
    by (rule minute_parts [OF assms])
  ultimately show ?thesis by simp
qed

text \<open>A year of five digits makes the bucket longer than the sixteen bytes that parse.\<close>

lemma parse_late_bucket:
  assumes "0 \<le> ms" "bucket_end \<le> ms"
  shows "parse_minute (minute_bucket ms) = None"
proof -
  obtain y mo d h mi where p: "minute_bucket ms =
      dec_pad 4 (int y) @ ''-'' @ dec_pad 2 (int mo) @ ''-'' @ dec_pad 2 (int d) @ ''T''
        @ dec_pad 2 (int h) @ '':'' @ dec_pad 2 (int mi)"
    and b: "y < 10000 \<longleftrightarrow> ms < bucket_end"
    by (rule minute_parts [OF assms(1)])
  have "length (dec_digits n) = Suc (length (dec_digits (n div 10)))" if "10 \<le> n" for n
    using that by (simp add: dec_digits_step del: dec_digits.simps)
  moreover have "10 \<le> y" "10 \<le> y div 10" "10 \<le> y div 10 div 10" "10 \<le> y div 10 div 10 div 10" "0 < length (dec_digits n)" for n
    using b assms(2) by (auto simp: div_mult2_eq [symmetric] less_eq_div_iff_mult_less_eq)
  ultimately have "5 \<le> length (dec_pad 4 (int y))" by (simp add: dec_pad_def Let_def Suc_le_eq del: dec_digits.simps)
  moreover have "2 \<le> length (dec_pad 2 (int n))" for n by (simp add: dec_pad_def Let_def del: dec_digits.simps)
  note this [of mo] this [of d] this [of h] this [of mi]
  ultimately have "length (minute_bucket ms) \<noteq> 16" unfolding p by simp
  then show ?thesis by (simp add: parse_minute_def)
qed

lemma split_on_free: "c \<notin> set xs \<Longrightarrow> split_on c xs = [xs]"
  by (induction xs) auto

lemma split_on_append: "c \<notin> set xs \<Longrightarrow> split_on c (xs @ c # ys) = xs # split_on c ys"
  by (induction xs) auto

lemma split_on_nonempty: "split_on c s \<noteq> []"
  by (induction s) (auto split: list.split)

lemma split_on_pieces: "split_on c s = w # ws \<Longrightarrow> w @ concat (map ((#) c) ws) = s"
proof (induction s arbitrary: w ws)
  case (Cons x s)
  obtain v vs where v: "split_on c s = v # vs" using split_on_nonempty [of c s] by (cases "split_on c s") auto
  then have s: "v @ concat (map ((#) c) vs) = s" by (rule Cons.IH)
  show ?case
  proof (cases "x = c")
    case True
    then have "w = []" "ws = v # vs" using Cons.prems v by simp_all
    then show ?thesis using s True by simp
  next
    case False
    then have "w = x # v" "ws = vs" using Cons.prems v by simp_all
    then show ?thesis using s by simp
  qed
qed simp

lemma publication_id_text: "CHR ''/'' \<notin> set (publication_id_to_string i)" "publication_id_to_string i \<noteq> ''migration''"
proof -
  show "CHR ''/'' \<notin> set (publication_id_to_string i)"
    using hex_pad_plain [of "CHR ''/''" 16] by (auto simp: publication_id_to_string_def)
  have "length (publication_id_to_string i) \<noteq> length ''migration''" by (simp add: publication_id_to_string_def)
  then show "publication_id_to_string i \<noteq> ''migration''" by metis
qed

lemma parse_minute_canonical: "parse_minute minute = Some ms \<Longrightarrow> minute_bucket ms = minute"
  by (auto simp: parse_minute_def Let_def split: if_splits option.splits)

lemma parse_entry_key_fields:
  assumes "parse_entry_key key = Some e"
  obtains minute identity where "key = ENTRY_PREFIX @ minute @ ''/'' @ le_cell e @ ''/'' @ identity"
    "valid_cell_scope (le_cell e)" "parse_minute minute = Some (le_minute_ms e)"
    "(if identity = ''migration'' \<and> minute = ''1970-01-01T00:00'' then Some (PublicationId 0 0)
      else publication_id_parse identity) = Some (le_id e)"
proof -
  obtain rest where rest: "strip_prefix ENTRY_PREFIX key = Some rest"
    using assms by (cases "strip_prefix ENTRY_PREFIX key") (simp_all add: parse_entry_key_def)
  obtain minute cell identity others where s: "split_on CHR ''/'' rest = minute # cell # identity # others"
    using assms by (simp add: parse_entry_key_def rest split: list.splits)
  obtain i where i: "(if identity = ''migration'' \<and> minute = ''1970-01-01T00:00'' then Some (PublicationId 0 0)
      else publication_id_parse identity) = Some i"
    using assms by (simp add: parse_entry_key_def rest s split: option.splits)
  have "others = [] \<and> valid_cell_scope cell" "parse_minute minute = Some (le_minute_ms e)" "le_cell e = cell" "le_id e = i"
    using assms unfolding parse_entry_key_def rest option.case s list.case i by (auto split: if_splits option.splits)
  moreover have "key = ENTRY_PREFIX @ rest"
    using rest by (metis append_take_drop_id option.distinct(1) option.inject strip_prefix_def)
  moreover have "rest = minute @ concat (map ((#) CHR ''/'') (cell # identity # others))"
    using split_on_pieces [OF s] ..
  ultimately show ?thesis using that [of minute identity] i by simp
qed

section \<open>The cache of confirmed publications\<close>

lemma recent_ok_Nil [simp]: "recent_ok []"
  by (simp add: recent_ok_def)

lemma pop_to_recent_drop: "pop_to_recent xs = drop (length xs - RECENT_PUBLICATIONS) xs"
  by (induction xs) (auto simp: Suc_diff_le not_less_eq_eq not_less)

lemma list_all_bm_insert: "list_all P m \<Longrightarrow> P (k, v) \<Longrightarrow> list_all P (bm_insert k v m)"
  by (induction k v m rule: bm_insert.induct) auto

lemma bm_ok_drop: "bm_ok m \<Longrightarrow> bm_ok (drop n m)"
  by (simp add: bm_ok_def drop_map [symmetric] sorted_wrt_drop)

lemma recent_ok_confirm:
  assumes "recent_ok recent" "sn_at_ms a \<noteq> None" "sn_source a = Some source"
  shows "recent_ok (pop_to_recent (bm_insert (as_id source) a recent))"
proof -
  have "list_all (\<lambda>(i, a). sn_at_ms a \<noteq> None \<and> map_option as_id (sn_source a) = Some i)
      (bm_insert (as_id source) a recent)"
    using assms by (intro list_all_bm_insert) (simp_all add: recent_ok_def)
  then show ?thesis
    using assms(1) by (auto simp: recent_ok_def pop_to_recent_drop bm_ok_drop list_all_iff dest: in_set_dropD)
qed

lemma recent_ok_filter: "recent_ok recent \<Longrightarrow> recent_ok (filter P recent)"
  by (auto simp: recent_ok_def bm_ok_def sorted_wrt_map sorted_wrt_filter list_all_iff
      intro: order_trans [OF length_filter_le])

lemma retired_keys_exact:
  "recent_ok recent \<Longrightarrow>
   retired_keys cell r recent =
     Some (map (\<lambda>(i, a). entry_key (the (sn_at_ms a)) cell i) (filter (\<lambda>(i, _). retires r i) recent))"
proof (induction recent)
  case (Cons e recent)
  then have "recent_ok recent" by (cases e) (auto simp: recent_ok_def bm_ok_Cons)
  then show ?case using Cons by (cases e) (auto simp: recent_ok_def)
qed simp

lemma take_retired_exact:
  assumes "recent_ok (recent_of w cell)"
  shows "\<exists>w'. take_retired w cell r =
      Some (map (\<lambda>(i, a). entry_key (the (sn_at_ms a)) cell i) (filter (\<lambda>(i, _). retires r i) (recent_of w cell)), w')
    \<and> recent_of w' cell = filter (\<lambda>(i, _). \<not> retires r i) (recent_of w cell)
    \<and> (\<forall>c. c \<noteq> cell \<longrightarrow> recent_of w' c = recent_of w c)"
proof (cases "bm_get (wc_confirmed w) cell")
  case (Some recent)
  then have "recent_ok recent" using assms by (simp add: recent_of_def)
  from retired_keys_exact [OF this, of cell r] Some show ?thesis
    by (auto simp: take_retired_def recent_of_def)
qed (simp add: take_retired_def recent_of_def)

lemma recent_of_confirm:
  "recent_of (wake_confirm w c alarm) cell =
     (case sn_source alarm of
        None \<Rightarrow> recent_of w cell
      | Some source \<Rightarrow>
          if cell = c \<and> sn_at_ms alarm \<noteq> None then pop_to_recent (bm_insert (as_id source) alarm (recent_of w c))
          else recent_of w cell)"
  by (cases "sn_source alarm"; cases "cell = c") (simp_all add: wake_confirm_def recent_of_def Let_def)

lemma recent_of_forget: "recent_of (wake_forget w c) cell = (if cell = c then [] else recent_of w cell)"
  by (simp add: wake_forget_def recent_of_def)

lemma reachable_recent_ok: "wake_reachable w \<Longrightarrow> recent_ok (recent_of w cell)"
proof (induction arbitrary: cell rule: wake_reachable.induct)
  case (confirmed w c alarm)
  then show ?case
    by (auto simp: recent_of_confirm recent_ok_confirm split: option.split)
next
  case (retired w c r keys w')
  then obtain v where "take_retired w c r = Some (keys, v)" "recent_of v c = filter (\<lambda>(i, _). \<not> retires r i) (recent_of w c)"
    "\<forall>c'. c' \<noteq> c \<longrightarrow> recent_of v c' = recent_of w c'"
    using take_retired_exact [of w c r] by auto
  then show ?case using retired by (cases "cell = c") (auto simp: recent_ok_filter)
next
  case (forgotten w c)
  then show ?case by (simp add: recent_of_forget)
qed (simp add: wake_core_new_def recent_of_def)

lemma bm_insert_newest:
  assumes "bm_ok m" "\<forall>k'\<in>fst ` set m. k' \<le> k"
  shows "\<exists>m'. bm_insert k v m = m' @ [(k, v)]"
  using assms
proof (induction k v m rule: bm_insert.induct)
  case (2 k v k' v' m)
  show ?case
  proof (cases "k = k'")
    case True
    have "m = []"
    proof (rule ccontr)
      assume "m \<noteq> []"
      then obtain e where "e \<in> set m" by (cases m) auto
      then have "k' < fst e" "fst e \<le> k" using 2(2,3) by (auto simp: bm_ok_Cons)
      then show False using True by simp
    qed
    then show ?thesis using True by simp
  next
    case False
    then show ?thesis using 2 by (auto simp: bm_ok_Cons)
  qed
qed simp

lemma two_confirmed_reachable: "wake_reachable two_confirmed"
  unfolding two_confirmed_def by (intro wake_reachable.intros)

section \<open>Properties\<close>

text \<open>
  C7. What becomes of the key of an entry when it is parsed, for every due time a publication can carry. Up to the
  end of the year 9999 the key gives back the minute of the due time, the cell and the identity. From the year 10000
  on the year has five digits, the minute is longer than the sixteen bytes the parser expects, and the key does not
  parse at all.
\<close>

theorem entry_key_round_trip:
  assumes "0 \<le> due" "valid_cell_scope cell" "identity_ok i"
  shows "parse_entry_key (entry_key due cell i) =
    (if due < bucket_end then Some \<lparr>le_minute_ms = due div 60000 * 60000, le_cell = cell, le_id = i\<rparr> else None)"
proof -
  have "split_on CHR ''/'' (minute_bucket due @ ''/'' @ cell @ ''/'' @ publication_id_to_string i) =
      [minute_bucket due, cell, publication_id_to_string i]"
    using minute_bucket_plain [OF assms(1)] valid_cell_scope_component(1) [OF assms(2)] publication_id_text(1)
    by (simp add: split_on_append split_on_free)
  then show ?thesis
    using assms(2) parse_minute_bucket [OF assms(1)] parse_late_bucket [OF assms(1)] identity.decode_encode [OF assms(3)]
    by (simp add: parse_entry_key_def entry_key_def strip_prefix_def publication_id_text(2))
qed

theorem entry_key_round_trip_witness:
  "parse_entry_key (entry_key 1700000012345 ''room:1'' (PublicationId 3 7)) =
     Some \<lparr>le_minute_ms = 1699999980000, le_cell = ''room:1'', le_id = PublicationId 3 7\<rparr>
   \<and> parse_entry_key (entry_key 253402300800000 ''room:1'' (PublicationId 3 7)) = None"
proof -
  have "valid_cell_scope ''room:1''" by code_simp
  then show ?thesis
    using entry_key_round_trip [of 1700000012345 "''room:1''" "PublicationId 3 7"]
      entry_key_round_trip [of 253402300800000 "''room:1''" "PublicationId 3 7"]
    by (simp add: bucket_end_def identity_ok_def u64_max_def)
qed

text \<open>
  C8. Only canonical keys parse: a key that parses is the key of the entry it parses to, or the migration seed of
  its cell, which stands for identity zero. So two keys never name the same entry.
\<close>

theorem parsed_entry_key_is_canonical:
  assumes "parse_entry_key key = Some e"
  shows "valid_cell_scope (le_cell e) \<and>
    (key = entry_key (le_minute_ms e) (le_cell e) (le_id e) \<and> identity_ok (le_id e)
     \<or> key = migration_seed_key (le_cell e) \<and> le_id e = PublicationId 0 0)"
proof -
  obtain minute identity where key: "key = ENTRY_PREFIX @ minute @ ''/'' @ le_cell e @ ''/'' @ identity"
    and cell: "valid_cell_scope (le_cell e)" and minute: "parse_minute minute = Some (le_minute_ms e)"
    and i: "(if identity = ''migration'' \<and> minute = ''1970-01-01T00:00'' then Some (PublicationId 0 0)
      else publication_id_parse identity) = Some (le_id e)"
    by (rule parse_entry_key_fields [OF assms])
  show ?thesis
  proof (cases "identity = ''migration'' \<and> minute = ''1970-01-01T00:00''")
    case True
    then show ?thesis using key cell i by (simp add: migration_seed_key_def)
  next
    case False
    then show ?thesis
      using key cell i parse_minute_canonical [OF minute] identity.decode_valid by (auto simp: entry_key_def)
  qed
qed

theorem parsed_entry_key_is_canonical_witness:
  "valid_cell_scope ''room''
   \<and> (''wake/entries/1970-01-01T00:01/room/0000000000000003-0000000000000007'' = entry_key 60000 ''room'' (PublicationId 3 7)
        \<and> identity_ok (PublicationId 3 7)
      \<or> ''wake/entries/1970-01-01T00:01/room/0000000000000003-0000000000000007'' = migration_seed_key ''room''
        \<and> PublicationId 3 7 = PublicationId 0 0)"
proof -
  have "parse_entry_key ''wake/entries/1970-01-01T00:01/room/0000000000000003-0000000000000007'' =
      Some \<lparr>le_minute_ms = 60000, le_cell = ''room'', le_id = PublicationId 3 7\<rparr>"
    by code_simp
  from parsed_entry_key_is_canonical [OF this] show ?thesis by simp
qed

text \<open>
  C9. Draining what a certificate retires never panics, whatever the cache went through: it returns exactly the
  keys of the cell's retired publications, keeps the others, touches no other cell, and no cell ever has more
  than \<open>RECENT_PUBLICATIONS\<close> of them.
\<close>

theorem take_retired_drains_exactly:
  assumes "wake_reachable w"
  shows "length (recent_of w cell) \<le> RECENT_PUBLICATIONS
    \<and> (\<exists>w'. take_retired w cell r =
        Some (map (\<lambda>(i, a). entry_key (the (sn_at_ms a)) cell i) (filter (\<lambda>(i, _). retires r i) (recent_of w cell)), w')
      \<and> recent_of w' cell = filter (\<lambda>(i, _). \<not> retires r i) (recent_of w cell)
      \<and> (\<forall>c. c \<noteq> cell \<longrightarrow> recent_of w' c = recent_of w c))"
  using reachable_recent_ok [OF assms, of cell] take_retired_exact [of w cell r] by (simp add: recent_ok_def)

theorem take_retired_drains_exactly_witness:
  "map_option fst (take_retired two_confirmed ''room'' \<lparr>rt_id = PublicationId 1 2, rt_at_ms = Some 60000\<rparr>) =
     Some [entry_key 60000 ''room'' (PublicationId 1 1)]"
proof -
  have "recent_of two_confirmed ''room'' = [(PublicationId 1 1, alarm_of 1), (PublicationId 1 2, alarm_of 2)]"
    by code_simp
  then show ?thesis
    using take_retired_drains_exactly [OF two_confirmed_reachable, of "''room''" "\<lparr>rt_id = PublicationId 1 2, rt_at_ms = Some 60000\<rparr>"]
    by (auto simp: retires_def less_publication_id_def alarm_of_def committed_def)
qed

text \<open>
  Confirming the newest publication of a cell covers it: the same installation is not published again.
\<close>

lemma confirmed_alarm_is_covered:
  assumes "wake_reachable w" "sn_at_ms alarm \<noteq> None" "sn_source alarm = Some source"
    "\<forall>i\<in>fst ` set (recent_of w cell). i \<le> as_id source"
  shows "wake_covered (wake_confirm w cell alarm) cell alarm
    \<and> publication_of (wake_confirm w cell alarm) cell alarm = None"
proof -
  obtain m where m: "bm_insert (as_id source) alarm (recent_of w cell) = m @ [(as_id source, alarm)]"
    using bm_insert_newest assms(4) reachable_recent_ok [OF assms(1), of cell] by (force simp: recent_ok_def)
  have "wake_confirm w cell alarm =
      w\<lparr>wc_confirmed := bm_insert cell (pop_to_recent (m @ [(as_id source, alarm)])) (wc_confirmed w)\<rparr>"
    using assms(2,3) m by (simp add: wake_confirm_def Let_def recent_of_def)
  then have "wake_covered (wake_confirm w cell alarm) cell alarm"
    using assms(2,3) by (simp add: wake_covered_def pop_to_recent_drop same_installation_def RECENT_PUBLICATIONS_def)
  then show ?thesis by (simp add: publication_of_def split: option.split)
qed

lemma confirmed_alarm_is_covered_witness:
  "wake_covered (wake_confirm two_confirmed ''room'' (alarm_of 3)) ''room'' (alarm_of 3)
   \<and> publication_of (wake_confirm two_confirmed ''room'' (alarm_of 3)) ''room'' (alarm_of 3) = None"
proof (rule confirmed_alarm_is_covered [OF two_confirmed_reachable])
  show "sn_source (alarm_of 3) = Some \<lparr>as_id = PublicationId 1 3, as_position = 3\<rparr>" "sn_at_ms (alarm_of 3) \<noteq> None"
    by (simp_all add: alarm_of_def committed_def)
  show "\<forall>i\<in>fst ` set (recent_of two_confirmed ''room''). i \<le> as_id \<lparr>as_id = PublicationId 1 3, as_position = 3\<rparr>"
    by code_simp
qed

end
