(* ===== verification/Upkeep.thy ===== *)
theory Upkeep
  imports Wake
begin

text \<open>
  The small policies a node runs beside the core: the backoff of a failed alarm (\<open>alarm.rs\<close>), the bound of a
  cell-owned sweep (\<open>sweep.rs\<close>), eviction from the local snapshot cache (\<open>cache.rs\<close>), the retirement of dead
  nodes' index entries (\<open>dead_node_reconciliation.rs\<close>), the deadline of a durability proof (\<open>durability.rs\<close>),
  the collection of superseded epochs (\<open>epoch_gc.rs\<close>) and the reuse of a local snapshot (\<open>restore.rs\<close>).

  Byte totals are sums of natural numbers; \<open>cache.rs\<close> adds them in \<open>u64\<close>, so what is shown of them assumes
  that the total of the cache fits in a \<open>u64\<close>.
\<close>

section \<open>Definitions\<close>

subsection \<open>Sweeps and alarm retries\<close>

definition BATCH_ROWS :: nat where
  "BATCH_ROWS = 256"

definition RETRY_CEILING :: int where
  "RETRY_CEILING = 6"

definition BACKOFF_BASE_MS :: ms where
  "BACKOFF_BASE_MS = 2000"

definition MAX_BACKOFF_SHIFT :: int where
  "MAX_BACKOFF_SHIFT = 6"

definition alarm_retry :: "ms \<Rightarrow> int \<Rightarrow> int \<Rightarrow> bool \<Rightarrow> ms option" where
  "alarm_retry now_ms retry counted_retry counts_against_limit =
     (if counts_against_limit \<and> RETRY_CEILING \<le> counted_retry then None
      else
        let shift = max 0 (min MAX_BACKOFF_SHIFT retry) in
        Some (i64_sat (now_ms + BACKOFF_BASE_MS * 2 ^ nat shift)))"

subsection \<open>The local snapshot cache\<close>





subsection \<open>Dead nodes\<close>

definition RECONCILE_BACKOFF_SHIFT :: nat where
  "RECONCILE_BACKOFF_SHIFT = 6"

definition retry_delay_ms :: "nat \<Rightarrow> nat \<Rightarrow> nat" where
  "retry_delay_ms tick_ms failure_count =
     sat_mul tick_ms (2 ^ min (failure_count - 1) RECONCILE_BACKOFF_SHIFT)"

definition parse_marker_key :: "string \<Rightarrow> (string \<times> string) option" where
  "parse_marker_key key =
     (case strip_prefix ''node-cells/'' key of
        None \<Rightarrow> None
      | Some rest \<Rightarrow>
          (case split_once CHR ''/'' rest of
             None \<Rightarrow> None
           | Some (node, rest) \<Rightarrow>
               (case split_once CHR ''/'' rest of
                  None \<Rightarrow> None
                | Some (generation, cell) \<Rightarrow>
                    if node = [] \<or> generation = [] \<or> cell = [] then None else Some (node, cell))))"

definition node_record_is_dead :: "node_id \<Rightarrow> node_id \<Rightarrow> nat \<Rightarrow> nat \<Rightarrow> bool" where
  "node_record_is_dead key_node record_node expires_ms now_ms =
     (key_node = record_node \<and> expires_ms \<le> now_ms)"

subsection \<open>The deadline of a proof\<close>

record proof_wait =
  pw_started_ms :: nat
  pw_ticket :: nat
  pw_budget_ms :: nat

record proof_progress =
  pp_node_proof_ms :: nat
  pp_capture_seq :: nat
  pp_capture_started_ms :: nat

definition QUEUED_BUDGETS :: nat where
  "QUEUED_BUDGETS = 6"

definition proof_deadline :: "proof_wait \<Rightarrow> proof_progress \<Rightarrow> nat" where
  "proof_deadline wait progress =
     (if pw_ticket wait \<le> pp_capture_seq progress
      then sat_add (max (pp_capture_started_ms progress) (pw_started_ms wait)) (pw_budget_ms wait)
      else
        let anchor = max (pp_node_proof_ms progress) (pw_started_ms wait);
            cap = sat_add (pw_started_ms wait) (sat_mul (pw_budget_ms wait) QUEUED_BUDGETS)
        in min (sat_add anchor (pw_budget_ms wait)) cap)"

subsection \<open>Superseded epochs\<close>

record listed_epoch =
  li_epoch :: epoch
  li_newest_ms :: nat

record gc_plan =
  gp_retired_below :: epoch
  gp_record :: bool
  gp_delete :: "epoch list"

definition gc_plan_of ::
  "epoch \<Rightarrow> epoch list \<Rightarrow> listed_epoch list \<Rightarrow> epoch option \<Rightarrow> bool \<Rightarrow> nat \<Rightarrow> nat \<Rightarrow> gc_plan option" where
  "gc_plan_of own_epoch chain listed recorded pinned_reads now_ms grace_ms =
     (case chain of
        [] \<Rightarrow> None
      | base # _ \<Rightarrow>
          if pinned_reads \<or> last chain \<noteq> own_epoch then None
          else if (case recorded of None \<Rightarrow> False | Some mark \<Rightarrow> base < mark) then None
          else
            let delete = map li_epoch
                  (filter (\<lambda>l. grace_ms \<le> now_ms - li_newest_ms l)
                    (filter (\<lambda>l. li_epoch l < base \<and> li_epoch l + 1 < own_epoch) listed))
            in Some \<lparr>gp_retired_below = base, gp_record = (recorded \<noteq> Some base), gp_delete = delete\<rparr>)"

definition retired :: "epoch \<Rightarrow> epoch option \<Rightarrow> bool" where
  "retired epoch recorded = (case recorded of None \<Rightarrow> False | Some mark \<Rightarrow> epoch < mark)"

subsection \<open>Restore sources\<close>

definition previous_epoch_reusable :: "epoch \<Rightarrow> bool \<Rightarrow> bool" where
  "previous_epoch_reusable epoch took_over = (1 < epoch \<and> \<not> took_over)"

subsection \<open>What the properties speak of\<close>



text \<open>A progress report follows another one when nothing it counts went back.\<close>

definition progressed :: "proof_progress \<Rightarrow> proof_progress \<Rightarrow> bool" where
  "progressed p q =
     (pp_node_proof_ms p \<le> pp_node_proof_ms q \<and> pp_capture_seq p \<le> pp_capture_seq q
      \<and> pp_capture_started_ms p \<le> pp_capture_started_ms q
      \<and> (pp_capture_seq p < pp_capture_seq q \<longrightarrow> pp_node_proof_ms p \<le> pp_capture_started_ms q))"

section \<open>Lemmas\<close>

subsection \<open>The cache\<close>








section \<open>Properties\<close>



text \<open>
  The deadline of a durability proof gives every wait at least one budget and a queued wait at most
  \<open>QUEUED_BUDGETS\<close> of them, and progress never moves it back: a proof elsewhere on the node, or the start of
  the capture that covers the write, only extends it.
\<close>

lemma proof_deadline_moves_forward:
  assumes "progressed p q"
  shows "sat_add (pw_started_ms wait) (pw_budget_ms wait) \<le> proof_deadline wait p
    \<and> proof_deadline wait p \<le> proof_deadline wait q
    \<and> (pp_capture_seq p < pw_ticket wait
        \<longrightarrow> proof_deadline wait p \<le> sat_add (pw_started_ms wait) (sat_mul (pw_budget_ms wait) QUEUED_BUDGETS))"
  using assms
  by (auto simp: progressed_def proof_deadline_def Let_def sat_add_def sat_mul_def QUEUED_BUDGETS_def)

lemma proof_deadline_moves_forward_witness:
  "proof_deadline \<lparr>pw_started_ms = 100, pw_ticket = 4, pw_budget_ms = 10\<rparr>
     \<lparr>pp_node_proof_ms = 120, pp_capture_seq = 3, pp_capture_started_ms = 90\<rparr>
   \<le> proof_deadline \<lparr>pw_started_ms = 100, pw_ticket = 4, pw_budget_ms = 10\<rparr>
     \<lparr>pp_node_proof_ms = 126, pp_capture_seq = 4, pp_capture_started_ms = 125\<rparr>"
  by (rule proof_deadline_moves_forward [THEN conjunct2, THEN conjunct1]) (simp add: progressed_def)

text \<open>
  C40. The collection of superseded epochs is safe for the restore chain, given that the chain is in ascending
  order: no epoch of the chain is deleted, nor is the owner's epoch or the one before it; every deleted epoch is
  listed, is below the mark that the plan retires, and has been untouched for the grace period; and the mark is
  never lowered.
\<close>

theorem gc_keeps_restore_chain:
  assumes "sorted chain"
    and "gc_plan_of own_epoch chain listed recorded pinned_reads now_ms grace_ms = Some p"
  shows "set (gp_delete p) \<inter> set chain = {}
    \<and> (\<forall>e\<in>set (gp_delete p). e + 1 < own_epoch \<and> retired e (Some (gp_retired_below p))
         \<and> (\<exists>l\<in>set listed. li_epoch l = e \<and> grace_ms \<le> now_ms - li_newest_ms l))
    \<and> (\<forall>mark. recorded = Some mark \<longrightarrow> mark \<le> gp_retired_below p) \<and> \<not> retired own_epoch (Some (gp_retired_below p))"
proof -
  obtain base rest where chain: "chain = base # rest"
    using assms(2) by (cases chain) (simp_all add: gc_plan_of_def)
  have base: "base \<le> e" if "e \<in> set chain" for e using assms(1) that by (auto simp: chain)
  have p: "p = \<lparr>gp_retired_below = base, gp_record = (recorded \<noteq> Some base),
      gp_delete = map li_epoch (filter (\<lambda>l. grace_ms \<le> now_ms - li_newest_ms l)
        (filter (\<lambda>l. li_epoch l < base \<and> li_epoch l + 1 < own_epoch) listed))\<rparr>"
    and own: "last chain = own_epoch" and mark: "\<forall>mark. recorded = Some mark \<longrightarrow> mark \<le> base"
    using assms(2) by (auto simp: gc_plan_of_def chain split: if_splits option.splits)
  have "own_epoch \<in> set chain" using own last_in_set [of chain] by (simp add: chain)
  then show ?thesis using base mark by (auto simp: p retired_def leD)
qed

theorem gc_keeps_restore_chain_witness:
  "set [1 :: nat] \<inter> set [4, 7] = {} \<and> \<not> retired 7 (Some 4)"
proof -
  have "gc_plan_of 7 [4, 7] [\<lparr>li_epoch = 1, li_newest_ms = 10\<rparr>, \<lparr>li_epoch = 3, li_newest_ms = 900\<rparr>] (Some 2) False 1000 500 =
      Some \<lparr>gp_retired_below = 4, gp_record = True, gp_delete = [1]\<rparr>"
    by (simp add: gc_plan_of_def)
  from gc_keeps_restore_chain [OF _ this] show ?thesis by simp
qed

end
