(* ===== verification/Types.thy ===== *)
theory Types
  imports LogTier Pressure Wake
begin

text \<open>
  The vocabulary of the decision core (\<open>types.rs\<close>): what it is told (\<open>event\<close>), what it answers
  with (\<open>effect\<close>), and the records both carry. Structs are records, enums are datatypes with the source's
  constructors; the arguments of a constructor stand in the order of the source's fields. Where two
  enums share a variant name the constructor is written qualified, as in
  \<open>request_error.NodeFenced\<close> for \<open>RequestError::NodeFenced\<close>. Unsigned integers are numbers,
  \<open>i64\<close> and \<open>i32\<close> are \<open>int\<close>.
\<close>

record activity_snapshot =
  ac_acquired :: nat
  ac_proxied :: nat
  ac_expired_owner_leases :: nat
  ac_restored :: nat
  ac_advanced_epochs :: nat
  ac_handed_off :: nat
  ac_handoff_failed :: nat
  ac_rebalanced :: nat
  ac_rebalance_failed :: nat
  ac_remote_route_refreshes :: nat

definition activity_snapshot_default :: activity_snapshot where
  "activity_snapshot_default =
     \<lparr>ac_acquired = 0, ac_proxied = 0, ac_expired_owner_leases = 0, ac_restored = 0,
      ac_advanced_epochs = 0, ac_handed_off = 0, ac_handoff_failed = 0, ac_rebalanced = 0,
      ac_rebalance_failed = 0, ac_remote_route_refreshes = 0\<rparr>"

record presence_cell =
  pc_id :: cell_id
  pc_epoch :: epoch

record presence_snapshot =
  ps_serving :: bool
  ps_cells :: "presence_cell list"
  ps_activity :: activity_snapshot

datatype ownership_on_evict = Release | Sticky

record config =
  cf_max_resident :: nat
  cf_max_activations :: nat
  cf_max_evictions :: nat
  cf_max_releases :: nat
  cf_max_outbound_websockets :: nat
  cf_ownership_on_evict :: ownership_on_evict
  cf_require_node_lease :: bool
  cf_peer_protocol :: nat
  cf_operation_deadline_ms :: "nat option"
  cf_owner_log_recovery_backoff_ms :: nat
  cf_owner_log_recovery_attempts :: nat
  cf_alarm_resident_ms :: nat
  cf_idle_evict_ms :: "nat option"
  cf_pressure :: pressure_config

record owner_record =
  ow_node :: "node_id option"
  ow_epoch :: epoch
  ow_etag :: string

record node_lease_record =
  nl_node :: node_id
  nl_addr :: string
  nl_expires_ms :: nat
  nl_peer_protocol :: nat
  nl_generation :: string
  nl_log_state :: "log_state option"
  nl_etag :: string

record capacity_peer =
  cp_node :: node_id
  cp_addr :: string
  cp_expires_ms :: nat
  cp_peer_protocol :: nat
  cp_sampled_ms :: nat
  cp_owned_cells :: "nat option"
  cp_placement_weight :: "nat option"
  cp_bucket_format :: "nat option"
  cp_resident_cells :: nat
  cp_host_websockets :: nat
  cp_rss_bytes :: nat
  cp_in_use_bytes :: "nat option"
  cp_pressured :: bool
  cp_memory_headroom :: "bool option"
  cp_restoring :: nat
  cp_paced_handoff :: bool
  cp_rebalance_paused :: bool
  cp_draining :: bool

definition reports_adoption_capacity :: "capacity_peer \<Rightarrow> bool" where
  "reports_adoption_capacity p = (\<not> cp_pressured p \<and> cp_memory_headroom p \<noteq> Some False)"

record adopted_cell =
  ad_node :: node_id
  ad_addr :: string
  ad_epoch :: epoch
  ad_peer_protocol :: nat

record node_lease_spec =
  sp_addr :: string
  sp_peer_protocol :: nat
  sp_generation :: string
  sp_resume_generation :: "string option"
  sp_ttl_ms :: nat

datatype cas_guard = Absent | Match string

datatype halt_reason = NodeLeaseExpired | NodeLeaseMissing | NodeLeaseMismatch

datatype cas_outcome = Applied | Rejected

record restored_alarm =
  ra_at_ms :: int
  ra_covered :: bool

record restore_outcome =
  ro_restored :: bool
  ro_alarm :: "restored_alarm option"

datatype lease_cas_outcome = Applied string | Rejected

datatype timer =
    NodeLeaseRenew nat
  | NodeLeaseFence nat
  | CellAlarm cell_id nat
  | OperationDeadline op_id
  | QueuedActivation cell_id nat
  | OwnerLogRecoveryRetry cell_id nat

datatype channel =
    Response | Fetch | WsHibernatable | WsSelf | Service | CellRpc | R2 | Tcp | Queue | Sync

datatype proof_source = Fleet | Bucket

datatype failure = Definite | Ambiguous

datatype web_socket_kind = Hibernatable | Regular | Outbound

datatype wake_hint_scope = Owned | Fleet

datatype route = Local | Remote node_id string epoch nat

record worker_route =
  wr_cell :: cell_id
  wr_epoch :: epoch

datatype request_error =
    NodeUnavailable | ResolveFailed | AcquireFailed | RestoreFailed | RuntimeFailed
  | PublishFailed | NodeFenced | PeerIncompatible | CapacityExhausted | DurabilityUnproven

datatype evict_success = Evicted | AlreadyAbsent

datatype evict_refusal =
    NodeUnavailable | CellActive | CellTransitioning | AlarmImminent | AlarmUncovered
  | ConcurrencyLimit

datatype evict_cancellation = Activity | Alarm | NodeFenced

datatype evict_failure =
    Durability | DurabilityTimeout | RuntimeStop | ActorUnavailable | ReplyLost

datatype evict_error =
    Refused evict_refusal | Cancelled evict_cancellation | Failed evict_failure

fun evict_error_kind :: "evict_error \<Rightarrow> string" where
  "evict_error_kind (Refused _) = ''refused''"
| "evict_error_kind (Cancelled _) = ''cancelled''"
| "evict_error_kind (Failed _) = ''failed''"

fun evict_error_reason :: "evict_error \<Rightarrow> string" where
  "evict_error_reason (Refused evict_refusal.NodeUnavailable) = ''node_unavailable''"
| "evict_error_reason (Refused CellActive) = ''cell_active''"
| "evict_error_reason (Refused CellTransitioning) = ''cell_transitioning''"
| "evict_error_reason (Refused AlarmImminent) = ''alarm_imminent''"
| "evict_error_reason (Refused AlarmUncovered) = ''alarm_uncovered''"
| "evict_error_reason (Refused ConcurrencyLimit) = ''eviction_limit''"
| "evict_error_reason (Cancelled Activity) = ''new_activity''"
| "evict_error_reason (Cancelled Alarm) = ''alarm_activity''"
| "evict_error_reason (Cancelled evict_cancellation.NodeFenced) = ''node_fenced''"
| "evict_error_reason (Failed Durability) = ''durability_failed''"
| "evict_error_reason (Failed DurabilityTimeout) = ''durability_timeout''"
| "evict_error_reason (Failed RuntimeStop) = ''runtime_stop_failed''"
| "evict_error_reason (Failed ActorUnavailable) = ''actor_unavailable''"
| "evict_error_reason (Failed ReplyLost) = ''reply_lost''"

datatype eviction_admission = Absent | Pending

record local_cell =
  lc_id :: cell_id
  lc_epoch :: epoch
  lc_live :: bool

datatype stop_cause = Cleanup | Evict bool | Fence | Reset | Swap

record restore_spec =
  rs_epoch :: epoch
  rs_fresh :: bool
  rs_took_over :: bool
  rs_resume_local :: bool
  rs_prior :: "node_id option"

datatype (plugins only: code size) event =
    StartNodeLease nat nat node_lease_spec
  | SelfNodeLeaseRead op_id nat nat "(node_lease_record option, failure) result"
  | NodeLeaseCasCompleted op_id nat "(lease_cas_outcome, failure) result" "log_state option"
  | LocalCellsRead "(local_cell list, failure) result"
  | TimerFired timer nat nat
  | Request request_id cell_id
  | RequestAt request_id cell_id nat
  | CapacityRequestAt request_id cell_id nat
  | HandoffRequestAt request_id cell_id nat nat
  | WebSocketRequestAt request_id cell_id web_socket_id nat nat
  | GateRequestAt request_id cell_id nat
  | WorkerRequest request_id
  | BeginPreserve
  | Cancel request_id
  | ActivityFinished request_id
  | Output request_id channel "nat option" "nat option" "epoch option"
  | OutputAt request_id channel "nat option" "nat option" "epoch option" nat
  | DurableReached op_id "(nat, failure) result" proof_source
  | ExportTicket cell_id epoch nat nat
  | OwnershipVerified op_id "(unit, failure) result"
  | WebSocketOpened cell_id web_socket_id web_socket_kind
  | WebSocketClosed cell_id web_socket_id
  | AlarmObserved cell_id alarm_snapshot bool nat nat
  | AlarmFinished op_id cell_id epoch nat nat
      "(alarm_snapshot \<times> bool \<times> nat option, failure) result"
  | WakeHint cell_id int wake_hint_scope
  | WakeHintAt cell_id int wake_hint_scope nat
  | OwnerRead op_id nat "(owner_record option, failure) result"
  | NodeLogRecovered op_id "(unit, failure) result"
  | NudgeNodeLease nat nat
  | NodeLeaseRead op_id nat "(node_lease_record option, failure) result"
  | CapacityPeersRead op_id nat "(capacity_peer list, failure) result"
  | OwnerCasCompleted op_id "(cas_outcome, failure) result"
  | OwnerReleased op_id "(cas_outcome, failure) result"
  | SuccessorAdopted op_id "(adopted_cell, failure) result"
  | RestoreCompleted op_id "(restore_outcome, failure) result"
  | RuntimeStarted op_id "nat option" nat "(unit, failure) result"
  | GenerationChanged nat nat nat "string list"
  | Published op_id "(unit, failure) result"
  | DurabilityChecked op_id "(unit, failure) result"
  | RuntimeStopped op_id
  | RuntimeStopFailed op_id
  | RuntimeStopCancelled op_id
  | Evict cell_id
  | EvictRequested request_id cell_id nat
  | LoadSampled load nat
  | InvalidateRemote cell_id node_id epoch
  | NodeFenced
  | ReleaseAll
  | Rebalance nat

datatype (plugins only: code size) effect =
    EvictionAdmission request_id "(eviction_admission, evict_error) result"
  | EvictionFinished request_id "(evict_success, evict_error) result"
  | ScheduleTimer timer nat
  | ReadSelfNodeLease op_id
  | CasNodeLease op_id cas_guard node_lease_record "nat option"
  | ReadLocalCells
  | ReadOwner op_id cell_id
  | ReadNodeLease op_id cell_id node_id
  | RecoverNodeLog op_id cell_id node_id
  | ReadCapacityPeers op_id cell_id
  | CasOwner op_id cell_id cas_guard epoch bool
  | ReconcileWakeEntry cell_id alarm_snapshot
  | ReleaseOwner op_id cell_id epoch
  | AdoptReleased op_id cell_id epoch bool
  | CancelCellActivity cell_id "request_id list" "web_socket_id list" "op_id option" bool
  | Restore op_id cell_id restore_spec
  | StartRuntime op_id cell_id epoch
  | Publish op_id cell_id epoch
  | EnsureDurable op_id cell_id epoch bool
  | AwaitDurable op_id cell_id epoch nat
  | VerifyOwnership op_id cell_id epoch
  | StopRuntime op_id cell_id epoch stop_cause bool
  | AbandonEvictionStop op_id cell_id
  | FireAlarm op_id cell_id epoch int
  | Complete request_id "(route, request_error) result"
  | Release request_id channel "(unit, request_error) result"
  | ExportProven cell_id epoch nat "(unit, request_error) result"
  | CompleteWorker request_id "worker_route option"
  | CloseWebSocket cell_id web_socket_id
  | Halt int halt_reason

end
