(* ===== verification/FleetPolicy.thy ===== *)
theory FleetPolicy
  imports Types
begin

text \<open>
  Decisions a node takes from the leases of the whole fleet: which bucket format may be written during a rolling
  update (\<open>format.rs\<close>), the drain token and the first readiness of a joining node (\<open>drain.rs\<close>), and the
  balancing of ownership (\<open>rebalance.rs\<close>).

  The plain \<open>u128\<close> arithmetic of the balancing is arithmetic on natural numbers: the model has no wrap-around, which
  the code reaches only when the product of the cells owned in the fleet and a placement weight passes \<open>2 ^ 128\<close>, with
  at least two members near the ends of \<open>u64\<close>. Where the code saturates, so does the model.
\<close>

section \<open>Definitions\<close>

subsection \<open>The bucket format\<close>

definition BUCKET_FORMAT :: nat where
  "BUCKET_FORMAT = 2"

definition FIELDLESS_FORMAT :: nat where
  "FIELDLESS_FORMAT = 1"

definition live_peers :: "capacity_peer list \<Rightarrow> nat \<Rightarrow> capacity_peer list" where
  "live_peers peers now_ms = filter (\<lambda>p. now_ms < cp_expires_ms p) peers"

definition fleet_reads :: "capacity_peer list \<Rightarrow> nat \<Rightarrow> nat \<Rightarrow> bool" where
  "fleet_reads peers now_ms fmt =
     (let live = live_peers peers now_ms in
      live \<noteq> []
      \<and> list_all (\<lambda>p. fmt \<le> (case cp_bucket_format p of None \<Rightarrow> FIELDLESS_FORMAT | Some f \<Rightarrow> f)) live)"

subsection \<open>The drain token\<close>

record restoration_baseline =
  rb_node :: node_id
  rb_restoring :: nat

record drain_token =
  dt_node :: node_id
  dt_expires_ms :: nat
  dt_restoration_baseline :: "restoration_baseline list"

definition held_by_another :: "drain_token option \<Rightarrow> node_id \<Rightarrow> nat \<Rightarrow> bool" where
  "held_by_another existing node now_ms =
     (case existing of
        None \<Rightarrow> False
      | Some token \<Rightarrow> dt_node token \<noteq> node \<and> now_ms < dt_expires_ms token)"

definition may_claim :: "drain_token option \<Rightarrow> node_id \<Rightarrow> nat \<Rightarrow> bool" where
  "may_claim existing node now_ms = (\<not> held_by_another existing node now_ms)"

datatype fleet_unsettled =
    UnsettledDrain
  | Unreadable
  | SelfUnpublished
  | MemoryHeadroom node_id
  | Restoration nat nat
  | OwnershipSkew nat nat

definition max_opt :: "nat list \<Rightarrow> nat option" where
  "max_opt xs = (if xs = [] then None else Some (fold max xs 0))"

definition joining_contributes_successor_capacity :: "capacity_peer list \<Rightarrow> node_id \<Rightarrow> nat \<Rightarrow> bool" where
  "joining_contributes_successor_capacity peers node now_ms =
     (let live = live_peers peers now_ms in
      case List.find (\<lambda>p. cp_node p = node) live of
        None \<Rightarrow> False
      | Some joining \<Rightarrow>
          cp_paced_handoff joining
          \<and> (case max_opt (map cp_resident_cells (filter (\<lambda>p. cp_node p \<noteq> node) live)) of
               None \<Rightarrow> False
             | Some maximum \<Rightarrow> cp_resident_cells joining < maximum))"

definition joining_has_successor_capacity :: "capacity_peer list \<Rightarrow> node_id \<Rightarrow> nat \<Rightarrow> bool" where
  "joining_has_successor_capacity peers node now_ms =
     (joining_contributes_successor_capacity peers node now_ms
      \<and> (case List.find (\<lambda>p. cp_node p = node) (live_peers peers now_ms) of
           None \<Rightarrow> False
         | Some p \<Rightarrow> \<not> cp_pressured p \<and> cp_memory_headroom p = Some True))"

definition lacks_headroom :: "bool \<Rightarrow> node_id \<Rightarrow> capacity_peer \<Rightarrow> bool" where
  "lacks_headroom joining_has_capacity node p =
     (cp_memory_headroom p = Some False
      \<or> cp_pressured p
        \<and> \<not> (cp_node p \<noteq> node \<and> cp_memory_headroom p = Some True \<and> joining_has_capacity))"

definition restoration_maximum :: "drain_token \<Rightarrow> nat \<Rightarrow> node_id \<Rightarrow> nat" where
  "restoration_maximum token max_restoring node =
     (let baseline =
        (case List.find (\<lambda>b. rb_node b = node) (dt_restoration_baseline token) of
           None \<Rightarrow> 0
         | Some b \<Rightarrow> rb_restoring b)
      in sat_add baseline max_restoring)"

definition blocked_restoration ::
  "drain_token option \<Rightarrow> capacity_peer list \<Rightarrow> nat \<Rightarrow> (node_id \<times> nat \<times> nat) option" where
  "blocked_restoration existing live max_restoring =
     (case existing of
        None \<Rightarrow> None
      | Some token \<Rightarrow>
          min_by_key fst
            (map (\<lambda>p. (cp_node p, cp_restoring p, restoration_maximum token max_restoring (cp_node p)))
              (filter (\<lambda>p. restoration_maximum token max_restoring (cp_node p) < cp_restoring p) live)))"

definition u128_max :: nat where
  "u128_max = 340282366920938463463374607431768211455"

definition u128_sat :: "nat \<Rightarrow> nat" where
  "u128_sat x = min u128_max x"

definition successor_share :: "nat \<Rightarrow> nat \<Rightarrow> nat" where
  "successor_share owned count =
     (let numerator = u128_sat (owned * u128_sat (count + 1));
          denominator = u128_sat (count * count)
      in min (u128_sat (numerator + (denominator - 1)) div denominator) u64_max)"

definition fleet_status ::
  "drain_token option \<Rightarrow> node_id \<Rightarrow> nat \<Rightarrow> capacity_peer list \<Rightarrow> nat \<Rightarrow> (unit, fleet_unsettled) result" where
  "fleet_status existing node now_ms peers max_restoring =
     (let live = live_peers peers now_ms;
          lacking = map cp_node
            (filter (lacks_headroom (joining_has_successor_capacity peers node now_ms) node) live);
          incumbents = filter (\<lambda>p. cp_node p \<noteq> node) live;
          count = length incumbents;
          sum_owned = fold (\<lambda>p sum. sat_add sum (cp_resident_cells p)) incumbents 0;
          maximum = successor_share sum_owned count;
          current = (case max_opt (map cp_resident_cells incumbents) of None \<Rightarrow> 0 | Some m \<Rightarrow> m)
      in
        if held_by_another existing node now_ms then Err UnsettledDrain
        else if \<not> list_ex (\<lambda>p. cp_node p = node) live then Err SelfUnpublished
        else
          (case min_by_key (\<lambda>n. n) lacking of
             Some n \<Rightarrow> Err (MemoryHeadroom n)
           | None \<Rightarrow>
               (case blocked_restoration existing live max_restoring of
                  Some (_, current, maximum) \<Rightarrow> Err (Restoration current maximum)
                | None \<Rightarrow>
                    if 1 < count \<and> maximum < current
                       \<and> \<not> joining_contributes_successor_capacity peers node now_ms
                    then Err (OwnershipSkew current maximum)
                    else Ok ())))"

subsection \<open>Balancing\<close>

definition DEADBAND_PERCENT :: nat where
  "DEADBAND_PERCENT = 2"

record member =
  mb_peer :: capacity_peer
  mb_owned :: nat
  mb_weight :: nat

definition receives_from :: "member \<Rightarrow> node_id \<Rightarrow> bool" where
  "receives_from m self_node =
     (cp_node (mb_peer m) \<noteq> self_node \<and> \<not> cp_draining (mb_peer m) \<and> cp_restoring (mb_peer m) = 0
      \<and> reports_adoption_capacity (mb_peer m))"

text \<open>\<open>denser_le a b\<close> is \<open>a.denser(b) != Greater\<close>.\<close>

definition denser_le :: "member \<Rightarrow> member \<Rightarrow> bool" where
  "denser_le a b =
     (mb_owned a * mb_weight b < mb_owned b * mb_weight a
      \<or> mb_owned a * mb_weight b = mb_owned b * mb_weight a
        \<and> cp_node (mb_peer b) \<le> cp_node (mb_peer a))"

record fleet =
  fl_members :: "member list"
  fl_owned :: nat
  fl_weight :: nat

definition observe_peer :: "nat \<Rightarrow> nat \<Rightarrow> nat \<Rightarrow> capacity_peer \<Rightarrow> member option" where
  "observe_peer now_ms max_age_ms since_ms p =
     (let fresh = (since_ms < cp_sampled_ms p \<and> now_ms - cp_sampled_ms p \<le> max_age_ms) in
      if \<not> fresh \<or> \<not> cp_paced_handoff p \<or> cp_rebalance_paused p then None
      else
        (case (cp_owned_cells p, cp_placement_weight p) of
           (Some owned, Some weight) \<Rightarrow> Some \<lparr>mb_peer = p, mb_owned = owned, mb_weight = max weight 1\<rparr>
         | _ \<Rightarrow> None))"

fun observe_members :: "nat \<Rightarrow> nat \<Rightarrow> nat \<Rightarrow> capacity_peer list \<Rightarrow> member list option" where
  "observe_members now_ms max_age_ms since_ms [] = Some []"
| "observe_members now_ms max_age_ms since_ms (p # ps) =
     (case observe_peer now_ms max_age_ms since_ms p of
        None \<Rightarrow> None
      | Some m \<Rightarrow> map_option ((#) m) (observe_members now_ms max_age_ms since_ms ps))"

definition fleet_observe ::
  "capacity_peer list \<Rightarrow> node_id \<Rightarrow> nat \<Rightarrow> nat \<Rightarrow> nat \<Rightarrow> fleet option" where
  "fleet_observe peers self_node now_ms max_age_ms since_ms =
     (case observe_members now_ms max_age_ms since_ms (live_peers peers now_ms) of
        None \<Rightarrow> None
      | Some members \<Rightarrow>
          if \<not> list_ex (\<lambda>m. cp_node (mb_peer m) = self_node) members then None
          else Some \<lparr>fl_members = members, fl_owned = sum_list (map mb_owned members),
                     fl_weight = sum_list (map mb_weight members)\<rparr>)"

definition fleet_target :: "fleet \<Rightarrow> member \<Rightarrow> nat" where
  "fleet_target f m = div_ceil (fl_owned f * mb_weight m) (fl_weight f)"

definition fleet_room :: "fleet \<Rightarrow> member \<Rightarrow> nat" where
  "fleet_room f m =
     (let target = fleet_target f m;
          deadband = div_ceil (target * DEADBAND_PERCENT) 100
      in target - deadband - mb_owned m)"

text \<open>\<open>Iterator::max_by\<close>: the last of the greatest elements.\<close>

fun max_by :: "('a \<Rightarrow> 'a \<Rightarrow> bool) \<Rightarrow> 'a list \<Rightarrow> 'a option" where
  "max_by le [] = None"
| "max_by le (x # xs) = Some (fold (\<lambda>y best. if le best y then y else best) xs x)"

text \<open>\<open>slice::sort_by\<close>: a stable sort.\<close>

fun insert_by :: "('a \<Rightarrow> 'a \<Rightarrow> bool) \<Rightarrow> 'a \<Rightarrow> 'a list \<Rightarrow> 'a list" where
  "insert_by le x [] = [x]"
| "insert_by le x (y # ys) = (if le x y then x # y # ys else y # insert_by le x ys)"

definition sort_by :: "('a \<Rightarrow> 'a \<Rightarrow> bool) \<Rightarrow> 'a list \<Rightarrow> 'a list" where
  "sort_by le xs = foldr (insert_by le) xs []"

definition surplus ::
  "capacity_peer list \<Rightarrow> node_id \<Rightarrow> nat \<Rightarrow> nat \<Rightarrow> nat \<Rightarrow> nat \<Rightarrow> nat option" where
  "surplus peers self_node now_ms max_age_ms since_ms batch =
     (case fleet_observe peers self_node now_ms max_age_ms since_ms of
        None \<Rightarrow> None
      | Some f \<Rightarrow>
          (case max_by denser_le (fl_members f) of
             None \<Rightarrow> None
           | Some donor \<Rightarrow>
               if cp_node (mb_peer donor) \<noteq> self_node then None
               else
                 let over = mb_owned donor - fleet_target f donor;
                     room = sum_list (map (fleet_room f) (filter (\<lambda>m. receives_from m self_node) (fl_members f)));
                     count = min (min over room) batch
                 in if 0 < count then Some count else None))"

definition receivers :: "capacity_peer list \<Rightarrow> node_id \<Rightarrow> nat \<Rightarrow> nat \<Rightarrow> node_id list" where
  "receivers peers self_node now_ms max_age_ms =
     (case fleet_observe peers self_node now_ms max_age_ms 0 of
        None \<Rightarrow> []
      | Some f \<Rightarrow>
          map (\<lambda>m. cp_node (mb_peer m))
            (sort_by denser_le
              (filter (\<lambda>m. receives_from m self_node \<and> mb_owned m < fleet_target f m) (fl_members f))))"

subsection \<open>An example fleet\<close>

definition peer_of :: "node_id \<Rightarrow> nat \<Rightarrow> capacity_peer" where
  "peer_of node owned =
     \<lparr>cp_node = node, cp_addr = [], cp_expires_ms = 1000, cp_peer_protocol = 1, cp_sampled_ms = 500,
      cp_owned_cells = Some owned, cp_placement_weight = Some 1, cp_bucket_format = Some 2,
      cp_resident_cells = owned, cp_host_websockets = 0, cp_rss_bytes = 0, cp_in_use_bytes = None,
      cp_pressured = False, cp_memory_headroom = Some True, cp_restoring = 0, cp_paced_handoff = True,
      cp_rebalance_paused = False, cp_draining = False\<rparr>"

section \<open>Lemmas\<close>

lemma set_insert_by [simp]: "set (insert_by le x ys) = insert x (set ys)"
  by (induction ys) auto

lemma set_sort_by [simp]: "set (sort_by le xs) = set xs"
  by (induction xs) (auto simp: sort_by_def)

lemma fold_best_mem: "fold (\<lambda>y best. if le best y then y else best) xs x \<in> insert x (set xs)"
  by (induction xs arbitrary: x) auto

lemma max_by_mem: "max_by le xs = Some x \<Longrightarrow> x \<in> set xs"
  by (cases xs) (use fold_best_mem in force)+

text \<open>The density order compares fractions by cross multiplication; with positive weights it is a total preorder.\<close>

lemma cross_trans:
  fixes a b c u v w :: nat
  assumes "a * v \<le> b * u" "b * w \<le> c * v" "0 < v"
  shows "a * w \<le> c * u"
proof -
  have "a * v * w \<le> b * u * w" using assms(1) by simp
  also have "\<dots> = u * (b * w)" by (simp add: algebra_simps)
  also have "\<dots> \<le> u * (c * v)" using assms(2) by simp
  finally have "v * (a * w) \<le> v * (c * u)" by (simp add: algebra_simps)
  then show ?thesis using assms(3) by simp
qed

lemma denser_total: "denser_le a b \<or> denser_le b a"
  by (auto simp: denser_le_def)

lemma denser_trans:
  assumes "denser_le a b" "denser_le b c" "0 < mb_weight a" "0 < mb_weight b" "0 < mb_weight c"
  shows "denser_le a c"
proof -
  have ab: "mb_owned a * mb_weight b \<le> mb_owned b * mb_weight a"
    and bc: "mb_owned b * mb_weight c \<le> mb_owned c * mb_weight b"
    using assms(1,2) by (auto simp: denser_le_def)
  from cross_trans [OF ab bc assms(4)]
  have ac: "mb_owned a * mb_weight c \<le> mb_owned c * mb_weight a" .
  show ?thesis
  proof (cases "mb_owned a * mb_weight c = mb_owned c * mb_weight a")
    case True
    then have "mb_owned c * mb_weight a \<le> mb_owned a * mb_weight c" by simp
    from cross_trans [OF bc this assms(5)] cross_trans [OF this ab assms(3)]
    have "cp_node (mb_peer b) \<le> cp_node (mb_peer a)" "cp_node (mb_peer c) \<le> cp_node (mb_peer b)"
      using assms(1,2) by (auto simp: denser_le_def mult.commute)
    then show ?thesis using True by (auto simp: denser_le_def intro: order_trans)
  qed (use ac in \<open>simp add: denser_le_def\<close>)
qed

lemma fold_best_greatest:
  assumes "\<forall>m\<in>insert x (set xs). 0 < mb_weight m" "m \<in> insert x (set xs)"
  shows "denser_le m (fold (\<lambda>y best. if denser_le best y then y else best) xs x)"
  using assms
proof (induction xs arbitrary: x m)
  case Nil
  then show ?case using denser_total [of x x] by simp
next
  case (Cons y ys)
  let ?z = "if denser_le x y then y else x"
  let ?r = "fold (\<lambda>y best. if denser_le best y then y else best) ys ?z"
  have w: "\<forall>m\<in>insert ?z (set ys). 0 < mb_weight m" using Cons.prems(1) by simp
  have r: "0 < mb_weight ?r" using w fold_best_mem [of denser_le ys ?z] by blast
  have z: "denser_le ?z ?r" by (rule Cons.IH [OF w]) simp
  have "denser_le x ?z" "denser_le y ?z" using denser_total [of x y] denser_total [of x x] denser_total [of y y] by auto
  then have "denser_le x ?r" "denser_le y ?r"
    using denser_trans [OF _ z] w r Cons.prems(1) by auto
  then show ?case using Cons.prems(2) Cons.IH [OF w] by auto
qed

lemma max_by_greatest:
  assumes "max_by denser_le xs = Some x" "\<forall>m\<in>set xs. 0 < mb_weight m" "m \<in> set xs"
  shows "denser_le m x"
  using assms fold_best_greatest [of "hd xs" "tl xs" m] by (cases xs) auto

lemma observe_peer_since:
  "observe_peer now_ms max_age_ms since_ms p = Some m \<Longrightarrow> observe_peer now_ms max_age_ms 0 p = Some m"
  by (auto simp: observe_peer_def Let_def split: if_splits)

lemma observe_members_since:
  "observe_members now_ms max_age_ms since_ms ps = Some ms \<Longrightarrow> observe_members now_ms max_age_ms 0 ps = Some ms"
  by (induction ps arbitrary: ms) (auto split: option.splits dest: observe_peer_since)

lemma observe_members_weight:
  "observe_members now_ms max_age_ms since_ms ps = Some ms \<Longrightarrow> m \<in> set ms \<Longrightarrow> 0 < mb_weight m"
  by (induction ps arbitrary: ms)
    (auto simp: observe_peer_def Let_def split: option.splits if_splits)

lemma fleet_observe_since:
  "fleet_observe peers self_node now_ms max_age_ms since_ms = Some f \<Longrightarrow>
   fleet_observe peers self_node now_ms max_age_ms 0 = Some f"
  by (auto simp: fleet_observe_def split: option.splits if_splits dest: observe_members_since)

lemma fleet_observe_weight:
  "fleet_observe peers self_node now_ms max_age_ms since_ms = Some f \<Longrightarrow> m \<in> set (fl_members f) \<Longrightarrow> 0 < mb_weight m"
  by (auto simp: fleet_observe_def split: option.splits if_splits dest: observe_members_weight)

lemma room_below_target: "fleet_room f m \<le> fleet_target f m - mb_owned m"
  by (simp add: fleet_room_def Let_def)

lemma receivers_have_room:
  assumes "fleet_observe peers self_node now_ms max_age_ms since_ms = Some f"
    "m \<in> set (fl_members f)" "receives_from m self_node" "0 < fleet_room f m"
  shows "cp_node (mb_peer m) \<in> set (receivers peers self_node now_ms max_age_ms)"
  using assms(2-) room_below_target [of f m] fleet_observe_since [OF assms(1)]
  by (auto simp: receivers_def)

lemma fold_max_ge:
  fixes xs :: "nat list"
  shows "y \<le> fold max xs y \<and> (x \<in> set xs \<longrightarrow> x \<le> fold max xs y)"
proof (induction xs arbitrary: y)
  case (Cons z xs)
  from Cons [of "max z y"] show ?case by auto
qed simp

lemma max_opt_ge: "x \<in> set xs \<Longrightarrow> \<exists>m. max_opt xs = Some m \<and> x \<le> m"
  using fold_max_ge [of 0 xs x] by (auto simp: max_opt_def)

lemma fold_max_exceeds: "bound < fold max ys a \<longleftrightarrow> bound < a \<or> (\<exists>y\<in>set ys. bound < y)" for bound :: nat
  by (induction ys arbitrary: a) (simp_all add: less_max_iff_disj disj_ac)

lemma max_opt_exceeds:
  "bound < (case max_opt (map f xs) of None \<Rightarrow> 0 | Some m \<Rightarrow> m) \<longleftrightarrow> (\<exists>x\<in>set xs. bound < f x)"
  by (cases xs) (simp_all only: max_opt_def option.case if_True if_False fold_max_exceeds list.map list.distinct refl, simp_all)

lemma fold_sat_add: "fold (\<lambda>x sum. sat_add sum (f x)) xs 0 = min u64_max (\<Sum>x\<leftarrow>xs. f x)"
proof -
  have "fold (\<lambda>x sum. sat_add sum (f x)) xs a = min u64_max (a + (\<Sum>x\<leftarrow>xs. f x))" if "a \<le> u64_max" for a
    using that by (induction xs arbitrary: a) (auto simp: sat_add_def min_def)
  then show ?thesis by simp
qed

lemma div_ceil_ge: "0 < d \<Longrightarrow> c \<le> (a + (d - 1)) div d \<longleftrightarrow> c * d < a + d" for a c d :: nat
  by (auto simp: less_eq_div_iff_mult_less_eq)

text \<open>On \<open>u64\<close> cells and a fleet of less than \<open>2 ^ 62\<close> nodes nothing of the share saturates.\<close>

lemma successor_share_bound:
  assumes "c \<le> u64_max" "owned \<le> u64_max" "0 < n" "n < 2 ^ 62"
  shows "c \<le> successor_share owned n \<longleftrightarrow> c * n ^ 2 < owned * (n + 1) + n ^ 2"
proof -
  have "n * n \<le> 2 ^ 62 * 2 ^ 62" using assms(4) by (intro mult_mono) simp_all
  moreover have "owned * (n + 1) \<le> u64_max * 2 ^ 62" using assms(2,4) by (intro mult_mono) simp_all
  moreover have "u64_max * 2 ^ 62 + 2 ^ 62 * 2 ^ 62 \<le> u128_max" by (simp add: u128_max_def u64_max_def)
  ultimately have fits: "owned * (n + 1) + n * n \<le> u128_max" by linarith
  have "2 ^ 62 \<le> u128_max" by (simp add: u128_max_def)
  then have "n + 1 \<le> u128_max" using assms(4) by linarith
  with fits have sat: "u128_sat (n + 1) = n + 1" "u128_sat (n * n) = n * n"
    "u128_sat (owned * (n + 1)) = owned * (n + 1)"
    "u128_sat (owned * (n + 1) + (n * n - 1)) = owned * (n + 1) + (n * n - 1)"
    unfolding u128_sat_def by linarith+
  show ?thesis
    using assms(1) div_ceil_ge [of "n * n" c "owned * (n + 1)"] assms(3)
    unfolding successor_share_def Let_def sat power2_eq_square by simp
qed

lemma settled_nodes:
  "filter (lacks_headroom capacity node) live = [] \<and> blocked_restoration existing live max_restoring = None \<and> rest \<longleftrightarrow>
     (\<forall>p\<in>set live. cp_memory_headroom p \<noteq> Some False
        \<and> (cp_pressured p \<longrightarrow> cp_node p \<noteq> node \<and> cp_memory_headroom p = Some True \<and> capacity)
        \<and> (\<forall>token. existing = Some token \<longrightarrow> cp_restoring p \<le> restoration_maximum token max_restoring (cp_node p)))
     \<and> rest"
  by (cases existing)
    (auto simp: filter_empty_conv lacks_headroom_def blocked_restoration_def min_by_key_None not_less)

section \<open>Properties\<close>

text \<open>
  C36. A batch of the balancer is safe for every member of the fleet it counted: it comes from the densest member
  only, leaves that member at or above its own target, fits in the room below the targets of the peers that
  accept cells, and each peer whose room was counted is offered to the executor, so that no released cell lacks
  a receiver.
\<close>

theorem surplus_fits_the_fleet:
  assumes "surplus peers self_node now_ms max_age_ms since_ms batch = Some n"
  shows "\<exists>f donor. fleet_observe peers self_node now_ms max_age_ms since_ms = Some f
    \<and> donor \<in> set (fl_members f) \<and> cp_node (mb_peer donor) = self_node
    \<and> (\<forall>m\<in>set (fl_members f). denser_le m donor)
    \<and> 0 < n \<and> n \<le> batch \<and> fleet_target f donor + n \<le> mb_owned donor
    \<and> n \<le> (\<Sum>m\<leftarrow>filter (\<lambda>m. receives_from m self_node) (fl_members f). fleet_target f m - mb_owned m)
    \<and> (\<forall>m\<in>set (fl_members f). receives_from m self_node \<and> 0 < fleet_room f m
         \<longrightarrow> cp_node (mb_peer m) \<in> set (receivers peers self_node now_ms max_age_ms))
    \<and> receivers peers self_node now_ms max_age_ms \<noteq> []"
proof -
  obtain f where f: "fleet_observe peers self_node now_ms max_age_ms since_ms = Some f"
    using assms by (auto simp: surplus_def split: option.splits)
  obtain donor where donor: "max_by denser_le (fl_members f) = Some donor"
    using assms by (auto simp: surplus_def f split: option.splits)
  let ?room = "\<Sum>m\<leftarrow>filter (\<lambda>m. receives_from m self_node) (fl_members f). fleet_room f m"
  have n: "cp_node (mb_peer donor) = self_node" "n \<le> batch" "n \<le> ?room" "n \<le> mb_owned donor - fleet_target f donor" "0 < n"
    using assms by (auto simp: surplus_def f donor Let_def split: if_splits)
  have "?room \<le> (\<Sum>m\<leftarrow>filter (\<lambda>m. receives_from m self_node) (fl_members f). fleet_target f m - mb_owned m)"
    by (rule sum_list_mono) (rule room_below_target)
  then have share: "n \<le> (\<Sum>m\<leftarrow>filter (\<lambda>m. receives_from m self_node) (fl_members f). fleet_target f m - mb_owned m)"
    using n(3) by linarith
  have "0 < ?room" using n(3,5) by linarith
  then obtain m where m: "m \<in> set (fl_members f)" "receives_from m self_node" "0 < fleet_room f m"
    by (fastforce simp: sum_list_eq_0_iff simp flip: neq0_conv)
  have over: "fleet_target f donor + n \<le> mb_owned donor" using n(4,5) by linarith
  have offered: "\<forall>m\<in>set (fl_members f). receives_from m self_node \<and> 0 < fleet_room f m
      \<longrightarrow> cp_node (mb_peer m) \<in> set (receivers peers self_node now_ms max_age_ms)"
    using receivers_have_room [OF f] by blast
  then have "receivers peers self_node now_ms max_age_ms \<noteq> []" using m by auto
  then show ?thesis
    using n(1,2,5) f over share offered max_by_mem [OF donor] max_by_greatest [OF donor] fleet_observe_weight [OF f]
    by blast
qed

theorem surplus_fits_the_fleet_witness:
  "surplus [peer_of ''a'' 100, peer_of ''b'' 0] ''a'' 600 1000 0 8 = Some 8
   \<and> receivers [peer_of ''a'' 100, peer_of ''b'' 0] ''a'' 600 1000 \<noteq> []"
proof -
  have "surplus [peer_of ''a'' 100, peer_of ''b'' 0] ''a'' 600 1000 0 8 = Some 8" by code_simp
  with surplus_fits_the_fleet [OF this] show ?thesis by blast
qed

text \<open>
  C37. When a joining node becomes ready, exactly. No other node holds a live drain token; its own lease is live; no
  live node reports missing memory headroom, and a pressured one is another node that reports headroom while the
  joining node can take its place; under a drain token no live node restores more than its level when the donor began
  plus the local budget; and when at least two incumbents are live and the joining node does not absorb the skew, no
  incumbent holds more cells than \<open>total * (n + 1) / n ^ 2\<close> rounded up, the share of the \<open>n\<close> incumbents. The counts of
  cells are \<open>u64\<close> and the fleet has fewer than \<open>2 ^ 62\<close> leases, so that only the sum of the cells can saturate.
\<close>

theorem ready_only_when_settled:
  assumes "\<forall>p\<in>set peers. cp_resident_cells p \<le> u64_max" "length peers < 2 ^ 62"
  shows "fleet_status existing node now_ms peers max_restoring = Ok () \<longleftrightarrow>
    (let live = live_peers peers now_ms;
         incumbents = filter (\<lambda>p. cp_node p \<noteq> node) live;
         n = length incumbents;
         total_cells = min u64_max (\<Sum>p\<leftarrow>incumbents. cp_resident_cells p) in
     may_claim existing node now_ms
     \<and> (\<exists>p\<in>set live. cp_node p = node)
     \<and> (\<forall>p\<in>set live. cp_memory_headroom p \<noteq> Some False
          \<and> (cp_pressured p \<longrightarrow> cp_node p \<noteq> node \<and> cp_memory_headroom p = Some True
               \<and> joining_has_successor_capacity peers node now_ms)
          \<and> (\<forall>token. existing = Some token \<longrightarrow> cp_restoring p \<le> restoration_maximum token max_restoring (cp_node p)))
     \<and> (2 \<le> n \<and> \<not> joining_contributes_successor_capacity peers node now_ms \<longrightarrow>
          (\<forall>p\<in>set incumbents. cp_resident_cells p * n ^ 2 < total_cells * (n + 1) + n ^ 2)))"
proof -
  define live where "live = live_peers peers now_ms"
  define incumbents where "incumbents = filter (\<lambda>p. cp_node p \<noteq> node) live"
  define n where "n = length incumbents"
  define owned where "owned = min u64_max (\<Sum>p\<leftarrow>incumbents. cp_resident_cells p)"
  have sum: "fold (\<lambda>p sum. sat_add sum (cp_resident_cells p)) incumbents 0 = owned"
    by (simp add: fold_sat_add owned_def)
  have incumbent: "cp_resident_cells p \<le> u64_max" if "p \<in> set incumbents" for p
    using that assms(1) by (auto simp: incumbents_def live_def live_peers_def)
  have "n \<le> length peers" unfolding n_def incumbents_def live_def live_peers_def
    by (meson length_filter_le order_trans)
  then have n: "n < 2 ^ 62" using assms(2) by simp
  have share: "cp_resident_cells p \<le> successor_share owned n \<longleftrightarrow> cp_resident_cells p * n ^ 2 < owned * (n + 1) + n ^ 2"
    if "2 \<le> n" "p \<in> set incumbents" for p
    using successor_share_bound [OF incumbent [OF that(2)], of owned n] that(1) n by (simp add: owned_def)
  have status: "fleet_status existing node now_ms peers max_restoring = Ok () \<longleftrightarrow>
      \<not> held_by_another existing node now_ms \<and> list_ex (\<lambda>p. cp_node p = node) live
      \<and> filter (lacks_headroom (joining_has_successor_capacity peers node now_ms) node) live = []
      \<and> blocked_restoration existing live max_restoring = None
      \<and> (2 \<le> n \<and> \<not> joining_contributes_successor_capacity peers node now_ms \<longrightarrow>
          (\<forall>p\<in>set incumbents. cp_resident_cells p \<le> successor_share owned n))"
    unfolding fleet_status_def Let_def live_def [symmetric] incumbents_def [symmetric] n_def [symmetric] sum
      max_opt_exceeds
    by (auto simp: min_by_key_None not_le split: option.split)
  show ?thesis
    unfolding Let_def live_def [symmetric] incumbents_def [symmetric] n_def [symmetric] owned_def [symmetric] status
      settled_nodes using share by (auto simp: may_claim_def list_ex_iff)
qed

theorem ready_only_when_settled_witness:
  "fleet_status None ''b'' 600 [peer_of ''a'' 100, peer_of ''b'' 100, peer_of ''c'' 100] 4 = Ok ()
   \<and> fleet_status None ''b'' 600 [peer_of ''a'' 100, peer_of ''b'' 100, peer_of ''c'' 20] 4 \<noteq> Ok ()"
proof -
  have "\<forall>p\<in>set [peer_of ''a'' 100, peer_of ''b'' 100, peer_of ''c'' k]. cp_resident_cells p \<le> u64_max" if "k \<le> 100" for k
    using that by (simp add: peer_of_def u64_max_def)
  note status = ready_only_when_settled [OF this, of _ None "''b''" 600 4]
  show ?thesis
    using status [of 100] status [of 20]
    by (auto simp: Let_def live_peers_def may_claim_def held_by_another_def peer_of_def u64_max_def
        joining_contributes_successor_capacity_def max_opt_def power2_eq_square conj_disj_distribR ex_disj_distrib)
qed

end
