(* ===== verification/Text.thy ===== *)
theory Text
  imports Wake
begin

text \<open>
  What the policies use of Rust's text library: ASCII classes and case, numbers, prefixes and suffixes, and the
  white space of \<open>split_whitespace\<close> and \<open>trim\<close>. Strings are the bytes of UTF-8 text, so a white-space character
  outside ASCII is the byte sequence that encodes it.
\<close>

section \<open>Definitions\<close>

definition ascii_digit :: "char \<Rightarrow> bool" where
  "ascii_digit c = (let n = (of_char c :: nat) in 48 \<le> n \<and> n \<le> 57)"

definition ascii_hexdigit :: "char \<Rightarrow> bool" where
  "ascii_hexdigit c = (hex_digit c \<noteq> None)"

definition to_lower :: "char \<Rightarrow> char" where
  "to_lower c = (let n = (of_char c :: nat) in if 65 \<le> n \<and> n \<le> 90 then char_of (n + 32) else c)"

definition eq_ignore_ascii_case :: "string \<Rightarrow> string \<Rightarrow> bool" where
  "eq_ignore_ascii_case a b = (map to_lower a = map to_lower b)"

definition number_of :: "nat \<Rightarrow> string \<Rightarrow> nat" where
  "number_of radix s = fold (\<lambda>c n. n * radix + (case hex_digit c of None \<Rightarrow> 0 | Some d \<Rightarrow> d)) s 0"

definition strip_suffix :: "string \<Rightarrow> string \<Rightarrow> string option" where
  "strip_suffix p s = map_option rev (strip_prefix (rev p) (rev s))"

text \<open>The number of bytes of the white-space character a text starts with, and zero when it starts with none.\<close>

definition space_codes :: "nat list list" where
  "space_codes =
     [[9], [10], [11], [12], [13], [32], [0xC2, 0x85], [0xC2, 0xA0], [0xE1, 0x9A, 0x80],
      [0xE2, 0x80, 0x80], [0xE2, 0x80, 0x81], [0xE2, 0x80, 0x82], [0xE2, 0x80, 0x83], [0xE2, 0x80, 0x84],
      [0xE2, 0x80, 0x85], [0xE2, 0x80, 0x86], [0xE2, 0x80, 0x87], [0xE2, 0x80, 0x88], [0xE2, 0x80, 0x89],
      [0xE2, 0x80, 0x8A], [0xE2, 0x80, 0xA8], [0xE2, 0x80, 0xA9], [0xE2, 0x80, 0xAF], [0xE2, 0x81, 0x9F],
      [0xE3, 0x80, 0x80]]"

definition space_length :: "string \<Rightarrow> nat" where
  "space_length s =
     (case List.find (\<lambda>w. map of_char (take (length w) s) = w) space_codes of None \<Rightarrow> 0 | Some w \<Rightarrow> length w)"

function words_from :: "string \<Rightarrow> string \<Rightarrow> string list" where
  "words_from word [] = (if word = [] then [] else [word])"
| "words_from word (c # s) =
     (if space_length (c # s) = 0 then words_from (word @ [c]) s
      else (if word = [] then [] else [word]) @ words_from [] (drop (space_length (c # s)) (c # s)))"
  by pat_completeness auto
termination
  by (relation "measure (\<lambda>(_, s). length s)") auto

definition split_whitespace :: "string \<Rightarrow> string list" where
  "split_whitespace s = words_from [] s"

function trim_start :: "string \<Rightarrow> string" where
  "trim_start s = (if s = [] \<or> space_length s = 0 then s else trim_start (drop (space_length s) s))"
  by auto
termination
  by (relation "measure length") auto

declare trim_start.simps [simp del]

fun trim_end :: "string \<Rightarrow> string" where
  "trim_end [] = []"
| "trim_end (c # s) = (if trim_start (c # s) = [] then [] else c # trim_end s)"

definition trim :: "string \<Rightarrow> string" where
  "trim s = trim_end (trim_start s)"

section \<open>Lemmas\<close>

lemma strip_prefix_Some: "strip_prefix p s = Some t \<longleftrightarrow> s = p @ t"
  by (auto simp: strip_prefix_def) (metis append_take_drop_id)

lemma strip_suffix_Some: "strip_suffix p s = Some t \<longleftrightarrow> s = t @ p"
  by (auto simp: strip_suffix_def strip_prefix_Some) (metis rev_append rev_rev_ident)+

lemma split_once_Some:
  assumes "split_once c s = Some (a, b)"
  shows "s = a @ c # b"
proof -
  have c: "c \<in> set s" and a: "a = takeWhile (\<lambda>x. x \<noteq> c) s" and b: "b = tl (dropWhile (\<lambda>x. x \<noteq> c) s)"
    using assms by (auto simp: split_once_def split: if_splits)
  obtain d ds where d: "dropWhile (\<lambda>x. x \<noteq> c) s = d # ds"
    using c by (cases "dropWhile (\<lambda>x. x \<noteq> c) s") auto
  then have "d = c" using hd_dropWhile [of "\<lambda>x. x \<noteq> c" s] by simp
  then show ?thesis unfolding a b using takeWhile_dropWhile_id [of "\<lambda>x. x \<noteq> c" s] d by simp
qed

end
