(* ===== verification/HttpAuthority.thy ===== *)
theory HttpAuthority
  imports Text
begin

text \<open>
  The authority of \<open>request.url\<close> (\<open>http.rs\<close>): which values of a client-controlled header may be put between
  the scheme and the path of a URL. The IPv6 parser is the standard library's (a recursive-descent parser that
  reads groups of hexadecimal digits, one run of zeros and an embedded IPv4 address); only what it accepts is
  modelled, since the source drops the address it parses. Strings are byte strings.
\<close>

section \<open>Definitions\<close>

subsection \<open>The address parsers of the standard library\<close>

definition read_number :: "(char \<Rightarrow> bool) \<Rightarrow> nat \<Rightarrow> nat \<Rightarrow> bool \<Rightarrow> nat \<Rightarrow> string \<Rightarrow> string option" where
  "read_number digit radix max_digits allow_zero_prefix limit s =
     (let digits = takeWhile digit s in
      if digits = [] \<or> max_digits < length digits
         \<or> \<not> allow_zero_prefix \<and> hd digits = CHR ''0'' \<and> 1 < length digits
         \<or> limit < number_of radix digits
      then None
      else Some (drop (length digits) s))"

definition read_octet :: "string \<Rightarrow> string option" where
  "read_octet = read_number ascii_digit 10 3 False 255"

definition read_group :: "string \<Rightarrow> string option" where
  "read_group = read_number ascii_hexdigit 16 4 True 65535"

definition read_given_char :: "char \<Rightarrow> string \<Rightarrow> string option" where
  "read_given_char c s = (case s of [] \<Rightarrow> None | x # xs \<Rightarrow> if x = c then Some xs else None)"

definition read_separator :: "char \<Rightarrow> nat \<Rightarrow> (string \<Rightarrow> string option) \<Rightarrow> string \<Rightarrow> string option" where
  "read_separator sep i inner s =
     (if 0 < i then (case read_given_char sep s of None \<Rightarrow> None | Some s \<Rightarrow> inner s) else inner s)"

fun read_octets :: "nat list \<Rightarrow> string \<Rightarrow> string option" where
  "read_octets [] s = Some s"
| "read_octets (i # is) s =
     (case read_separator CHR ''.'' i read_octet s of None \<Rightarrow> None | Some s \<Rightarrow> read_octets is s)"

definition read_ipv4_addr :: "string \<Rightarrow> string option" where
  "read_ipv4_addr s = read_octets [0, 1, 2, 3] s"

function read_groups :: "nat \<Rightarrow> nat \<Rightarrow> string \<Rightarrow> nat \<times> bool \<times> string" where
  "read_groups i limit s =
     (if limit \<le> i then (limit, False, s)
      else
        (case (if i < limit - 1 then read_separator CHR '':'' i read_ipv4_addr s else None) of
           Some s \<Rightarrow> (i + 2, True, s)
         | None \<Rightarrow>
             (case read_separator CHR '':'' i read_group s of
                Some s \<Rightarrow> read_groups (i + 1) limit s
              | None \<Rightarrow> (i, False, s))))"
  by auto
termination
  by (relation "measure (\<lambda>(i, limit, _). limit - i)") auto

declare read_groups.simps [simp del]

definition read_ipv6_addr :: "string \<Rightarrow> string option" where
  "read_ipv6_addr s =
     (case read_groups 0 8 s of
        (head_size, head_ipv4, s) \<Rightarrow>
          if head_size = 8 then Some s
          else if head_ipv4 then None
          else
            (case read_given_char CHR '':'' s of
               None \<Rightarrow> None
             | Some s \<Rightarrow>
                 (case read_given_char CHR '':'' s of
                    None \<Rightarrow> None
                  | Some s \<Rightarrow>
                      (case read_groups 0 (8 - (head_size + 1)) s of (_, _, s) \<Rightarrow> Some s))))"

definition parses_as_ipv6 :: "string \<Rightarrow> bool" where
  "parses_as_ipv6 s = (read_ipv6_addr s = Some [])"

subsection \<open>Authorities\<close>

definition MAX_AUTHORITY :: nat where
  "MAX_AUTHORITY = 260"

definition MAX_PORT :: nat where
  "MAX_PORT = 65535"

datatype authority_decision_kind = Reject | Use string | NeedsUrlParser string

definition valid_port :: "string \<Rightarrow> bool" where
  "valid_port port = (port \<noteq> [] \<and> list_all ascii_digit port \<and> number_of 10 port \<le> MAX_PORT)"

definition valid_octet :: "string \<Rightarrow> bool" where
  "valid_octet octet =
     (octet \<noteq> [] \<and> list_all ascii_digit octet \<and> (octet = ''0'' \<or> hd octet \<noteq> CHR ''0'') \<and> number_of 10 octet \<le> 255)"

definition reads_as_number :: "string \<Rightarrow> bool" where
  "reads_as_number label =
     (case (case strip_prefix ''0x'' label of None \<Rightarrow> strip_prefix ''0X'' label | Some digits \<Rightarrow> Some digits) of
        Some digits \<Rightarrow> list_all ascii_hexdigit digits
      | None \<Rightarrow> label \<noteq> [] \<and> list_all ascii_digit label)"

definition valid_reg_name :: "string \<Rightarrow> bool" where
  "valid_reg_name name =
     (if name = [] \<or> \<not> list_all (\<lambda>b. ascii_alphanumeric b \<or> b \<in> {CHR ''_'', CHR ''-'', CHR ''.''}) name then False
      else
        let labels = split_on CHR ''.'' (case strip_suffix ''.'' name of None \<Rightarrow> name | Some n \<Rightarrow> n) in
        if reads_as_number (last labels) then length labels = 4 \<and> list_all valid_octet labels else True)"

definition split_port :: "string \<Rightarrow> string \<times> string" where
  "split_port authority = (takeWhile (\<lambda>c. c \<noteq> CHR '':'') authority, dropWhile (\<lambda>c. c \<noteq> CHR '':'') authority)"

definition valid_after_host :: "string \<Rightarrow> bool" where
  "valid_after_host after_host =
     (case strip_prefix '':'' after_host of Some port \<Rightarrow> valid_port port | None \<Rightarrow> after_host = [])"

definition valid_authority :: "string \<Rightarrow> bool" where
  "valid_authority authority =
     (if authority = [] \<or> MAX_AUTHORITY < length authority then False
      else
        (case strip_prefix ''['' authority of
           Some tail \<Rightarrow>
             (case split_once CHR '']'' tail of
                None \<Rightarrow> False
              | Some (literal, after_host) \<Rightarrow>
                  if \<not> parses_as_ipv6 literal then False else valid_after_host after_host)
         | None \<Rightarrow>
             (case split_port authority of
                (name, after_host) \<Rightarrow>
                  if \<not> valid_reg_name name then False else valid_after_host after_host)))"

definition has_idn_label :: "string \<Rightarrow> bool" where
  "has_idn_label authority =
     list_ex (\<lambda>label. 4 \<le> length label \<and> eq_ignore_ascii_case (take 4 label) ''xn--'') (split_on CHR ''.'' authority)"

definition authority_decision :: "string \<Rightarrow> authority_decision_kind" where
  "authority_decision authority =
     (if \<not> valid_authority authority then Reject
      else if has_idn_label authority then NeedsUrlParser authority
      else Use authority)"

definition canonical_scheme :: "string \<Rightarrow> string option" where
  "canonical_scheme scheme =
     (if eq_ignore_ascii_case scheme ''http'' then Some ''http''
      else if eq_ignore_ascii_case scheme ''https'' then Some ''https''
      else None)"

subsection \<open>What the properties speak of\<close>

definition authority_char :: "char \<Rightarrow> bool" where
  "authority_char c =
     (ascii_alphanumeric c \<or> c \<in> {CHR ''_'', CHR ''-'', CHR ''.'', CHR '':'', CHR ''['', CHR '']''})"

definition ends_authority :: "char \<Rightarrow> bool" where
  "ends_authority c = (c \<in> {CHR ''/'', CHR ''?'', CHR ''#'', CHR 0x5C})"

definition consumes :: "string \<Rightarrow> string \<Rightarrow> bool" where
  "consumes s t = (\<exists>u. s = u @ t \<and> list_all authority_char u)"

section \<open>Lemmas\<close>

lemma hexdigit_authority: "ascii_hexdigit c \<Longrightarrow> authority_char c"
  by (auto simp: ascii_hexdigit_def hex_digit_def authority_char_def ascii_alphanumeric_def less_eq_char_def Let_def
      split: if_splits)

lemma digit_authority: "ascii_digit c \<Longrightarrow> authority_char c"
  by (auto simp: ascii_digit_def authority_char_def ascii_alphanumeric_def less_eq_char_def Let_def)

lemma authority_char_graphic:
  assumes "authority_char c"
  shows "32 < (of_char c :: nat) \<and> (of_char c :: nat) < 127 \<and> \<not> ends_authority c \<and> c \<noteq> CHR ''@''"
  using assms by (auto simp: authority_char_def ascii_alphanumeric_def less_eq_char_def ends_authority_def)

lemma consumes_refl: "consumes s s"
  by (simp add: consumes_def)

lemma consumes_trans: "consumes s t \<Longrightarrow> consumes t u \<Longrightarrow> consumes s u"
  by (auto simp: consumes_def)

lemma read_number_consumes:
  assumes "read_number digit radix max_digits zero limit s = Some t" "\<And>c. digit c \<Longrightarrow> authority_char c"
  shows "consumes s t"
proof -
  have t: "t = drop (length (takeWhile digit s)) s"
    using assms(1) by (simp add: read_number_def Let_def split: if_splits)
  have "s = takeWhile digit s @ t" unfolding t by (metis dropWhile_eq_drop takeWhile_dropWhile_id)
  moreover have "list_all authority_char (takeWhile digit s)"
    using assms(2) by (auto simp: list_all_iff dest: set_takeWhileD)
  ultimately show ?thesis unfolding consumes_def by blast
qed

lemma read_given_char_consumes: "read_given_char c s = Some t \<Longrightarrow> authority_char c \<Longrightarrow> consumes s t"
  by (cases s) (auto simp: read_given_char_def consumes_def split: if_splits)

lemma read_separator_consumes:
  assumes "read_separator sep i inner s = Some t" "authority_char sep" "\<And>s t. inner s = Some t \<Longrightarrow> consumes s t"
  shows "consumes s t"
  using assms
  by (auto simp: read_separator_def split: if_splits option.splits
      intro: consumes_trans [OF read_given_char_consumes])

lemma separators: "authority_char CHR ''.''" "authority_char CHR '':''"
  by (simp_all add: authority_char_def)

lemma read_octets_consumes: "read_octets is s = Some t \<Longrightarrow> consumes s t"
proof (induction "is" s arbitrary: t rule: read_octets.induct)
  case (2 i "is" s)
  then obtain s' where s': "read_separator CHR ''.'' i read_octet s = Some s'" "read_octets is s' = Some t"
    by (auto split: option.splits)
  have "consumes s s'"
    by (rule read_separator_consumes [OF s'(1) separators(1)])
      (auto simp: read_octet_def intro: read_number_consumes digit_authority)
  then show ?case using 2 s' by (blast intro: consumes_trans)
qed (simp add: consumes_refl)

lemma read_groups_consumes: "read_groups i limit s = (n, ipv4, t) \<Longrightarrow> consumes s t"
proof (induction i limit s arbitrary: n ipv4 t rule: read_groups.induct)
  case (1 i limit s)
  have four: "consumes s s'" if "read_separator CHR '':'' i read_ipv4_addr s = Some s'" for s'
    by (rule read_separator_consumes [OF that separators(2)])
      (simp only: read_ipv4_addr_def read_octets_consumes)
  have group: "consumes s s'" if "read_separator CHR '':'' i read_group s = Some s'" for s'
    by (rule read_separator_consumes [OF that separators(2)])
      (auto simp: read_group_def intro: read_number_consumes hexdigit_authority)
  show ?case
  proof (cases "limit \<le> i")
    case True
    then show ?thesis using "1.prems" by (simp add: read_groups.simps [of i] consumes_refl)
  next
    case False
    let ?v4 = "if i < limit - 1 then read_separator CHR '':'' i read_ipv4_addr s else None"
    show ?thesis
    proof (cases ?v4)
      case (Some s')
      then show ?thesis using False "1.prems" four by (auto simp: read_groups.simps [of i] split: if_splits)
    next
      case None
      then show ?thesis
        using False "1.prems" "1.IH" [OF False None] consumes_trans [OF group]
        by (auto simp: read_groups.simps [of i] consumes_refl split: option.splits)
    qed
  qed
qed

lemma parses_as_ipv6_chars:
  assumes "parses_as_ipv6 s"
  shows "list_all authority_char s"
proof -
  obtain n v t where g: "read_groups 0 8 s = (n, v, t)" by (metis prod_cases3)
  note st = read_groups_consumes [OF g]
  have "consumes s []"
  proof (cases "n = 8")
    case True
    then show ?thesis using assms st by (simp add: parses_as_ipv6_def read_ipv6_addr_def g)
  next
    case False
    then obtain u w where u: "read_given_char CHR '':'' t = Some u" "read_given_char CHR '':'' u = Some w"
      and r: "snd (snd (read_groups 0 (8 - (n + 1)) w)) = []"
      using assms
      by (auto simp: parses_as_ipv6_def read_ipv6_addr_def g split: if_splits option.splits prod.splits)
    have "consumes w []" using r read_groups_consumes [of 0 "8 - (n + 1)" w] by (metis prod.collapse)
    with st u show ?thesis by (blast intro: consumes_trans read_given_char_consumes separators(2))
  qed
  then show ?thesis by (simp add: consumes_def)
qed

lemma after_host_chars: "valid_after_host s \<Longrightarrow> list_all authority_char s"
  by (auto simp: valid_after_host_def valid_port_def strip_prefix_Some list_all_iff digit_authority separators
      split: option.splits)

lemma reg_name_chars: "valid_reg_name s \<Longrightarrow> list_all authority_char s"
  by (auto simp: valid_reg_name_def list_all_iff authority_char_def split: if_splits)

lemma valid_authority_chars:
  assumes "valid_authority a"
  shows "list_all authority_char a"
proof (cases "strip_prefix ''['' a")
  case (Some tail)
  then obtain literal after where "split_once CHR '']'' tail = Some (literal, after)" "parses_as_ipv6 literal"
    "valid_after_host after"
    using assms by (auto simp: valid_authority_def split: if_splits option.splits)
  then have "a = ''['' @ literal @ '']'' @ after" "list_all authority_char literal" "list_all authority_char after"
    using Some by (simp_all add: strip_prefix_Some split_once_Some parses_as_ipv6_chars after_host_chars)
  then show ?thesis by (simp add: authority_char_def)
next
  case None
  let ?p = "\<lambda>c. c \<noteq> CHR '':''"
  have "list_all authority_char (takeWhile ?p a)" "list_all authority_char (dropWhile ?p a)"
    using assms None
    by (auto simp: valid_authority_def split_port_def reg_name_chars after_host_chars split: if_splits)
  then have "list_all authority_char (takeWhile ?p a @ dropWhile ?p a)" by (simp only: list_all_append)
  then show ?thesis by simp
qed

lemma takeWhile_authority: "list_all authority_char a \<Longrightarrow> takeWhile (\<lambda>c. \<not> ends_authority c) (a @ ''/'' @ path) = a"
proof (induction a)
  case (Cons c a)
  then show ?case using authority_char_graphic [of c] by simp
qed (simp add: ends_authority_def)

section \<open>Properties\<close>

text \<open>
  C38. An authority that is not rejected stays where it is put: installed before a path it is exactly what a URL
  parser reads up to the first character that ends an authority, it cannot introduce user information, and every
  byte of it is a graphic ASCII character. It has at most \<open>MAX_AUTHORITY\<close> bytes and is passed on unchanged.
\<close>

theorem accepted_authority_is_fenced:
  assumes "authority_decision a \<in> {Use b, NeedsUrlParser b}"
  shows "b = a \<and> a \<noteq> [] \<and> length a \<le> MAX_AUTHORITY
    \<and> takeWhile (\<lambda>c. \<not> ends_authority c) (a @ ''/'' @ path) = a
    \<and> CHR ''@'' \<notin> set a
    \<and> list_all (\<lambda>c. 32 < (of_char c :: nat) \<and> (of_char c :: nat) < 127) a"
proof -
  have v: "valid_authority a" and b: "b = a"
    using assms by (auto simp: authority_decision_def split: if_splits)
  have "a \<noteq> []" "length a \<le> MAX_AUTHORITY" using v by (auto simp: valid_authority_def split: if_splits)
  then show ?thesis
    using b valid_authority_chars [OF v] takeWhile_authority authority_char_graphic by (auto simp: list_all_iff)
qed

theorem accepted_authority_is_fenced_witness:
  "authority_decision ''[2001:db8::1]:8443'' = Use ''[2001:db8::1]:8443''
   \<and> takeWhile (\<lambda>c. \<not> ends_authority c) (''[2001:db8::1]:8443'' @ ''/'' @ ''admin'') = ''[2001:db8::1]:8443''"
proof -
  have "authority_decision ''[2001:db8::1]:8443'' = Use ''[2001:db8::1]:8443''" by code_simp
  with accepted_authority_is_fenced [of "''[2001:db8::1]:8443''" "''[2001:db8::1]:8443''" "''admin''"]
  show ?thesis by simp
qed

end
