(* ===== verification/Cron.thy ===== *)
theory Cron
  imports Text Upkeep WakeLaws
begin

text \<open>
  Cron schedules (\<open>cron.rs\<close>): parsing an expression into bit sets, the days and minutes it matches, the first
  occurrence after an instant, and the plan of the reserved cron cell.

  A bit set is a natural number; \<open>bit\<close> tests a position. Error messages are constructors that carry what the
  text interpolates. Instants are unbounded integers: the code multiplies a day number back into milliseconds in
  \<open>i64\<close>, which is exact for every instant a calendar of the next hundred million years names.
\<close>

section \<open>Definitions\<close>

subsection \<open>Fields\<close>

record field_spec =
  fd_name :: string
  fd_min :: nat
  fd_max :: nat
  fd_names :: "string list"

definition MINUTE :: field_spec where
  "MINUTE = \<lparr>fd_name = ''minute'', fd_min = 0, fd_max = 59, fd_names = []\<rparr>"

definition HOUR :: field_spec where
  "HOUR = \<lparr>fd_name = ''hour'', fd_min = 0, fd_max = 23, fd_names = []\<rparr>"

definition DAY_OF_MONTH :: field_spec where
  "DAY_OF_MONTH = \<lparr>fd_name = ''day of month'', fd_min = 1, fd_max = 31, fd_names = []\<rparr>"

definition MONTH :: field_spec where
  "MONTH =
     \<lparr>fd_name = ''month'', fd_min = 1, fd_max = 12,
      fd_names = [''jan'', ''feb'', ''mar'', ''apr'', ''may'', ''jun'', ''jul'', ''aug'', ''sep'', ''oct'', ''nov'', ''dec'']\<rparr>"

definition DAY_OF_WEEK :: field_spec where
  "DAY_OF_WEEK =
     \<lparr>fd_name = ''day of week'', fd_min = 1, fd_max = 7,
      fd_names = [''sun'', ''mon'', ''tue'', ''wed'', ''thu'', ''fri'', ''sat'']\<rparr>"

datatype day_of_month =
    DomAll
  | DomDays nat
  | DomLast
  | DomLastOffset nat
  | DomLastWeekday
  | DomLastOffsetWeekday nat
  | DomClosestWeekday nat

datatype day_of_week =
    DowAll
  | DowDays nat
  | DowLast nat
  | DowNth nat nat

record cron =
  cr_text :: string
  cr_minute :: nat
  cr_hour :: nat
  cr_month :: nat
  cr_day_of_month :: day_of_month
  cr_day_of_week :: day_of_week

datatype cron_message =
    FieldCount nat
  | FieldEmpty string
  | StarInList string string
  | NonNumericStep string string
  | StepOutside string nat nat string
  | DescendingRange string string
  | NonNumericValue string string
  | NeitherNumberNorName string string
  | ValueOutside string nat nat nat
  | UnreadableL string
  | NonNumericOffset string
  | OffsetOutside nat
  | NonNumericCount string
  | CountOutside nat

record cron_error =
  cx_expression :: string
  cx_message :: cron_message

definition RESERVED_CLASS :: string where
  "RESERVED_CLASS = ''.cron''"

definition reserved_cell :: "string \<Rightarrow> string" where
  "reserved_cell script_name = RESERVED_CLASS @ '':'' @ script_name"

subsection \<open>Parsing\<close>

definition u32_max :: nat where
  "u32_max = 4294967295"

definition parse_digits :: "string \<Rightarrow> nat option" where
  "parse_digits text =
     (if text = [] \<or> \<not> list_all ascii_digit text then None
      else if number_of 10 text \<le> u32_max then Some (number_of 10 text) else None)"

fun position_of :: "'a \<Rightarrow> 'a list \<Rightarrow> nat option" where
  "position_of x [] = None"
| "position_of x (y # ys) = (if x = y then Some 0 else map_option Suc (position_of x ys))"

definition parse_value :: "string \<Rightarrow> field_spec \<Rightarrow> (nat, cron_message) result" where
  "parse_value text field =
     (let text = trim text; lower = map to_lower text in
      case position_of lower (fd_names field) of
        Some index \<Rightarrow> Ok (fd_min field + index)
      | None \<Rightarrow>
          (case parse_digits text of
             None \<Rightarrow>
               Err (if fd_names field = [] then NonNumericValue (fd_name field) text
                    else NeitherNumberNorName (fd_name field) text)
           | Some value \<Rightarrow>
               if value < fd_min field \<or> fd_max field < value
               then Err (ValueOutside (fd_name field) value (fd_min field) (fd_max field))
               else Ok value))"

definition parse_step :: "string \<Rightarrow> field_spec \<Rightarrow> (string \<times> nat, cron_message) result" where
  "parse_step item field =
     (case split_once CHR ''/'' item of
        None \<Rightarrow> Ok (item, 1)
      | Some (spec, step) \<Rightarrow>
          (case parse_digits step of
             None \<Rightarrow> Err (NonNumericStep (fd_name field) item)
           | Some step \<Rightarrow>
               if step = 0 \<or> fd_max field - fd_min field < step
               then Err (StepOutside (fd_name field) step (fd_max field - fd_min field) item)
               else Ok (spec, step)))"

definition parse_range :: "string \<Rightarrow> nat \<Rightarrow> field_spec \<Rightarrow> (nat \<times> nat, cron_message) result" where
  "parse_range spec step field =
     (if spec = ''*'' then Ok (fd_min field, fd_max field)
      else
        (case split_once CHR ''-'' spec of
           Some (from, to) \<Rightarrow>
             (case parse_value from field of
                Err e \<Rightarrow> Err e
              | Ok lo \<Rightarrow>
                  (case parse_value to field of Err e \<Rightarrow> Err e | Ok hi \<Rightarrow> Ok (lo, hi)))
         | None \<Rightarrow>
             (case parse_value spec field of
                Err e \<Rightarrow> Err e
              | Ok value \<Rightarrow> Ok (if step = 1 then (value, value) else (value, fd_max field)))))"

text \<open>The loop that sets the bits; it is entered with a positive step.\<close>

function step_bits :: "nat \<Rightarrow> nat \<Rightarrow> nat \<Rightarrow> nat \<Rightarrow> nat" where
  "step_bits bits value hi step =
     (if step = 0 \<or> hi < value then bits else step_bits (set_bit value bits) (value + step) hi step)"
  by auto
termination
  by (relation "measure (\<lambda>(_, value, hi, _). Suc hi - value)") auto

declare step_bits.simps [simp del]

definition parse_item :: "string \<Rightarrow> field_spec \<Rightarrow> (nat, cron_message) result" where
  "parse_item item field =
     (case parse_step item field of
        Err e \<Rightarrow> Err e
      | Ok (spec, step) \<Rightarrow>
          (case parse_range spec step field of
             Err e \<Rightarrow> Err e
           | Ok (lo, hi) \<Rightarrow>
               if hi < lo then Err (DescendingRange (fd_name field) item)
               else Ok (step_bits 0 lo hi step)))"

fun parse_items :: "nat \<Rightarrow> bool \<Rightarrow> string \<Rightarrow> field_spec \<Rightarrow> string list \<Rightarrow> (nat, cron_message) result" where
  "parse_items bits several text field [] = Ok bits"
| "parse_items bits several text field (item # items) =
     (if several \<and> trim item = ''*'' then Err (StarInList (fd_name field) text)
      else
        (case parse_item item field of
           Err e \<Rightarrow> Err e
         | Ok b \<Rightarrow> parse_items (Bit_Operations.or bits b) several text field items))"

definition parse_field :: "string \<Rightarrow> field_spec \<Rightarrow> (nat, cron_message) result" where
  "parse_field text field =
     (if text = [] then Err (FieldEmpty (fd_name field))
      else
        let items = split_on CHR '','' text in
        parse_items 0 (1 < length items) text field items)"

definition parse_day_of_month :: "string \<Rightarrow> (day_of_month, cron_message) result" where
  "parse_day_of_month text =
     (if text = ''*'' then Ok DomAll
      else
        (case strip_prefix ''L'' text of
           Some rest \<Rightarrow>
             if rest = [] then Ok DomLast
             else if rest = ''W'' then Ok DomLastWeekday
             else
               let (digits, weekday) =
                 (case strip_suffix ''W'' rest of Some digits \<Rightarrow> (digits, True) | None \<Rightarrow> (rest, False))
               in
                 (case strip_prefix ''-'' digits of
                    None \<Rightarrow> Err (UnreadableL text)
                  | Some offset \<Rightarrow>
                      (case parse_digits offset of
                         None \<Rightarrow> Err (NonNumericOffset text)
                       | Some offset \<Rightarrow>
                           if \<not> (1 \<le> offset \<and> offset \<le> 30) then Err (OffsetOutside offset)
                           else Ok (if weekday then DomLastOffsetWeekday offset else DomLastOffset offset)))
         | None \<Rightarrow>
             (case strip_suffix ''W'' text of
                Some day \<Rightarrow>
                  (case parse_value day DAY_OF_MONTH of Err e \<Rightarrow> Err e | Ok d \<Rightarrow> Ok (DomClosestWeekday d))
              | None \<Rightarrow>
                  (case parse_field text DAY_OF_MONTH of Err e \<Rightarrow> Err e | Ok b \<Rightarrow> Ok (DomDays (take_bit 32 b))))))"

definition parse_day_of_week :: "string \<Rightarrow> (day_of_week, cron_message) result" where
  "parse_day_of_week text =
     (if text = ''*'' then Ok DowAll
      else if text = ''L'' then Ok (DowDays (push_bit 6 1))
      else
        (case strip_suffix ''L'' text of
           Some day \<Rightarrow>
             (case parse_value day DAY_OF_WEEK of Err e \<Rightarrow> Err e | Ok d \<Rightarrow> Ok (DowLast (d - 1)))
         | None \<Rightarrow>
             (case split_once CHR ''#'' text of
                Some (day, count) \<Rightarrow>
                  (case parse_value day DAY_OF_WEEK of
                     Err e \<Rightarrow> Err e
                   | Ok d \<Rightarrow>
                       (case parse_digits count of
                          None \<Rightarrow> Err (NonNumericCount text)
                        | Some count \<Rightarrow>
                            if \<not> (1 \<le> count \<and> count \<le> 5) then Err (CountOutside count) else Ok (DowNth (d - 1) count)))
              | None \<Rightarrow>
                  (case parse_field text DAY_OF_WEEK of
                     Err e \<Rightarrow> Err e
                   | Ok b \<Rightarrow> Ok (DowDays (take_bit 8 (drop_bit 1 b)))))))"

definition cron_fields :: "string list \<Rightarrow> (nat \<times> nat \<times> day_of_month \<times> nat \<times> day_of_week, cron_message) result" where
  "cron_fields parts =
     (case parts of
        [f0, f1, f2, f3, f4] \<Rightarrow>
          (case parse_field f0 MINUTE of
             Err e \<Rightarrow> Err e
           | Ok minute \<Rightarrow>
               (case parse_field f1 HOUR of
                  Err e \<Rightarrow> Err e
                | Ok hour \<Rightarrow>
                    (case parse_day_of_month f2 of
                       Err e \<Rightarrow> Err e
                     | Ok mdays \<Rightarrow>
                         (case parse_field f3 MONTH of
                            Err e \<Rightarrow> Err e
                          | Ok month \<Rightarrow>
                              (case parse_day_of_week f4 of
                                 Err e \<Rightarrow> Err e
                               | Ok wdays \<Rightarrow> Ok (minute, hour, mdays, month, wdays))))))
      | _ \<Rightarrow> Err (FieldCount (length parts)))"

definition cron_parse :: "string \<Rightarrow> (cron, cron_error) result" where
  "cron_parse expression =
     (case cron_fields (split_whitespace expression) of
        Err message \<Rightarrow> Err \<lparr>cx_expression = expression, cx_message = message\<rparr>
      | Ok (minute, hour, mdays, month, wdays) \<Rightarrow>
          Ok \<lparr>cr_text = trim expression, cr_minute = minute, cr_hour = take_bit 32 hour,
              cr_month = take_bit 16 month, cr_day_of_month = mdays, cr_day_of_week = wdays\<rparr>)"

subsection \<open>Matching\<close>

definition is_weekend :: "nat \<Rightarrow> bool" where
  "is_weekend day_of_week = (day_of_week = 0 \<or> day_of_week = 6)"

definition days_in_month :: "int \<Rightarrow> nat \<Rightarrow> nat" where
  "days_in_month year month =
     (if month \<in> {1, 3, 5, 7, 8, 10, 12} then 31
      else if month \<in> {4, 6, 9, 11} then 30
      else
        let leap = (year mod 4 = 0 \<and> (year mod 100 \<noteq> 0 \<or> year mod 400 = 0)) in
        if leap then 29 else 28)"

fun day_of_month_matches :: "day_of_month \<Rightarrow> nat \<Rightarrow> nat \<Rightarrow> nat \<Rightarrow> bool" where
  "day_of_month_matches DomAll day weekday last_day = True"
| "day_of_month_matches (DomDays days) day weekday last_day = bit days day"
| "day_of_month_matches DomLast day weekday last_day = (day = last_day)"
| "day_of_month_matches (DomLastOffset offset) day weekday last_day = (day + offset = last_day)"
| "day_of_month_matches DomLastWeekday day weekday last_day =
     ((\<not> is_weekend weekday \<and> day = last_day) \<or> (weekday = 5 \<and> last_day - day < 3))"
| "day_of_month_matches (DomLastOffsetWeekday offset) day weekday last_day =
     (let target = day + offset in
      (\<not> is_weekend weekday \<and> target = last_day)
      \<or> (weekday = 1 \<and> last_day < target \<and> target - last_day < 3)
      \<or> (weekday = 5 \<and> target + 1 = last_day))"
| "day_of_month_matches (DomClosestWeekday target) day weekday last_day =
     ((\<not> is_weekend weekday \<and> day = target)
      \<or> (weekday = 1 \<and> 1 < day \<and> day - 1 = target)
      \<or> (weekday = 1 \<and> day = 3 \<and> target = 1)
      \<or> (weekday = 5 \<and> day + 1 = target)
      \<or> (weekday = 5 \<and> day + 2 = target \<and> target = last_day))"

fun day_of_week_matches :: "day_of_week \<Rightarrow> nat \<Rightarrow> nat \<Rightarrow> nat \<Rightarrow> bool" where
  "day_of_week_matches DowAll day weekday last_day = True"
| "day_of_week_matches (DowDays days) day weekday last_day = bit days weekday"
| "day_of_week_matches (DowLast wanted) day weekday last_day = (weekday = wanted \<and> last_day < day + 7)"
| "day_of_week_matches (DowNth wanted count) day weekday last_day = (weekday = wanted \<and> (day - 1) div 7 + 1 = count)"

definition weekday_of :: "int \<Rightarrow> nat" where
  "weekday_of day = nat ((day + 4) mod 7)"

definition day_matches :: "cron \<Rightarrow> int \<Rightarrow> bool" where
  "day_matches cron day =
     (let (year, month, day_of_month) = civil_from_days day in
      if \<not> bit (cr_month cron) (nat month) then False
      else
        let weekday = weekday_of day;
            last_day = days_in_month year (nat month);
            by_dom = day_of_month_matches (cr_day_of_month cron) (nat day_of_month) weekday last_day;
            by_dow = day_of_week_matches (cr_day_of_week cron) (nat day_of_month) weekday last_day
        in
          (case (cr_day_of_month cron = DomAll, cr_day_of_week cron = DowAll) of
             (True, True) \<Rightarrow> True
           | (False, True) \<Rightarrow> by_dom
           | (True, False) \<Rightarrow> by_dow
           | (False, False) \<Rightarrow> by_dom \<or> by_dow))"

definition cron_matches :: "cron \<Rightarrow> ms \<Rightarrow> bool" where
  "cron_matches cron at_ms =
     (let minutes = at_ms div 60000;
          day = minutes div 1440;
          time = nat (minutes mod 1440)
      in day_matches cron day \<and> bit (cr_hour cron) (time div 60) \<and> bit (cr_minute cron) (time mod 60))"

subsection \<open>The next occurrence\<close>

definition MAX_LOOKAHEAD_DAYS :: nat where
  "MAX_LOOKAHEAD_DAYS = 146097"

function find_minute :: "nat \<Rightarrow> nat \<Rightarrow> nat option" where
  "find_minute bits minute =
     (if minute < 60 then (if bit bits minute then Some minute else find_minute bits (minute + 1)) else None)"
  by auto
termination
  by (relation "measure (\<lambda>(_, minute). 60 - minute)") auto

declare find_minute.simps [simp del]

function find_time :: "cron \<Rightarrow> nat \<Rightarrow> nat \<Rightarrow> nat option" where
  "find_time cron hour minute =
     (if hour < 24 then
        (case (if bit (cr_hour cron) hour then find_minute (cr_minute cron) minute else None) of
           Some m \<Rightarrow> Some (hour * 60 + m)
         | None \<Rightarrow> find_time cron (hour + 1) 0)
      else None)"
  by auto
termination
  by (relation "measure (\<lambda>(_, hour, _). 24 - hour)") auto

declare find_time.simps [simp del]

definition next_time_of_day :: "cron \<Rightarrow> nat \<Rightarrow> nat option" where
  "next_time_of_day cron from = find_time cron (from div 60) (from mod 60)"

fun walk_days :: "cron \<Rightarrow> nat \<Rightarrow> int \<Rightarrow> nat \<Rightarrow> ms option" where
  "walk_days cron n day time =
     (if n = 0 then None
      else
        (case (if day_matches cron day then next_time_of_day cron time else None) of
           Some found \<Rightarrow> Some ((day * 1440 + int found) * 60000)
         | None \<Rightarrow> walk_days cron (n - 1) (day + 1) 0))"

declare walk_days.simps [simp del]

definition next_after :: "cron \<Rightarrow> ms \<Rightarrow> ms option" where
  "next_after cron after_ms =
     (let start = after_ms div 60000 + 1 in
      walk_days cron MAX_LOOKAHEAD_DAYS (start div 1440) (nat (start mod 1440)))"

definition next_across :: "cron list \<Rightarrow> ms \<Rightarrow> ms option" where
  "next_across crons after_ms =
     min_by_key (\<lambda>t. t) (List.map_filter (\<lambda>cron. next_after cron after_ms) crons)"

definition matching :: "cron list \<Rightarrow> ms \<Rightarrow> nat list" where
  "matching crons at_ms = filter (\<lambda>i. cron_matches (crons ! i) at_ms) [0..<length crons]"

fun cron_rearm :: "ms option \<Rightarrow> ms option \<Rightarrow> ms option" where
  "cron_rearm (Some next) (Some retry) = Some (min next retry)"
| "cron_rearm next None = next"
| "cron_rearm None retry = retry"

record cron_plan =
  pn_matching :: "nat list"
  pn_arm_at :: "ms option"
  pn_arm_is_retry :: bool

definition cron_plan_of :: "cron list \<Rightarrow> ms option \<Rightarrow> ms \<Rightarrow> int \<Rightarrow> bool \<Rightarrow> cron_plan" where
  "cron_plan_of crons fired_ms now_ms retry failed =
     (let matched = (case fired_ms of None \<Rightarrow> [] | Some at \<Rightarrow> matching crons at);
          next = next_across crons now_ms;
          retry_at = (if failed then alarm_retry now_ms retry retry True else None);
          arm_at = cron_rearm next retry_at;
          arm_is_retry =
            (case (arm_at, next) of
               (Some at, Some occurrence) \<Rightarrow> at < occurrence
             | (Some _, None) \<Rightarrow> True
             | (None, _) \<Rightarrow> False)
      in \<lparr>pn_matching = matched, pn_arm_at = arm_at, pn_arm_is_retry = arm_is_retry\<rparr>)"

end
