(* ===== verification/CronLaws.thy ===== *)
theory CronLaws
  imports Cron
begin

text \<open>
  Laws of cron schedules. The calendar repeats every 400 years, and within that cycle every day has a companion
  less than 29 years away that agrees with it in month, day, weekday and length of the month. So the walk of
  \<open>next_after\<close> over one cycle of days is complete: it finds the first match, and when it finds none there is none.
\<close>

section \<open>Definitions\<close>

definition leap_year :: "int \<Rightarrow> bool" where
  "leap_year y = (y mod 4 = 0 \<and> (y mod 100 \<noteq> 0 \<or> y mod 400 = 0))"

text \<open>Month and day of the month of the day \<open>doy\<close> of a year that begins in March.\<close>

definition march_month :: "int \<Rightarrow> int" where
  "march_month doy = (let mp = (5 * doy + 2) div 153 in if mp < 10 then mp + 3 else mp - 9)"

definition march_day :: "int \<Rightarrow> int" where
  "march_day doy = doy - (153 * ((5 * doy + 2) div 153) + 2) div 5 + 1"

text \<open>The day \<open>doy\<close> of the year \<open>y\<close> of the 400-year era \<open>e\<close>, as a day number.\<close>

definition era_day :: "int \<Rightarrow> nat \<Rightarrow> int \<Rightarrow> int" where
  "era_day e y doy = e * 146097 + year_start y + doy - 719468"

definition same_calendar :: "nat \<Rightarrow> nat \<Rightarrow> bool" where
  "same_calendar y y' =
     (year_start (Suc y) - year_start y = year_start (Suc y') - year_start y' \<and> leap_year (int y + 1) = leap_year (int y' + 1))"

definition time_matches :: "cron \<Rightarrow> nat \<Rightarrow> bool" where
  "time_matches cron time = (bit (cr_hour cron) (time div 60) \<and> bit (cr_minute cron) (time mod 60))"

definition bits_within :: "nat \<Rightarrow> nat \<Rightarrow> nat \<Rightarrow> bool" where
  "bits_within lo hi b = (\<forall>i. bit b i \<longrightarrow> lo \<le> i \<and> i \<le> hi)"

fun day_of_month_ok :: "day_of_month \<Rightarrow> bool" where
  "day_of_month_ok (DomDays b) = bits_within 1 31 b"
| "day_of_month_ok (DomLastOffset n) = (1 \<le> n \<and> n \<le> 30)"
| "day_of_month_ok (DomLastOffsetWeekday n) = (1 \<le> n \<and> n \<le> 30)"
| "day_of_month_ok (DomClosestWeekday n) = (1 \<le> n \<and> n \<le> 31)"
| "day_of_month_ok _ = True"

fun day_of_week_ok :: "day_of_week \<Rightarrow> bool" where
  "day_of_week_ok DowAll = True"
| "day_of_week_ok (DowDays b) = bits_within 0 6 b"
| "day_of_week_ok (DowLast d) = (d \<le> 6)"
| "day_of_week_ok (DowNth d n) = (d \<le> 6 \<and> 1 \<le> n \<and> n \<le> 5)"

definition cron_ok :: "cron \<Rightarrow> bool" where
  "cron_ok c =
     (bits_within 0 59 (cr_minute c) \<and> bits_within 0 23 (cr_hour c) \<and> bits_within 1 12 (cr_month c)
      \<and> day_of_month_ok (cr_day_of_month c) \<and> day_of_week_ok (cr_day_of_week c))"

definition field_ok :: "field_spec \<Rightarrow> bool" where
  "field_ok f = (fd_min f + length (fd_names f) \<le> Suc (fd_max f))"

section \<open>The calendar\<close>

lemma tdiv_floor:
  assumes "0 < k"
  shows "tdiv (if 0 \<le> a then a else a - (k - 1)) k = a div k"
proof (cases "0 \<le> a")
  case False
  have "(k - 1 - a) div k = - (a div k)"
  proof (rule int_div_pos_eq [of _ _ _ "k - 1 - a mod k"])
    show "k - 1 - a = k * - (a div k) + (k - 1 - a mod k)" by (simp add: minus_div_mult_eq_mod [symmetric])
    show "0 \<le> k - 1 - a mod k" "k - 1 - a mod k < k" using assms pos_mod_bound [of k a] pos_mod_sign [of k a] by linarith+
  qed
  then show ?thesis using False assms by (simp add: tdiv_def)
qed (simp add: tdiv_def)

lemma year_end_bound: "y < 400 \<Longrightarrow> doe < year_start (Suc y) \<Longrightarrow> doe < 146097"
proof (cases "y = 399")
  case False
  assume "y < 400" "doe < year_start (Suc y)"
  then show ?thesis using False year_start_quotients(7) [of "Suc y"] by simp
qed (simp add: year_start_def)

lemma year_of_era_unique:
  assumes "y < 400" "year_start y \<le> doe" "doe < year_start (Suc y)"
  shows "era_days doe div 365 = int y"
proof -
  have doe: "0 \<le> doe" "doe < 146097"
    using assms year_start_quotients(5) [OF assms(1)] year_end_bound [OF assms(1,3)] by simp_all
  have lo: "365 * int y \<le> era_days doe"
    using era_days_le [of "year_start y" doe] era_days_year_start [OF assms(1)] year_start_quotients(5) [OF assms(1)]
      assms(2) doe by simp
  have "era_days doe < 365 * int y + 365"
  proof (cases "y = 399")
    case True
    then show ?thesis using era_days_range(2) [OF doe] by simp
  next
    case False
    then have "Suc y < 400" using assms(1) by simp
    then show ?thesis
      using era_days_before_year [of "Suc y"] era_days_le [of doe "year_start (Suc y) - 1"] doe assms(3)
        year_start_quotients(7) [of "Suc y"] by simp
  qed
  then show ?thesis using lo by (intro int_div_pos_eq [of _ _ _ "era_days doe - 365 * int y"]) simp_all
qed

lemma year_at_most: "y < 400 \<Longrightarrow> year_start (Suc y) \<le> year_start y + 366"
  using year_length [of y] by (cases "y = 399") (auto simp: year_start_def)

lemma civil_of_era_day:
  assumes "y < 400" "0 \<le> doy" "doy < year_start (Suc y) - year_start y"
  shows "civil_from_days (era_day e y doy) =
    (int y + e * 400 + (if march_month doy \<le> 2 then 1 else 0), march_month doy, march_day doy)"
proof -
  define doe where "doe = year_start y + doy"
  have doe: "0 \<le> doe" "doe < 146097"
    using assms year_start_quotients(5) [OF assms(1)] year_end_bound [OF assms(1), of doe] by (simp_all add: doe_def)
  have z: "era_day e y doy + 719468 = e * 146097 + doe" by (simp add: era_day_def doe_def)
  have era: "tdiv (if 0 \<le> era_day e y doy + 719468 then era_day e y doy + 719468
      else era_day e y doy + 719468 - 146096) 146097 = e"
  proof -
    have k: "(146097 :: int) - 1 = 146096" by simp
    have "(e * 146097 + doe) div 146097 = e" using doe by (simp add: div_pos_pos_trivial)
    then show ?thesis unfolding z using tdiv_floor [of 146097 "e * 146097 + doe", unfolded k] by (simp only:)
  qed
  have rest: "era_day e y doy + 719468 - e * 146097 = doe" by (simp add: z)
  have "era_days doe div 365 = int y" by (rule year_of_era_unique) (use assms in \<open>simp_all add: doe_def\<close>)
  then have year: "tdiv (doe - tdiv doe 1460 + tdiv doe 36524 - tdiv doe 146096) 365 = int y"
    using doe(1) by (simp only: tdiv_nonneg era_days_range [OF doe] flip: era_days_def)
  have day: "doe - (365 * int y + tdiv (int y) 4 - tdiv (int y) 100) = doy"
    by (simp add: doe_def year_start_quotients(6) [OF assms(1)])
  have "doy \<le> 365" using assms(3) year_at_most [OF assms(1)] by simp
  then have "0 \<le> (5 * doy + 2) div 153" using month_of_day(1) [OF assms(2)] by simp
  then have month: "tdiv (5 * doy + 2) 153 = (5 * doy + 2) div 153"
    "tdiv (153 * ((5 * doy + 2) div 153) + 2) 5 = (153 * ((5 * doy + 2) div 153) + 2) div 5"
    using assms(2) by simp_all
  show ?thesis
    unfolding civil_from_days_def Let_def era rest year day month
    unfolding march_month_def march_day_def Let_def ..
qed

lemma era_day_cases:
  obtains e y doy where "y < 400" "0 \<le> doy" "doy < year_start (Suc y) - year_start y" "z = era_day e y doy"
proof -
  define e where "e = (z + 719468) div 146097"
  define doe where "doe = z + 719468 - e * 146097"
  have doe: "0 \<le> doe" "doe < 146097"
    using quotient_bounds [of 146097 "z + 719468"] by (simp_all add: doe_def e_def)
  obtain y where y: "y < 400" "era_days doe div 365 = int y" "year_start y \<le> doe"
    using year_of_era [OF doe] .
  have "doe < year_start (Suc y)"
  proof (rule ccontr)
    assume less: "\<not> doe < year_start (Suc y)"
    then have "Suc y < 400" using y(1) doe(2) by (cases "y = 399") (simp_all add: year_start_def)
    then have "365 * int (Suc y) \<le> era_days doe"
      using era_days_le [of "year_start (Suc y)" doe] era_days_year_start [of "Suc y"] less doe
        year_start_quotients(5) [of "Suc y"] by simp
    moreover have "era_days doe < 365 * int y + 365" using quotient_bounds(2) [of 365 "era_days doe"] unfolding y(2) by simp
    ultimately show False by simp
  qed
  then have "0 \<le> doe - year_start y" "doe - year_start y < year_start (Suc y) - year_start y" using y(3) by simp_all
  moreover have "z = era_day e y (doe - year_start y)" unfolding era_day_def doe_def by simp
  ultimately show ?thesis by (rule that [OF y(1)])
qed

lemma era_day_next_era: "era_day e y doy + 146097 = era_day (e + 1) y doy"
  by (simp add: era_day_def)

lemma leap_year_era: "leap_year (y + e * 400) = leap_year y"
proof -
  have "(y + e * 400) mod 4 = y mod 4" using mod_mult_self1 [of y "e * 100" 4] by (simp add: mult.assoc)
  moreover have "(y + e * 400) mod 100 = y mod 100" using mod_mult_self1 [of y "e * 4" 100] by (simp add: mult.assoc)
  ultimately show ?thesis by (simp add: leap_year_def)
qed

lemma march_month_range: "0 \<le> doy \<Longrightarrow> doy \<le> 365 \<Longrightarrow> 1 \<le> march_month doy \<and> march_month doy \<le> 12"
  using month_of_day(1,2) [of doy] by (simp add: march_month_def Let_def)

text \<open>
  Only February depends on the year, and the February of a year that begins in March belongs to the next civil
  year.
\<close>

lemma days_in_month_cong:
  assumes "1 \<le> m" "m \<le> 12" "m = 2 \<Longrightarrow> leap_year y = leap_year y'"
  shows "days_in_month y m = days_in_month y' m"
proof (cases "m = 2")
  case True
  then show ?thesis using assms(3) by (simp add: days_in_month_def Let_def leap_year_def)
next
  case False
  then have "m \<in> {1, 3, 5, 7, 8, 10, 12} \<or> m \<in> {4, 6, 9, 11}" using assms(1,2) by (simp; arith)
  then show ?thesis by (auto simp: days_in_month_def)
qed

lemma weekday_cong: "(z' - z) mod 7 = 0 \<Longrightarrow> weekday_of z' = weekday_of z"
proof -
  assume "(z' - z) mod 7 = 0"
  then have "(z' + 4) mod 7 = (z + 4) mod 7" by (simp add: mod_eq_dvd_iff mod_0_imp_dvd)
  then show ?thesis by (simp add: weekday_of_def)
qed

lemma day_matches_cong:
  assumes "civil_from_days z = (y, m, d)" "civil_from_days z' = (y', m, d)"
    "days_in_month y (nat m) = days_in_month y' (nat m)" "(z' - z) mod 7 = 0"
  shows "day_matches cron z' = day_matches cron z"
  unfolding day_matches_def Let_def assms(1,2) prod.case weekday_cong [OF assms(4)] assms(3) ..

lemma day_matches_same_calendar:
  assumes "y < 400" "y' < 400" "0 \<le> doy" "doy < year_start (Suc y) - year_start y" "same_calendar y y'"
    "(era_day e' y' doy - era_day e y doy) mod 7 = 0"
  shows "day_matches cron (era_day e' y' doy) = day_matches cron (era_day e y doy)"
proof (rule day_matches_cong [OF civil_of_era_day civil_of_era_day])
  show "days_in_month (int y + e * 400 + (if march_month doy \<le> 2 then 1 else 0)) (nat (march_month doy)) =
      days_in_month (int y' + e' * 400 + (if march_month doy \<le> 2 then 1 else 0)) (nat (march_month doy))"
  proof (rule days_in_month_cong)
    assume "nat (march_month doy) = 2"
    then have "march_month doy = 2" by simp
    moreover have "leap_year (int y + 1 + e * 400) = leap_year (int y' + 1 + e' * 400)"
      using assms(5) by (simp only: leap_year_era same_calendar_def)
    ultimately show "leap_year (int y + e * 400 + (if march_month doy \<le> 2 then 1 else 0)) =
        leap_year (int y' + e' * 400 + (if march_month doy \<le> 2 then 1 else 0))"
      by (simp add: ac_simps)
  next
    have "doy \<le> 365" using assms(4) year_at_most [OF assms(1)] by simp
    then show "1 \<le> nat (march_month doy)" "nat (march_month doy) \<le> 12"
      using march_month_range [OF assms(3)] by auto
  qed
qed (use assms in \<open>simp_all add: same_calendar_def\<close>)

lemma same_calendar_refl: "same_calendar y y"
  by (simp add: same_calendar_def)

lemma same_calendar_sym: "same_calendar y y' \<Longrightarrow> same_calendar y' y"
  by (simp add: same_calendar_def)

text \<open>The calendar repeats after one cycle.\<close>

lemma day_matches_cycle: "day_matches cron (z + 146097) = day_matches cron z"
proof -
  obtain e y doy where z: "y < 400" "0 \<le> doy" "doy < year_start (Suc y) - year_start y" "z = era_day e y doy"
    by (rule era_day_cases)
  then show ?thesis
    using day_matches_same_calendar [OF z(1,1-3) same_calendar_refl, of "e + 1" e]
    by (simp add: era_day_next_era) (simp add: era_day_def)
qed

text \<open>Two years that are 28 apart have the same calendar unless a century lies between them.\<close>

lemma quotient_same:
  fixes y :: nat
  assumes "y mod k + j < k"
  shows "(y + j) div k = y div k"
proof -
  have "j < k" using assms by simp
  then show ?thesis using assms div_add1_eq [of y j k] by simp
qed

lemma year_start_nat: "y \<le> 400 \<Longrightarrow> year_start y = 365 * int y + int (y div 4) - int (y div 100) + int (y div 400)"
  by (simp add: year_start_def zdiv_int)

lemma same_calendar_28:
  assumes "y mod 100 < 71" "y < 400"
  shows "same_calendar y (y + 28)" "year_start (y + 28) = year_start y + 10227" "y + 28 < 400"
proof -
  have y: "y = 100 * (y div 100) + y mod 100" by simp
  have "y div 100 \<le> 3" using assms(2) by simp
  then have less: "y + 29 < 400" using y assms by linarith
  then show "y + 28 < 400" by simp
  have h: "(y + j) div 100 = y div 100" if "j \<le> 29" for j by (rule quotient_same) (use assms that in simp)
  have q: "(y + 28) div 4 = y div 4 + 7" "(y + 29) div 4 = (y + 1) div 4 + 7"
    using div_mult_self1 [of 4 y 7] div_mult_self1 [of 4 "y + 1" 7] by (simp_all add: add.commute)
  have f: "(y + j) div 400 = y div 400" if "j \<le> 29" for j using less that by simp
  show start: "year_start (y + 28) = year_start y + 10227"
    using less by (simp add: year_start_nat h q f)
  have "year_start (y + 29) = year_start (y + 1) + 10227"
    using less h [of 1] f [of 1] by (simp add: year_start_nat h q f)
  then have len: "year_start (Suc (y + 28)) - year_start (y + 28) = year_start (Suc y) - year_start y"
    using start by (simp add: numeral_eq_Suc)
  have c: "(y + j) mod 100 \<noteq> 0" if "1 \<le> j" "j \<le> 29" for j
  proof -
    have "y + j = 100 * (y div 100) + (y + j) mod 100" using h [OF that(2)] mult_div_mod_eq [of 100 "y + j"] by simp
    then show ?thesis using y that(1) by linarith
  qed
  have "int (y + j) mod 100 \<noteq> 0" if "1 \<le> j" "j \<le> 29" for j
    using c [OF that] zmod_int [of "y + j" 100] by (simp only: of_nat_numeral of_nat_eq_0_iff)
  from this [of 1] this [of 29] have "leap_year (int y + 1) = (int (y + 1) mod 4 = 0)" "leap_year (int (y + 28) + 1) = (int (y + 29) mod 4 = 0)"
    by (simp_all add: leap_year_def add.commute)
  moreover have "int (y + 29) mod 4 = int (y + 1) mod 4"
    using mod_mult_self1 [of "int (y + 1)" 7 4] by (simp add: add.commute)
  ultimately show "same_calendar y (y + 28)" using len by (simp add: same_calendar_def)
qed

lemma same_calendar_centuries:
  "same_calendar 99 93" "same_calendar 199 193" "same_calendar 299 293" "same_calendar 399 371"
  "year_start 93 - year_start 99 = -2191" "year_start 193 - year_start 199 = -2191"
  "year_start 293 - year_start 299 = -2191" "year_start 371 - year_start 399 = -10227"
  by (simp_all add: same_calendar_def year_start_def leap_year_def)

lemma companion_year:
  assumes "y < 400"
  shows "\<exists>y'<400. same_calendar y y' \<and> year_start y' - year_start y \<in> {10227, -10227, -2191}"
proof (cases "y mod 100 < 71")
  case True
  then show ?thesis using same_calendar_28 [OF True assms] by (intro exI [of _ "y + 28"]) simp
next
  case high: False
  have y: "y = 100 * (y div 100) + y mod 100" by simp
  show ?thesis
  proof (cases "y mod 100 = 99")
    case True
    have "y div 100 \<in> {0, 1, 2, 3}" using assms by auto
    then have "y \<in> {99, 199, 299, 399}" using y True by auto
    then show ?thesis using same_calendar_centuries by force
  next
    case False
    define x where "x = y - 28"
    have m: "y mod 100 < 100" by simp
    have x: "y = x + 28" using high mod_less_eq_dividend [of y 100] by (simp add: x_def)
    have "x = 100 * (y div 100) + (y mod 100 - 28)" using y high by (simp add: x_def)
    then have "x mod 100 = y mod 100 - 28" using m by (metis mod_mult_self2 mod_less less_imp_diff_less mult.commute add.commute)
    then have "x mod 100 < 71" "x < 400" using m False x assms by simp_all
    then show ?thesis
      using same_calendar_28 [of x] same_calendar_sym x by (intro exI [of _ x]) simp
  qed
qed

lemma day_companion: "\<exists>s\<in>{10227, -10227, -2191}. day_matches cron (z + s) = day_matches cron z"
proof -
  obtain e y doy where z: "y < 400" "0 \<le> doy" "doy < year_start (Suc y) - year_start y" "z = era_day e y doy"
    by (rule era_day_cases)
  obtain y' where y': "y' < 400" "same_calendar y y'" "year_start y' - year_start y \<in> {10227, -10227, -2191}"
    using companion_year [OF z(1)] by blast
  define s where "s = year_start y' - year_start y"
  have "z + s = era_day e y' doy" by (simp add: s_def z(4) era_day_def)
  moreover have "(era_day e y' doy - era_day e y doy) mod 7 = 0" using y'(3) by (auto simp: era_day_def)
  ultimately show ?thesis
    using day_matches_same_calendar [OF z(1) y'(1) z(2,3) y'(2)] y'(3) z(4) unfolding s_def [symmetric] by metis
qed

section \<open>The walk\<close>

lemma find_minute_spec:
  "case find_minute bits minute of
     Some m \<Rightarrow> minute \<le> m \<and> m < 60 \<and> bit bits m \<and> (\<forall>j. minute \<le> j \<and> j < m \<longrightarrow> \<not> bit bits j)
   | None \<Rightarrow> \<forall>j. minute \<le> j \<and> j < 60 \<longrightarrow> \<not> bit bits j"
proof (induction bits minute rule: find_minute.induct)
  case (1 bits minute)
  show ?case
  proof (cases "minute < 60 \<and> \<not> bit bits minute")
    case True
    have "minute \<le> j \<longleftrightarrow> j = minute \<or> minute + 1 \<le> j" for j by auto
    then show ?thesis
      using 1 True by (auto simp: find_minute.simps [of bits minute] split: option.splits)
  next
    case False
    then show ?thesis by (auto simp: find_minute.simps [of bits minute])
  qed
qed

lemma find_time_spec:
  assumes "minute < 60"
  shows "case find_time cron hour minute of
     Some t \<Rightarrow> hour * 60 + minute \<le> t \<and> t < 1440 \<and> time_matches cron t
       \<and> (\<forall>j. hour * 60 + minute \<le> j \<and> j < t \<longrightarrow> \<not> time_matches cron j)
   | None \<Rightarrow> \<forall>j. hour * 60 + minute \<le> j \<and> j < 1440 \<longrightarrow> \<not> time_matches cron j"
  using assms
proof (induction cron hour minute rule: find_time.induct)
  case (1 cron hour minute)
  show ?case
  proof (cases "hour < 24")
    case False
    then have "find_time cron hour minute = None" by (simp add: find_time.simps)
    then show ?thesis using False by auto
  next
    case True
    let ?f = "if bit (cr_hour cron) hour then find_minute (cr_minute cron) minute else None"
    have same: "time_matches cron (hour * 60 + m) = (bit (cr_hour cron) hour \<and> bit (cr_minute cron) m)" if "m < 60" for m
      using that by (simp add: time_matches_def)
    have split: "j < hour * 60 + 60 \<Longrightarrow> hour * 60 + minute \<le> j \<Longrightarrow> \<exists>m. j = hour * 60 + m \<and> minute \<le> m \<and> m < 60" for j
      by (rule exI [of _ "j - hour * 60"]) auto
    show ?thesis
    proof (cases ?f)
      case (Some m)
      then have m: "bit (cr_hour cron) hour" "minute \<le> m" "m < 60" "bit (cr_minute cron) m"
        "\<forall>j. minute \<le> j \<and> j < m \<longrightarrow> \<not> bit (cr_minute cron) j"
        using find_minute_spec [where bits = "cr_minute cron" and minute = minute] by (auto split: if_splits)
      have "\<not> time_matches cron j" if j: "hour * 60 + minute \<le> j" "j < hour * 60 + m" for j
      proof -
        obtain k where "j = hour * 60 + k" "minute \<le> k" "k < 60" using split [of j] j m(3) by auto
        then show ?thesis using m(5) same [of k] j(2) by auto
      qed
      then show ?thesis using True Some m same [of m] by (simp add: find_time.simps [of cron hour])
    next
      case None
      have none: "\<not> time_matches cron j" if j: "hour * 60 + minute \<le> j" "j < (hour + 1) * 60 + 0" for j
      proof -
        obtain k where "j = hour * 60 + k" "minute \<le> k" "k < 60" using split [of j] j by auto
        then show ?thesis using None same [of k] find_minute_spec [where bits = "cr_minute cron" and minute = minute] by (auto split: if_splits)
      qed
      have eq: "find_time cron hour minute = find_time cron (hour + 1) 0"
        using True None by (simp add: find_time.simps [of cron hour])
      have IH: "case find_time cron (hour + 1) 0 of
          Some t \<Rightarrow> (hour + 1) * 60 + 0 \<le> t \<and> t < 1440 \<and> time_matches cron t
            \<and> (\<forall>j. (hour + 1) * 60 + 0 \<le> j \<and> j < t \<longrightarrow> \<not> time_matches cron j)
        | None \<Rightarrow> \<forall>j. (hour + 1) * 60 + 0 \<le> j \<and> j < 1440 \<longrightarrow> \<not> time_matches cron j"
        by (rule "1.IH" [OF True None]) simp
      show ?thesis
        unfolding eq using IH none "1.prems" by (cases "find_time cron (hour + 1) 0") (auto, (meson not_le)+)
    qed
  qed
qed

lemma next_time_of_day_spec:
  "case next_time_of_day cron start of
     Some t \<Rightarrow> start \<le> t \<and> t < 1440 \<and> time_matches cron t \<and> (\<forall>j. start \<le> j \<and> j < t \<longrightarrow> \<not> time_matches cron j)
   | None \<Rightarrow> \<forall>j. start \<le> j \<and> j < 1440 \<longrightarrow> \<not> time_matches cron j"
  using find_time_spec [where minute = "start mod 60" and cron = cron and hour = "start div 60"]
  unfolding next_time_of_day_def div_mult_mod_eq by simp

text \<open>The minutes a walk looks at: all of the days after the first, and those from \<open>time\<close> on of the first.\<close>

lemma walk_days_spec:
  "case walk_days cron n day time of
     Some u \<Rightarrow> (\<exists>d t. u = (d * 1440 + int t) * 60000 \<and> day \<le> d \<and> d < day + int n \<and> t < 1440 \<and> (d = day \<longrightarrow> time \<le> t)
         \<and> day_matches cron d \<and> time_matches cron t
         \<and> (\<forall>d' t'. day \<le> d' \<and> t' < 1440 \<and> (d' = day \<longrightarrow> time \<le> t') \<and> d' * 1440 + int t' < d * 1440 + int t
               \<longrightarrow> \<not> (day_matches cron d' \<and> time_matches cron t')))
   | None \<Rightarrow> \<forall>d' t'. day \<le> d' \<and> d' < day + int n \<and> t' < 1440 \<and> (d' = day \<longrightarrow> time \<le> t')
         \<longrightarrow> \<not> (day_matches cron d' \<and> time_matches cron t')"
proof (induction n arbitrary: day time)
  case 0
  then show ?case by (auto simp: walk_days.simps)
next
  case (Suc n)
  let ?f = "if day_matches cron day then next_time_of_day cron time else None"
  note spec = next_time_of_day_spec [where cron = cron and start = time]
  show ?case
  proof (cases ?f)
    case (Some t)
    then have t: "day_matches cron day" "time \<le> t" "t < 1440" "time_matches cron t"
      "\<And>j. time \<le> j \<Longrightarrow> j < t \<Longrightarrow> \<not> time_matches cron j"
      using spec by (auto split: if_splits)
    have "\<not> (day_matches cron d' \<and> time_matches cron t')"
      if "day \<le> d'" "d' = day \<longrightarrow> time \<le> t'" "d' * 1440 + int t' < day * 1440 + int t" for d' t'
      using that t(3,5) by (cases "d' = day") auto
    then show ?thesis
      using Some t by (auto simp: walk_days.simps [of cron "Suc n"] intro!: exI [of _ day] exI [of _ t])
  next
    case None
    then have none: "\<not> (day_matches cron day \<and> time_matches cron t')" if "time \<le> t'" "t' < 1440" for t'
      using that spec by (auto split: if_splits)
    have eq: "walk_days cron (Suc n) day time = walk_days cron n (day + 1) 0"
      using None by (simp add: walk_days.simps [of cron "Suc n"])
    note IH = Suc.IH [of "day + 1" 0]
    show ?thesis
    proof (cases "walk_days cron n (day + 1) 0")
      case None
      then have later: "\<not> (day_matches cron d' \<and> time_matches cron t')"
        if "day + 1 \<le> d'" "d' < day + 1 + int n" "t' < 1440" for d' t'
        using IH that by simp
      have "\<not> (day_matches cron d' \<and> time_matches cron t')"
        if "day \<le> d'" "d' < day + int (Suc n)" "t' < 1440" "d' = day \<longrightarrow> time \<le> t'" for d' t'
        using that none later [of d' t'] by (cases "d' = day") simp_all
      then show ?thesis unfolding eq None option.case by blast
    next
      case (Some u)
      obtain d t where d: "u = (d * 1440 + int t) * 60000" "day + 1 \<le> d" "d < day + 1 + int n" "t < 1440"
        "day_matches cron d" "time_matches cron t"
        and first: "\<And>d' t'. day + 1 \<le> d' \<Longrightarrow> t' < 1440 \<Longrightarrow> d' * 1440 + int t' < d * 1440 + int t
          \<Longrightarrow> \<not> (day_matches cron d' \<and> time_matches cron t')"
        using IH unfolding Some option.case by auto
      have "\<not> (day_matches cron d' \<and> time_matches cron t')"
        if "day \<le> d'" "t' < 1440" "d' = day \<longrightarrow> time \<le> t'" "d' * 1440 + int t' < d * 1440 + int t" for d' t'
        using that none first [of d' t'] by (cases "d' = day") simp_all
      then show ?thesis
        unfolding eq Some option.case using d by (intro exI [of _ d] exI [of _ t]) auto
    qed
  qed
qed

text \<open>Every minute-aligned instant is a day and a minute of the day.\<close>

lemma cron_matches_minute:
  assumes "t < 1440"
  shows "cron_matches cron ((d * 1440 + int t) * 60000) = (day_matches cron d \<and> time_matches cron t)"
proof -
  have "(d * 1440 + int t) div 1440 = d" "(d * 1440 + int t) mod 1440 = int t"
    using assms by (simp_all add: div_pos_pos_trivial mod_pos_pos_trivial)
  then show ?thesis by (simp add: cron_matches_def time_matches_def Let_def)
qed

lemma minute_instant:
  fixes v :: int
  assumes "v mod 60000 = 0"
  obtains d t where "v = (d * 1440 + int t) * 60000" "t < 1440"
proof
  define m where "m = v div 60000"
  have v: "v = m * 60000" using assms div_mult_mod_eq [of v 60000] by (simp add: m_def)
  show "v = (m div 1440 * 1440 + int (nat (m mod 1440))) * 60000" by (simp add: v)
  have "m mod 1440 < 1440" by simp
  then show "nat (m mod 1440) < 1440" by simp
qed

text \<open>
  A match after the window of the walk has an equal in it. The days of the window form one cycle, so the match moves
  back into it by whole cycles; if it lands on the first day of the window, before the start, its companion is on
  another day of the window.
\<close>

lemma match_moves_into_window:
  assumes "day < d" "day_matches cron d"
  obtains d' where "day < d'" "d' < day + 146097" "day_matches cron d'"
proof -
  define r where "r = (d - day) mod 146097"
  have shift: "day_matches cron (z + int k * 146097) = day_matches cron z" for z k
  proof (induction k)
    case (Suc k)
    have "z + int (Suc k) * 146097 = z + int k * 146097 + 146097" by (simp add: algebra_simps)
    then show ?case using Suc day_matches_cycle [of cron "z + int k * 146097"] by (simp only:)
  qed simp
  have r: "0 \<le> r" "r < 146097" by (simp_all add: r_def)
  define k where "k = nat ((d - day) div 146097)"
  have "0 \<le> (d - day) div 146097" using assms(1) by (simp add: pos_imp_zdiv_nonneg_iff)
  then have "d = day + r + int k * 146097"
    using div_mult_mod_eq [of "d - day" 146097] unfolding k_def r_def by simp
  then have m: "day_matches cron (day + r)" using shift [of "day + r" k] assms(2) by simp
  show ?thesis
  proof (cases "r = 0")
    case False
    then show ?thesis using that [of "day + r"] m r by simp
  next
    case True
    obtain s where s: "s \<in> {10227, -10227, -2191}" "day_matches cron (day + s)"
      using day_companion [of cron day] m True by (metis add_0_right)
    then have "day_matches cron (day + s + 146097)" by (simp add: day_matches_cycle)
    then show ?thesis using s that [of "day + s"] that [of "day + s + 146097"] by auto
  qed
qed

lemma minute_after:
  fixes after d :: int
  assumes "t < 1440"
  defines "start \<equiv> after div 60000 + 1"
  shows "after < (d * 1440 + int t) * 60000 \<longleftrightarrow>
    start div 1440 < d \<or> d = start div 1440 \<and> nat (start mod 1440) \<le> t"
proof -
  define q where "q = after div 60000"
  define D where "D = start div 1440"
  define T where "T = start mod 1440"
  have q: "60000 * q \<le> after" "after < 60000 * q + 60000" using quotient_bounds [of 60000 after] by (simp_all add: q_def)
  have "start = D * 1440 + T" "0 \<le> T" "T < 1440" by (simp_all add: D_def T_def)
  moreover have "start = q + 1" by (simp add: start_def q_def)
  ultimately have "after < (d * 1440 + int t) * 60000 \<longleftrightarrow> D < d \<or> d = D \<and> T \<le> int t"
    using q assms(1) by auto
  then show ?thesis using \<open>0 \<le> T\<close> unfolding D_def [symmetric] T_def [symmetric] by (simp add: nat_le_iff)
qed

lemma next_after_spec:
  "case next_after cron after of
     Some u \<Rightarrow> after < u \<and> u mod 60000 = 0 \<and> cron_matches cron u
       \<and> (\<forall>v. after < v \<and> v < u \<and> v mod 60000 = 0 \<longrightarrow> \<not> cron_matches cron v)
   | None \<Rightarrow> \<forall>v. after < v \<and> v mod 60000 = 0 \<longrightarrow> \<not> cron_matches cron v"
proof -
  define start where "start = after div 60000 + 1"
  define D where "D = start div 1440"
  define T where "T = nat (start mod 1440)"
  have walk: "next_after cron after = walk_days cron MAX_LOOKAHEAD_DAYS D T"
    by (simp add: next_after_def Let_def start_def D_def T_def)
  have later: "after < (d * 1440 + int t) * 60000 \<longleftrightarrow> D < d \<or> d = D \<and> T \<le> t" if "t < 1440" for d t
    using minute_after [OF that, of after d] by (simp add: start_def D_def T_def)
  note spec = walk_days_spec [where cron = cron and n = MAX_LOOKAHEAD_DAYS and day = D and time = T]
  show ?thesis
  proof (cases "walk_days cron MAX_LOOKAHEAD_DAYS D T")
    case None
    then have none: "\<not> (day_matches cron d \<and> time_matches cron t)"
      if "D \<le> d" "d < D + 146097" "t < 1440" "d = D \<longrightarrow> T \<le> t" for d t
      using spec that by (simp add: MAX_LOOKAHEAD_DAYS_def)
    have "\<not> cron_matches cron v" if v: "after < v" "v mod 60000 = 0" for v
    proof
      assume m: "cron_matches cron v"
      obtain d t where dt: "v = (d * 1440 + int t) * 60000" "t < 1440" using minute_instant [OF v(2)] .
      have *: "day_matches cron d" "time_matches cron t" "D < d \<or> d = D \<and> T \<le> t"
        using m v(1) cron_matches_minute [OF dt(2)] later [OF dt(2)] by (simp_all add: dt(1))
      show False
      proof (cases "d = D")
        case True
        then show ?thesis using none [of d t] * dt(2) by simp
      next
        case False
        then obtain d' where "D < d'" "d' < D + 146097" "day_matches cron d'"
          using match_moves_into_window [of D d cron] * by auto
        then show ?thesis using none [of d' t] * dt(2) by simp
      qed
    qed
    then show ?thesis by (simp add: walk None)
  next
    case (Some u)
    then obtain d t where u: "u = (d * 1440 + int t) * 60000" and dt: "D \<le> d" "t < 1440" "d = D \<longrightarrow> T \<le> t"
      and m: "day_matches cron d" "time_matches cron t"
      and first: "\<And>d' t'. D \<le> d' \<Longrightarrow> t' < 1440 \<Longrightarrow> (d' = D \<longrightarrow> T \<le> t') \<Longrightarrow> d' * 1440 + int t' < d * 1440 + int t
        \<Longrightarrow> \<not> (day_matches cron d' \<and> time_matches cron t')"
      using spec by auto
    have "\<not> cron_matches cron v" if v: "after < v" "v < u" "v mod 60000 = 0" for v
    proof -
      obtain d' t' where v': "v = (d' * 1440 + int t') * 60000" "t' < 1440" using minute_instant [OF v(3)] .
      have "d' * 1440 + int t' < d * 1440 + int t" using v(2) by (simp add: u v')
      then have "\<not> (day_matches cron d' \<and> time_matches cron t')"
        using first [of d' t'] v(1) later [OF v'(2), of d'] v'(2) by (auto simp: v'(1))
      then show ?thesis unfolding v'(1) cron_matches_minute [OF v'(2)] .
    qed
    moreover have "after < u" using later [OF dt(2), of d] dt by (auto simp: u)
    moreover have "cron_matches cron u" unfolding u cron_matches_minute [OF dt(2)] using m ..
    moreover have "u mod 60000 = 0" by (simp add: u)
    ultimately show ?thesis by (simp add: walk Some)
  qed
qed

lemma next_across_spec:
  "case next_across crons after of
     Some u \<Rightarrow> after < u \<and> u mod 60000 = 0 \<and> (\<exists>cron\<in>set crons. cron_matches cron u)
       \<and> (\<forall>cron\<in>set crons. \<forall>v. after < v \<and> v mod 60000 = 0 \<and> cron_matches cron v \<longrightarrow> u \<le> v)
   | None \<Rightarrow> \<forall>cron\<in>set crons. \<forall>v. after < v \<and> v mod 60000 = 0 \<longrightarrow> \<not> cron_matches cron v"
proof -
  let ?us = "List.map_filter (\<lambda>cron. next_after cron after) crons"
  have us: "u \<in> set ?us \<longleftrightarrow> (\<exists>cron\<in>set crons. next_after cron after = Some u)" for u
    by (auto simp: List.map_filter_def image_iff)
  have spec: "(case next_after cron after of
      Some u \<Rightarrow> after < u \<and> u mod 60000 = 0 \<and> cron_matches cron u
        \<and> (\<forall>v. after < v \<and> v < u \<and> v mod 60000 = 0 \<longrightarrow> \<not> cron_matches cron v)
    | None \<Rightarrow> \<forall>v. after < v \<and> v mod 60000 = 0 \<longrightarrow> \<not> cron_matches cron v)" for cron
    by (rule next_after_spec)
  have least: "\<exists>u\<in>set ?us. u \<le> v" if "cron \<in> set crons" "after < v" "v mod 60000 = 0" "cron_matches cron v" for cron v
  proof (cases "next_after cron after")
    case None
    then show ?thesis using that spec [of cron] by auto
  next
    case (Some u)
    then have "\<not> v < u" using that spec [of cron] by auto
    then show ?thesis using Some that(1) us by (intro bexI [of _ u]) auto
  qed
  show ?thesis
  proof (cases "next_across crons after")
    case None
    then have "?us = []" by (simp add: next_across_def min_by_key_None)
    then show ?thesis using least None by fastforce
  next
    case (Some u)
    then have u: "min_by_key (\<lambda>t. t) ?us = Some u" by (simp add: next_across_def)
    obtain cron where c: "cron \<in> set crons" "next_after cron after = Some u" using min_by_key_mem [OF u] us by blast
    moreover have "u \<le> v" if "cron \<in> set crons" "after < v" "v mod 60000 = 0" "cron_matches cron v" for cron v
      using least [OF that] min_by_key_le [OF u] by (meson order_trans)
    ultimately show ?thesis using spec [of cron] Some by auto
  qed
qed

lemma alarm_retry_later: "now < i64_max \<Longrightarrow> alarm_retry now retry counted counts = Some at \<Longrightarrow> now < at"
proof -
  assume now: "now < i64_max" and "alarm_retry now retry counted counts = Some at"
  then have at: "at = i64_sat (now + 2000 * 2 ^ nat (max 0 (min MAX_BACKOFF_SHIFT retry)))"
    by (simp add: alarm_retry_def Let_def BACKOFF_BASE_MS_def split: if_splits)
  have "now < i64_sat (now + 2000 * x)" if "0 < x" for x using that now by (simp add: i64_sat_def max_def min_def)
  then show ?thesis unfolding at by simp
qed

text \<open>
  The deadline of a plan, over the due times \<open>due\<close> after now, the first of them \<open>n\<close> and the retry \<open>r\<close>.
\<close>

lemma rearm_deadline:
  fixes now :: int
  assumes "case n of Some u \<Rightarrow> now < u \<and> due u \<and> (\<forall>v. now < v \<and> due v \<longrightarrow> u \<le> v) | None \<Rightarrow> \<forall>v. now < v \<longrightarrow> \<not> due v"
    and "\<And>at. r = Some at \<Longrightarrow> now < at"
  defines "is_retry \<equiv> (case (cron_rearm n r, n) of
      (Some at, Some occurrence) \<Rightarrow> at < occurrence | (Some _, None) \<Rightarrow> True | (None, _) \<Rightarrow> False)"
  shows "case cron_rearm n r of
      Some at \<Rightarrow> now < at \<and> (\<forall>v. now < v \<and> due v \<longrightarrow> (if is_retry then at < v else at \<le> v))
        \<and> (if is_retry then r = Some at else due at)
    | None \<Rightarrow> r = None \<and> (\<forall>v. now < v \<longrightarrow> \<not> due v)"
proof (cases n)
  case None
  then show ?thesis using assms(1,2) by (cases r) (auto simp: is_retry_def)
next
  case (Some u)
  then have u: "now < u" "due u" "\<And>v. now < v \<Longrightarrow> due v \<Longrightarrow> u \<le> v" using assms(1) by auto
  show ?thesis
  proof (cases r)
    case (Some at)
    then show ?thesis using u(3) assms(2) \<open>n = Some u\<close> u(1,2) by (cases "at < u") (fastforce simp: is_retry_def min_def)+
  qed (use u Some in \<open>simp add: is_retry_def\<close>)
qed

section \<open>Parsing\<close>

lemma field_specs: "field_ok MINUTE" "field_ok HOUR" "field_ok DAY_OF_MONTH" "field_ok MONTH" "field_ok DAY_OF_WEEK"
  by (simp_all add: field_ok_def MINUTE_def HOUR_def DAY_OF_MONTH_def MONTH_def DAY_OF_WEEK_def)

lemma position_of_less: "position_of x xs = Some i \<Longrightarrow> i < length xs"
  by (induction xs arbitrary: i) (auto split: if_splits)

lemma parse_value_range: "parse_value text f = Ok v \<Longrightarrow> field_ok f \<Longrightarrow> fd_min f \<le> v \<and> v \<le> fd_max f"
  by (auto simp: parse_value_def Let_def field_ok_def split: option.splits if_splits dest: position_of_less)

lemma parse_range_range:
  "parse_range spec step f = Ok (a, b) \<Longrightarrow> field_ok f \<Longrightarrow> fd_min f \<le> a \<and> b \<le> fd_max f"
  by (auto simp: parse_range_def split: option.splits result.splits if_splits dest: parse_value_range)

lemma step_bits_within: "bits_within lo hi bits \<Longrightarrow> lo \<le> a \<Longrightarrow> b \<le> hi \<Longrightarrow> bits_within lo hi (step_bits bits a b step)"
proof (induction bits a b step rule: step_bits.induct)
  case (1 bits a b step)
  show ?case
  proof (cases "step = 0 \<or> b < a")
    case True
    then show ?thesis using "1.prems" by (simp add: step_bits.simps)
  next
    case False
    moreover have "bits_within lo hi (set_bit a bits)"
      using "1.prems" False by (auto simp: bits_within_def bit_set_bit_iff)
    ultimately show ?thesis using "1.IH" "1.prems" by (simp add: step_bits.simps [of bits])
  qed
qed

lemma parse_item_within: "parse_item item f = Ok b \<Longrightarrow> field_ok f \<Longrightarrow> bits_within (fd_min f) (fd_max f) b"
  by (auto simp: parse_item_def bits_within_def [of _ _ 0] split: result.splits prod.splits if_splits
      dest!: parse_range_range intro!: step_bits_within)

lemma bits_within_or: "bits_within lo hi a \<Longrightarrow> bits_within lo hi b \<Longrightarrow> bits_within lo hi (Bit_Operations.or a b)"
  by (auto simp: bits_within_def bit_or_iff)

lemma parse_items_within:
  "parse_items bits several text f items = Ok b \<Longrightarrow> field_ok f \<Longrightarrow> bits_within (fd_min f) (fd_max f) bits
   \<Longrightarrow> bits_within (fd_min f) (fd_max f) b"
  by (induction bits several "text" f items rule: parse_items.induct)
    (auto split: if_splits result.splits intro: bits_within_or parse_item_within)

lemma parse_field_within: "parse_field text f = Ok b \<Longrightarrow> field_ok f \<Longrightarrow> bits_within (fd_min f) (fd_max f) b"
  by (auto simp: parse_field_def Let_def bits_within_def [of _ _ 0] split: if_splits elim!: parse_items_within)

lemma bits_within_take: "bits_within lo hi b \<Longrightarrow> bits_within lo hi (take_bit n b)"
  by (auto simp: bits_within_def bit_take_bit_iff)

lemma parse_day_of_month_ok: "parse_day_of_month text = Ok d \<Longrightarrow> day_of_month_ok d"
  using parse_field_within [OF _ field_specs(3)] parse_value_range [OF _ field_specs(3)]
  by (auto simp: parse_day_of_month_def DAY_OF_MONTH_def Let_def bits_within_take
      split: if_splits option.splits result.splits prod.splits)

lemma parse_day_of_week_ok: "parse_day_of_week text = Ok d \<Longrightarrow> day_of_week_ok d"
proof -
  assume p: "parse_day_of_week text = Ok d"
  have v: "a - 1 \<le> 6" if "parse_value x DAY_OF_WEEK = Ok a" for x a
    using parse_value_range [OF that field_specs(5)] by (auto simp: DAY_OF_WEEK_def)
  have f: "bits_within 0 6 (take_bit 8 (drop_bit 1 b))" if "parse_field x DAY_OF_WEEK = Ok b" for x b
    using parse_field_within [OF that field_specs(5)]
    by (auto simp: bits_within_def bit_take_bit_iff bit_drop_bit_eq DAY_OF_WEEK_def)
  have "bits_within 0 6 (push_bit 6 1)" unfolding bits_within_def bit_push_bit_iff bit_1_iff by auto
  then show ?thesis
    using p v f by (auto simp: parse_day_of_week_def split: if_splits option.splits result.splits prod.splits)
qed

section \<open>Properties\<close>

text \<open>
  C25. \<open>next_after\<close> is exact. What it returns is the first minute strictly after the given instant that the
  expression matches; and when it returns nothing, the expression matches no later minute at all, however far in
  the future: the bound on the walk loses nothing.
\<close>

theorem next_after_is_first_match:
  "case next_after cron after of
     Some u \<Rightarrow> after < u \<and> u mod 60000 = 0 \<and> cron_matches cron u
       \<and> (\<forall>v. after < v \<and> v < u \<and> v mod 60000 = 0 \<longrightarrow> \<not> cron_matches cron v)
   | None \<Rightarrow> \<forall>v. after < v \<and> v mod 60000 = 0 \<longrightarrow> \<not> cron_matches cron v"
  by (rule next_after_spec)

theorem next_after_is_first_match_witness:
  "(case cron_parse ''30 6 * * MON'' of
      Ok c \<Rightarrow> next_after c 1700000000000 = Some 1700461800000 \<and> cron_matches c 1700461800000
    | Err _ \<Rightarrow> False)"
proof -
  let ?c = "\<lparr>cr_text = ''30 6 * * MON'', cr_minute = 1073741824, cr_hour = 64, cr_month = 8190,
    cr_day_of_month = DomAll, cr_day_of_week = DowDays 2\<rparr>"
  have p: "cron_parse ''30 6 * * MON'' = Ok ?c" by code_simp
  have n: "next_after ?c 1700000000000 = Some 1700461800000" by code_simp
  show ?thesis using next_after_is_first_match [where cron = ?c and after = 1700000000000] by (simp add: p n)
qed

text \<open>
  C26. What one plan of the cron cell answers. It runs each expression that matches the occurrence being handled
  exactly once, and nothing when the cell only arms; minutes that passed between that occurrence and now are not
  made up. The deadline it arms lies after now and no later than any minute after now that one of the expressions
  matches, so no occurrence after now is skipped. A deadline that is not a retry is itself such a minute, hence the
  first. A retry is the backoff of a failed occurrence below the retry ceiling, and it lies strictly before every
  such minute. There is no deadline only when no expression ever matches again and no retry is owed.
\<close>

theorem cron_plan_skips_nothing:
  assumes "now < i64_max"
  shows "let plan = cron_plan_of crons fired now retry failed in
     distinct (pn_matching plan)
     \<and> set (pn_matching plan) = {i. i < length crons \<and> (\<exists>at. fired = Some at \<and> cron_matches (crons ! i) at)}
     \<and> (case pn_arm_at plan of
          Some at \<Rightarrow> now < at
            \<and> (\<forall>cron\<in>set crons. \<forall>v. now < v \<and> v mod 60000 = 0 \<and> cron_matches cron v \<longrightarrow>
                 (if pn_arm_is_retry plan then at < v else at \<le> v))
            \<and> (if pn_arm_is_retry plan
               then failed \<and> retry < RETRY_CEILING \<and> alarm_retry now retry retry True = Some at
               else at mod 60000 = 0 \<and> (\<exists>cron\<in>set crons. cron_matches cron at))
        | None \<Rightarrow> (failed \<longrightarrow> RETRY_CEILING \<le> retry)
            \<and> (\<forall>cron\<in>set crons. \<forall>v. now < v \<and> v mod 60000 = 0 \<longrightarrow> \<not> cron_matches cron v))"
proof -
  define plan where "plan = cron_plan_of crons fired now retry failed"
  define r where "r = (if failed then alarm_retry now retry retry True else None)"
  define due where "due v \<longleftrightarrow> v mod 60000 = 0 \<and> (\<exists>cron\<in>set crons. cron_matches cron v)" for v
  have matched: "distinct (pn_matching plan)"
    "set (pn_matching plan) = {i. i < length crons \<and> (\<exists>at. fired = Some at \<and> cron_matches (crons ! i) at)}"
    by (auto simp: plan_def cron_plan_of_def matching_def Let_def split: option.split)
  have plan: "pn_arm_at plan = cron_rearm (next_across crons now) r"
    "pn_arm_is_retry plan = (case (cron_rearm (next_across crons now) r, next_across crons now) of
       (Some at, Some occurrence) \<Rightarrow> at < occurrence | (Some _, None) \<Rightarrow> True | (None, _) \<Rightarrow> False)"
    by (simp_all add: plan_def cron_plan_of_def r_def Let_def)
  have r: "now < at" "failed \<and> retry < RETRY_CEILING \<and> alarm_retry now retry retry True = Some at" if "r = Some at" for at
  proof -
    have at: "failed" "alarm_retry now retry retry True = Some at" using that by (simp_all add: r_def split: if_splits)
    then show "now < at" using alarm_retry_later [OF assms] by blast
    have "retry < RETRY_CEILING" using at(2) by (simp add: alarm_retry_def split: if_splits)
    then show "failed \<and> retry < RETRY_CEILING \<and> alarm_retry now retry retry True = Some at" using at by blast
  qed
  have ceiling: "failed \<longrightarrow> RETRY_CEILING \<le> retry" if "r = None"
    using that by (auto simp: r_def alarm_retry_def Let_def split: if_splits)
  have first: "case next_across crons now of Some u \<Rightarrow> now < u \<and> due u \<and> (\<forall>v. now < v \<and> due v \<longrightarrow> u \<le> v)
      | None \<Rightarrow> \<forall>v. now < v \<longrightarrow> \<not> due v"
    using next_across_spec [where crons = crons and after = now] by (auto simp: due_def split: option.splits)
  have dueI: "due v" if "cron \<in> set crons" "v mod 60000 = 0" "cron_matches cron v" for cron v
    unfolding due_def using that by blast
  note deadline = rearm_deadline [OF first, of r, OF r(1), folded plan]
  show ?thesis
  proof (cases "pn_arm_at plan")
    case None
    have n: "\<not> due v" if "now < v" for v using deadline [unfolded None option.case] that by blast
    have "\<forall>cron\<in>set crons. \<forall>v. now < v \<and> v mod 60000 = 0 \<longrightarrow> \<not> cron_matches cron v"
      by (intro ballI allI impI notI, elim conjE, erule notE [OF n], rule dueI)
    moreover have "r = None" using deadline [unfolded None option.case] by (rule conjunct1)
    ultimately show ?thesis
      unfolding Let_def plan_def [symmetric] None option.case by (intro conjI matched ceiling)
  next
    case (Some at)
    note d = deadline [unfolded Some option.case]
    have "\<forall>cron\<in>set crons. \<forall>v. now < v \<and> v mod 60000 = 0 \<and> cron_matches cron v \<longrightarrow>
        (if pn_arm_is_retry plan then at < v else at \<le> v)"
      by (intro ballI allI impI d [THEN conjunct2, THEN conjunct1, rule_format] conjI dueI; elim conjE; assumption)
    moreover have "if pn_arm_is_retry plan
        then failed \<and> retry < RETRY_CEILING \<and> alarm_retry now retry retry True = Some at
        else at mod 60000 = 0 \<and> (\<exists>cron\<in>set crons. cron_matches cron at)"
      using d [THEN conjunct2, THEN conjunct2] r(2) [of at] unfolding due_def by (cases "pn_arm_is_retry plan") (simp_all only: if_True if_False)
    ultimately show ?thesis
      unfolding Let_def plan_def [symmetric] Some option.case by (intro conjI matched d [THEN conjunct1])
  qed
qed

theorem cron_plan_skips_nothing_witness:
  "let plan = cron_plan_of
       [\<lparr>cr_text = ''30 6 * * MON'', cr_minute = 1073741824, cr_hour = 64, cr_month = 8190,
         cr_day_of_month = DomAll, cr_day_of_week = DowDays 2\<rparr>] (Some 1700461800000) 1700461800500 0 True
   in 0 \<in> set (pn_matching plan)
      \<and> (case pn_arm_at plan of Some at \<Rightarrow> 1700461800500 < at \<and> at \<le> 1701066600000 | None \<Rightarrow> False)"
proof -
  define c where "c = \<lparr>cr_text = ''30 6 * * MON'', cr_minute = 1073741824, cr_hour = 64, cr_month = 8190,
    cr_day_of_month = DomAll, cr_day_of_week = DowDays 2\<rparr>"
  define plan where "plan = cron_plan_of [c] (Some 1700461800000) 1700461800500 0 True"
  have now: "cron_matches c 1700461800000" unfolding c_def by code_simp
  have later: "1700461800500 < (1701066600000 :: ms) \<and> 1701066600000 mod 60000 = (0 :: ms) \<and> cron_matches c 1701066600000"
    unfolding c_def by code_simp
  have "(1700461800500 :: int) < i64_max" by (simp add: i64_max_def)
  note all = cron_plan_skips_nothing [OF this, of "[c]" "Some 1700461800000" 0 True, unfolded Let_def plan_def [symmetric]]
  note matched = all [THEN conjunct2, THEN conjunct1] and armed = all [THEN conjunct2, THEN conjunct2]
  have "0 \<in> set (pn_matching plan)" unfolding matched using now by simp
  moreover have "case pn_arm_at plan of Some at \<Rightarrow> 1700461800500 < at \<and> at \<le> 1701066600000 | None \<Rightarrow> False"
  proof (cases "pn_arm_at plan")
    case None
    show ?thesis using armed later unfolding None option.case by (meson list.set_intros(1))
  next
    case (Some at)
    note at = armed [unfolded Some option.case]
    have "if pn_arm_is_retry plan then at < 1701066600000 else at \<le> 1701066600000"
      using at [THEN conjunct2, THEN conjunct1] later by (meson list.set_intros(1))
    then show ?thesis using at [THEN conjunct1] unfolding Some by (cases "pn_arm_is_retry plan") simp_all
  qed
  ultimately show ?thesis unfolding plan_def c_def Let_def by blast
qed

text \<open>
  What parses is well formed: every bit set of a parsed expression holds only values of its field, and the
  special forms of the day fields carry offsets, days and counts in their ranges. So no value of the shifts and
  subtractions of the matcher is out of range.
\<close>

lemma parsed_cron_is_well_formed:
  assumes "cron_parse expression = Ok c"
  shows "cron_ok c"
proof -
  obtain minute hour month mdays wdays where f: "cron_fields (split_whitespace expression) = Ok (minute, hour, mdays, month, wdays)"
    and c: "c = \<lparr>cr_text = trim expression, cr_minute = minute, cr_hour = take_bit 32 hour,
      cr_month = take_bit 16 month, cr_day_of_month = mdays, cr_day_of_week = wdays\<rparr>"
    using assms by (auto simp: cron_parse_def split: result.splits)
  have "bits_within 0 59 minute \<and> bits_within 0 23 hour \<and> bits_within 1 12 month \<and> day_of_month_ok mdays \<and> day_of_week_ok wdays"
    using f parse_field_within [OF _ field_specs(1)] parse_field_within [OF _ field_specs(2)]
      parse_field_within [OF _ field_specs(4)] parse_day_of_month_ok parse_day_of_week_ok
    by (auto simp: cron_fields_def MINUTE_def HOUR_def MONTH_def split: list.splits result.splits)
  then show ?thesis by (simp add: cron_ok_def c bits_within_take)
qed

lemma parsed_cron_is_well_formed_witness:
  "cron_ok \<lparr>cr_text = ''30 6 L-3W * MON#2'', cr_minute = 1073741824, cr_hour = 64, cr_month = 8190,
     cr_day_of_month = DomLastOffsetWeekday 3, cr_day_of_week = DowNth 1 2\<rparr>"
proof (rule parsed_cron_is_well_formed)
  show "cron_parse ''30 6 L-3W * MON#2'' = Ok \<lparr>cr_text = ''30 6 L-3W * MON#2'', cr_minute = 1073741824, cr_hour = 64,
      cr_month = 8190, cr_day_of_month = DomLastOffsetWeekday 3, cr_day_of_week = DowNth 1 2\<rparr>"
    by code_simp
qed

end
