(* ===== verification/QueuePolicy.thy ===== *)
theory QueuePolicy
  imports Prelude "HOL-Library.Multiset"
begin

text \<open>
  The policy of a queue cell (\<open>queue.rs\<close>): the alarm deadline, retries, the transition of an expired lease, the
  plan of one lease transaction, the fence of a settlement, purges, and the bounds of a deployment's
  configuration. Milliseconds are \<open>i64\<close> values in \<open>int\<close>; additions saturate as in the code.
\<close>

section \<open>Definitions\<close>

definition QUEUE_CLASS :: string where
  "QUEUE_CLASS = ''__Queue''"

definition MAX_MESSAGE_BYTES :: nat where
  "MAX_MESSAGE_BYTES = 128000"

definition MAX_SEND_BATCH_BYTES :: nat where
  "MAX_SEND_BATCH_BYTES = 256000"

definition MAX_BATCH_MESSAGES :: nat where
  "MAX_BATCH_MESSAGES = 100"

definition MAX_BATCH_TIMEOUT_SECONDS :: nat where
  "MAX_BATCH_TIMEOUT_SECONDS = 60"

definition MAX_RETRIES :: nat where
  "MAX_RETRIES = 100"

definition MAX_CONCURRENCY :: nat where
  "MAX_CONCURRENCY = 250"

definition MAX_DELAY_SECONDS :: nat where
  "MAX_DELAY_SECONDS = 86400"

definition DEFAULT_MAX_BATCH_SIZE :: nat where
  "DEFAULT_MAX_BATCH_SIZE = 10"

definition DEFAULT_MAX_BATCH_TIMEOUT_SECONDS :: nat where
  "DEFAULT_MAX_BATCH_TIMEOUT_SECONDS = 5"

definition DEFAULT_MAX_RETRIES :: nat where
  "DEFAULT_MAX_RETRIES = 3"

definition RETENTION_MS :: ms where
  "RETENTION_MS = 4 * 24 * 60 * 60 * 1000"

definition queue_cell_name :: "string \<Rightarrow> string" where
  "queue_cell_name queue_name = queue_name"

subsection \<open>Deadlines and retries\<close>

definition rearm :: "ms \<Rightarrow> ms option \<Rightarrow> ms option \<Rightarrow> ms option \<Rightarrow> ms option \<Rightarrow> ms option" where
  "rearm now batch_deadline earliest_visible earliest_lease_expiry next_sweep =
     map_option (\<lambda>deadline. max deadline now)
       (min_by_key (\<lambda>t. t)
         (List.map_filter (\<lambda>d. d) [batch_deadline, earliest_visible, earliest_lease_expiry, next_sweep]))"

definition retry_at :: "ms \<Rightarrow> nat option \<Rightarrow> nat option \<Rightarrow> ms" where
  "retry_at now explicit_seconds configured_seconds =
     (let seconds = (case explicit_seconds of Some s \<Rightarrow> s
        | None \<Rightarrow> (case configured_seconds of Some s \<Rightarrow> s | None \<Rightarrow> 0))
      in i64_sat (now + i64_sat (int seconds * 1000)))"

definition exhausted :: "nat \<Rightarrow> nat \<Rightarrow> bool" where
  "exhausted attempt max_retries = (max_retries < attempt)"

datatype expired_lease_action = RetryAt ms | Exhausted | DeletePurged

record expired_lease =
  xl_attempt :: nat
  xl_action :: expired_lease_action

definition u16_max :: nat where
  "u16_max = 65535"

definition expire_lease :: "ms \<Rightarrow> nat \<Rightarrow> nat \<Rightarrow> nat option \<Rightarrow> bool \<Rightarrow> expired_lease" where
  "expire_lease now prior_failures max_retries configured_delay_seconds purge_on_settle =
     (let attempt = min u16_max (prior_failures + 1);
          action =
            (if purge_on_settle then DeletePurged
             else if exhausted attempt max_retries then Exhausted
             else RetryAt (retry_at now None configured_delay_seconds))
      in \<lparr>xl_attempt = attempt, xl_action = action\<rparr>)"

definition lease_duration_ms :: "ms \<Rightarrow> ms \<Rightarrow> ms \<Rightarrow> ms" where
  "lease_duration_ms admission_wait_ms handler_budget_ms settle_budget_ms =
     i64_sat (i64_sat (admission_wait_ms + handler_budget_ms) + settle_budget_ms)"

subsection \<open>Leases\<close>

record batch_row =
  br_seq :: int
  br_visible_at :: ms
  br_lease_generation :: nat
  br_leased_until :: "ms option"
  br_purge_on_settle :: bool

record planned_lease =
  pl_seq :: int
  pl_generation :: nat
  pl_reclaimed :: bool

record lease_member =
  lm_seq :: int
  lm_message_id :: string
  lm_generation :: nat

text \<open>
  The loop of \<open>settlement_matches\<close>: each submitted member takes the first current member that is equal to it and not
  taken yet.
\<close>

fun settle_all :: "lease_member list \<Rightarrow> bool list \<Rightarrow> lease_member list \<Rightarrow> bool" where
  "settle_all current matched [] = True"
| "settle_all current matched (s # submitted) =
     (case List.find
         (\<lambda>i. \<not> matched ! i \<and> lm_message_id (current ! i) = lm_message_id s
            \<and> lm_seq (current ! i) = lm_seq s \<and> lm_generation (current ! i) = lm_generation s)
         [0..<length current] of
        None \<Rightarrow> False
      | Some i \<Rightarrow> settle_all current (matched[i := True]) submitted)"

definition settlement_matches :: "lease_member list \<Rightarrow> lease_member list \<Rightarrow> bool" where
  "settlement_matches current submitted =
     (if current = [] \<or> length current \<noteq> length submitted then False
      else if list_ex (\<lambda>i. list_ex (\<lambda>prior. lm_message_id prior = lm_message_id (current ! i)) (take i current))
           [0..<length current] then False
      else settle_all current (replicate (length current) False) submitted)"

definition can_install_lease :: "nat \<Rightarrow> nat \<Rightarrow> bool" where
  "can_install_lease active_batches max_concurrency = (active_batches < max_concurrency)"

subsection \<open>Purges\<close>

record purge_row =
  pr_seq :: int
  pr_lease_id_present :: bool
  pr_leased_until :: "ms option"

record purge_plan_result =
  pp_delete :: "int list"
  pp_mark_for_settle :: "int list"

definition live_until :: "ms \<Rightarrow> ms option \<Rightarrow> bool" where
  "live_until now leased_until = (case leased_until of None \<Rightarrow> False | Some until \<Rightarrow> now < until)"

definition purge_step :: "ms \<Rightarrow> purge_row \<Rightarrow> purge_plan_result \<Rightarrow> purge_plan_result" where
  "purge_step now row plan =
     (if pr_lease_id_present row \<and> live_until now (pr_leased_until row)
      then plan\<lparr>pp_mark_for_settle := pp_mark_for_settle plan @ [pr_seq row]\<rparr>
      else plan\<lparr>pp_delete := pp_delete plan @ [pr_seq row]\<rparr>)"

definition purge_plan :: "ms \<Rightarrow> purge_row list \<Rightarrow> purge_plan_result" where
  "purge_plan now rows = fold (purge_step now) rows \<lparr>pp_delete = [], pp_mark_for_settle = []\<rparr>"

subsection \<open>The plan of a batch\<close>

record batch_plan_result =
  bp_leases :: "planned_lease list"
  bp_delete_purged :: "int list"

datatype plan_error = GenerationExhausted int

fun plan_rows :: "ms \<Rightarrow> nat \<Rightarrow> batch_plan_result \<Rightarrow> batch_row list \<Rightarrow> (batch_plan_result, plan_error) result" where
  "plan_rows now max_batch_size plan [] = Ok plan"
| "plan_rows now max_batch_size plan (row # rows) =
     (let live_lease = live_until now (br_leased_until row) in
      if br_purge_on_settle row then
        plan_rows now max_batch_size
          (if \<not> live_lease then plan\<lparr>bp_delete_purged := bp_delete_purged plan @ [br_seq row]\<rparr> else plan) rows
      else if max_batch_size \<le> length (bp_leases plan) \<or> now < br_visible_at row \<or> live_lease then
        plan_rows now max_batch_size plan rows
      else
        (case checked_add (br_lease_generation row) 1 of
           None \<Rightarrow> Err (GenerationExhausted (br_seq row))
         | Some generation \<Rightarrow>
             plan_rows now max_batch_size
               (plan\<lparr>bp_leases := bp_leases plan @
                  [\<lparr>pl_seq = br_seq row, pl_generation = generation,
                    pl_reclaimed = (br_leased_until row \<noteq> None)\<rparr>]\<rparr>) rows))"

definition batch_plan :: "ms \<Rightarrow> batch_row list \<Rightarrow> nat \<Rightarrow> (batch_plan_result, plan_error) result" where
  "batch_plan now rows max_batch_size =
     plan_rows now max_batch_size \<lparr>bp_leases = [], bp_delete_purged = []\<rparr> rows"

subsection \<open>Configuration\<close>

record queue_config =
  qc_max_batch_size :: nat
  qc_max_batch_timeout_seconds :: nat
  qc_max_retries :: nat
  qc_max_concurrency :: "nat option"
  qc_delivery_delay_seconds :: nat
  qc_retry_delay_seconds :: "nat option"

datatype config_error = ConfigError string string

definition validate_config :: "queue_config \<Rightarrow> (unit, config_error) result" where
  "validate_config config =
     (if \<not> (1 \<le> qc_max_batch_size config \<and> qc_max_batch_size config \<le> MAX_BATCH_MESSAGES)
      then Err (ConfigError ''max_batch_size'' ''must be between 1 and 100'')
      else if MAX_BATCH_TIMEOUT_SECONDS < qc_max_batch_timeout_seconds config
      then Err (ConfigError ''max_batch_timeout'' ''must be between 0 and 60 seconds'')
      else if MAX_RETRIES < qc_max_retries config
      then Err (ConfigError ''max_retries'' ''must be between 0 and 100'')
      else if (case qc_max_concurrency config of None \<Rightarrow> False | Some v \<Rightarrow> \<not> (1 \<le> v \<and> v \<le> MAX_CONCURRENCY))
      then Err (ConfigError ''max_concurrency'' ''must be between 1 and 250'')
      else if MAX_DELAY_SECONDS < qc_delivery_delay_seconds config
      then Err (ConfigError ''delivery_delay'' ''must be between 0 and 86400 seconds'')
      else if (case qc_retry_delay_seconds config of None \<Rightarrow> False | Some v \<Rightarrow> MAX_DELAY_SECONDS < v)
      then Err (ConfigError ''retry_delay'' ''must be between 0 and 86400 seconds'')
      else Ok ())"

subsection \<open>What the properties speak of\<close>

definition deliverable :: "ms \<Rightarrow> batch_row \<Rightarrow> bool" where
  "deliverable now row =
     (\<not> br_purge_on_settle row \<and> br_visible_at row \<le> now \<and> \<not> live_until now (br_leased_until row))"

definition lease_of :: "batch_row \<Rightarrow> planned_lease" where
  "lease_of row =
     \<lparr>pl_seq = br_seq row, pl_generation = br_lease_generation row + 1, pl_reclaimed = (br_leased_until row \<noteq> None)\<rparr>"

definition unmatched :: "lease_member list \<Rightarrow> bool list \<Rightarrow> lease_member list" where
  "unmatched current matched = map fst (filter (\<lambda>(_, m). \<not> m) (zip current matched))"

section \<open>Lemmas\<close>

lemma plan_rows_exact:
  "plan_rows now max_batch_size plan rows =
     (let chosen = take (max_batch_size - length (bp_leases plan)) (filter (deliverable now) rows) in
      case List.find (\<lambda>r. u64_max < br_lease_generation r + 1) chosen of
        Some r \<Rightarrow> Err (GenerationExhausted (br_seq r))
      | None \<Rightarrow> Ok (plan\<lparr>bp_leases := bp_leases plan @ map lease_of chosen,
          bp_delete_purged := bp_delete_purged plan @
            map br_seq (filter (\<lambda>r. br_purge_on_settle r \<and> \<not> live_until now (br_leased_until r)) rows)\<rparr>))"
proof (induction rows arbitrary: plan)
  case (Cons row rows)
  show ?case
  proof (cases "deliverable now row \<and> length (bp_leases plan) < max_batch_size")
    case True
    then obtain n where n: "max_batch_size - length (bp_leases plan) = Suc n"
      by (cases "max_batch_size - length (bp_leases plan)") auto
    then have "max_batch_size - Suc (length (bp_leases plan)) = n" by simp
    then show ?thesis
      using True n by (auto simp: Cons.IH deliverable_def lease_of_def checked_add_def Let_def not_le cong: option.case_cong)
  next
    case False
    then show ?thesis
      by (auto simp: Cons.IH deliverable_def Let_def not_less cong: option.case_cong)
  qed
qed (simp add: Let_def)

lemma unmatched_fresh: "unmatched current (replicate (length current) False) = current"
  by (simp add: unmatched_def zip_replicate2 filter_map o_def)

lemma unmatched_update:
  assumes "length matched = length current" "i < length current" "\<not> matched ! i"
  shows "mset (unmatched current matched) = add_mset (current ! i) (mset (unmatched current (matched[i := True])))"
  using assms
proof (induction current matched arbitrary: i rule: list_induct2')
  case (4 c cs m ms)
  then show ?case by (cases i) (auto simp: unmatched_def)
qed (simp_all add: unmatched_def)

lemma unmatched_mem:
  assumes "length matched = length current"
  shows "x \<in># mset (unmatched current matched) \<longleftrightarrow> (\<exists>i<length current. \<not> matched ! i \<and> current ! i = x)"
  using assms by (force simp: unmatched_def set_zip image_iff)

lemma settle_all_submultiset:
  "length matched = length current \<Longrightarrow> settle_all current matched submitted \<longleftrightarrow> mset submitted \<subseteq># mset (unmatched current matched)"
proof (induction submitted arbitrary: matched)
  case (Cons s submitted)
  have same: "lm_message_id a = lm_message_id b \<and> lm_seq a = lm_seq b \<and> lm_generation a = lm_generation b \<longleftrightarrow> a = b"
    for a b :: lease_member by (cases a; cases b) auto
  let ?f = "List.find (\<lambda>i. \<not> matched ! i \<and> lm_message_id (current ! i) = lm_message_id s
    \<and> lm_seq (current ! i) = lm_seq s \<and> lm_generation (current ! i) = lm_generation s) [0..<length current]"
  show ?case
  proof (cases ?f)
    case None
    then have "s \<notin># mset (unmatched current matched)"
      unfolding unmatched_mem [OF Cons.prems] same by (auto simp: find_None_iff)
    then show ?thesis using None by (auto dest: mset_subset_eqD)
  next
    case (Some i)
    then have i: "i < length current" "\<not> matched ! i" "current ! i = s"
      unfolding same by (auto simp: find_Some_iff)
    then show ?thesis
      using Some Cons.IH [of "matched[i := True]"] Cons.prems unmatched_update [OF Cons.prems i(1,2)] by simp
  qed
qed simp

lemma repeated_prefix:
  "list_ex (\<lambda>i. list_ex (\<lambda>p. f p = f (xs ! i)) (take i xs)) [0..<length xs] \<longleftrightarrow> \<not> distinct (map f xs)"
  (is "?lhs \<longleftrightarrow> _")
proof -
  have e: "(\<exists>p\<in>set (take i xs). f p = f (xs ! i)) \<longleftrightarrow> (\<exists>j<i. f (xs ! j) = f (xs ! i))" if "i < length xs" for i
    unfolding nth_image [OF less_imp_le [OF that], symmetric] by auto
  have order: "(\<exists>i<n. \<exists>j<i. P j i) \<longleftrightarrow> (\<exists>i<n. \<exists>j<n. i \<noteq> j \<and> P i j)"
    if sym: "\<And>i j. P i j = P j i" for n :: nat and P
  proof
    assume "\<exists>i<n. \<exists>j<i. P j i"
    then obtain i j where "i < n" "j < i" "P j i" by blast
    then have "i < n \<and> j < n \<and> i \<noteq> j \<and> P i j" using sym [of i j] by simp
    then show "\<exists>i<n. \<exists>j<n. i \<noteq> j \<and> P i j" by blast
  next
    assume "\<exists>i<n. \<exists>j<n. i \<noteq> j \<and> P i j"
    then obtain i j where ij: "i < n" "j < n" "i \<noteq> j" "P i j" by blast
    then consider "j < i" "P j i" | "i < j" using sym [of i j] by fastforce
    then show "\<exists>i<n. \<exists>j<i. P j i" by cases (use ij in blast)+
  qed
  have "?lhs \<longleftrightarrow> (\<exists>i<length xs. \<exists>p\<in>set (take i xs). f p = f (xs ! i))"
    by (simp add: list_ex_iff Bex_def)
  also have "\<dots> \<longleftrightarrow> (\<exists>i<length xs. \<exists>j<i. f (xs ! j) = f (xs ! i))" by (simp add: e cong: conj_cong)
  also have "\<dots> \<longleftrightarrow> (\<exists>i<length xs. \<exists>j<length xs. i \<noteq> j \<and> f (xs ! i) = f (xs ! j))"
    by (rule order) (rule eq_commute)
  also have "\<dots> \<longleftrightarrow> \<not> distinct (map f xs)" unfolding distinct_conv_nth by simp
  finally show ?thesis .
qed

section \<open>Properties\<close>

text \<open>
  C27. One lease transaction does exactly what its reference says: of the rows that are visible, not purged and not
  under a live lease it leases the first \<open>max_batch_size\<close> in their order, each under the next generation; it
  deletes the purged rows without a live lease; and it fails only on a chosen row whose generation cannot grow.
\<close>

theorem batch_plan_exact:
  "batch_plan now rows max_batch_size =
     (let chosen = take max_batch_size (filter (deliverable now) rows) in
      case List.find (\<lambda>r. u64_max < br_lease_generation r + 1) chosen of
        Some r \<Rightarrow> Err (GenerationExhausted (br_seq r))
      | None \<Rightarrow> Ok \<lparr>bp_leases = map lease_of chosen,
          bp_delete_purged = map br_seq (filter (\<lambda>r. br_purge_on_settle r \<and> \<not> live_until now (br_leased_until r)) rows)\<rparr>)"
  by (simp add: batch_plan_def plan_rows_exact Let_def cong: option.case_cong)

text \<open>
  C28. A settlement is accepted exactly when it names the complete current batch: the batch is not empty, its
  message identities are distinct, and what was submitted is a permutation of it. A member with an older
  generation, a truncated batch or a repeated member is refused.
\<close>

theorem settlement_matches_iff:
  "settlement_matches current submitted \<longleftrightarrow>
     current \<noteq> [] \<and> distinct (map lm_message_id current) \<and> mset submitted = mset current"
proof -
  have "mset submitted \<subseteq># mset current \<longleftrightarrow> mset submitted = mset current" if "length current = length submitted"
    using that mset_subset_size [of "mset submitted" "mset current"] by (auto simp: subset_mset.less_le)
  moreover have "length current = length submitted" if "mset submitted = mset current" using that by (metis size_mset)
  moreover have "settlement_matches current submitted \<longleftrightarrow>
      current \<noteq> [] \<and> length current = length submitted \<and> distinct (map lm_message_id current) \<and> mset submitted \<subseteq># mset current"
    unfolding settlement_matches_def repeated_prefix
    using settle_all_submultiset [of "replicate (length current) False" current submitted, unfolded unmatched_fresh]
    by (cases "length current = length submitted") auto
  ultimately show ?thesis by blast
qed

end
