(* ===== verification/KvPolicy.thy ===== *)
theory KvPolicy
  imports Text WakeLaws "HOL-Library.Word"
begin

text \<open>
  Workers KV: the addresses and bounds of \<open>crates/logic/kv.rs\<close> and the large-value protocol of
  \<open>crates/celld/kv_blob.rs\<close>, which stores values above the inline bound in the bucket.

  A row of the namespace names a large value by a \<^emph>\<open>blob reference\<close>: a bare digest (the legacy format) or
  \<open>v2:e<epoch>:<digest>\<close>. \<open>blob_run\<close> is one request of the protocol against the bucket. The bucket is a
  map from object keys to bytes; the JSON decoder is not part of the model, so a request arrives decoded, and
  \<open>store_faults\<close> says which operations of the object store fail.
\<close>

unbundle bit_operations_syntax

section \<open>References and bounds\<close>

definition KV_RESERVED_CLASS :: string where
  "KV_RESERVED_CLASS = ''__KvNamespace''"

definition MAX_KEY_BYTES :: nat where
  "MAX_KEY_BYTES = 512"

definition MAX_VALUE_BYTES :: nat where
  "MAX_VALUE_BYTES = 25 * 1024 * 1024"

definition MAX_INLINE_VALUE_BYTES :: nat where
  "MAX_INLINE_VALUE_BYTES = 1024 * 1024"

definition MAX_METADATA_BYTES :: nat where
  "MAX_METADATA_BYTES = 1024"

definition MIN_EXPIRATION_TTL_MS :: int where
  "MIN_EXPIRATION_TTL_MS = 60000"

definition MAX_BULK_KEYS :: nat where
  "MAX_BULK_KEYS = 100"

definition MAX_LIST_LIMIT :: nat where
  "MAX_LIST_LIMIT = 1000"

datatype blob_ref = Legacy string | V2 epoch string

datatype blob_ref_error = Shape | Version | EpochError | DigestError

fun blob_ref_error_text :: "blob_ref_error \<Rightarrow> string" where
  "blob_ref_error_text Shape = ''the KV blob reference has an invalid shape''"
| "blob_ref_error_text Version = ''the KV blob reference has an unknown version''"
| "blob_ref_error_text EpochError = ''the KV blob reference has an invalid epoch''"
| "blob_ref_error_text DigestError = ''the KV blob reference has an invalid digest''"

definition ascii_uppercase :: "char \<Rightarrow> bool" where
  "ascii_uppercase c \<longleftrightarrow> CHR ''A'' \<le> c \<and> c \<le> CHR ''Z''"

definition blob_digest_ok :: "string \<Rightarrow> bool" where
  "blob_digest_ok digest \<longleftrightarrow>
     length digest = 64 \<and> list_all (\<lambda>b. ascii_hexdigit b \<and> \<not> ascii_uppercase b) digest"

definition validate_blob_digest :: "string \<Rightarrow> (string, blob_ref_error) result" where
  "validate_blob_digest digest = (if blob_digest_ok digest then Ok digest else Err DigestError)"

text \<open>\<open>str::parse::<u64>\<close>: an optional plus sign, then decimal digits, and no value above \<open>u64::MAX\<close>.\<close>

definition parse_u64 :: "string \<Rightarrow> nat option" where
  "parse_u64 s =
     (let digits = (if s \<noteq> [] \<and> hd s = CHR ''+'' then tl s else s) in
      if digits = [] then None
      else
        (case dec_value 0 digits of
           None \<Rightarrow> None
         | Some v \<Rightarrow> if v \<le> int u64_max then Some (nat v) else None))"

definition parse_blob_epoch :: "string \<Rightarrow> (epoch, blob_ref_error) result" where
  "parse_blob_epoch epoch =
     (case strip_prefix ''e'' epoch of
        None \<Rightarrow> Err EpochError
      | Some digits \<Rightarrow>
          if digits = [] \<or> hd digits = CHR ''0'' then Err EpochError
          else
            (case parse_u64 digits of
               None \<Rightarrow> Err EpochError
             | Some e \<Rightarrow> if 0 < e then Ok e else Err EpochError))"

definition blob_v2_of :: "string \<Rightarrow> string \<Rightarrow> (blob_ref, blob_ref_error) result" where
  "blob_v2_of epoch digest =
     (case parse_blob_epoch epoch of
        Err e \<Rightarrow> Err e
      | Ok e \<Rightarrow>
          (case validate_blob_digest digest of
             Err x \<Rightarrow> Err x
           | Ok d \<Rightarrow> Ok (V2 e d)))"

definition blob_parse :: "string \<Rightarrow> (blob_ref, blob_ref_error) result" where
  "blob_parse reference =
     (if CHR '':'' \<notin> set reference then
        (case validate_blob_digest reference of
           Err e \<Rightarrow> Err e
         | Ok d \<Rightarrow> Ok (Legacy reference))
      else
        let parts = split_on CHR '':'' reference in
        if 3 < length parts then Err Shape
        else if hd parts \<noteq> ''v2'' then Err Version
        else
          (case parts of
             [_, epoch, digest] \<Rightarrow> blob_v2_of epoch digest
           | _ \<Rightarrow> Err Shape))"

definition blob_v2 :: "epoch \<Rightarrow> string \<Rightarrow> (blob_ref, blob_ref_error) result" where
  "blob_v2 epoch digest =
     (if epoch = 0 then Err EpochError
      else
        (case validate_blob_digest digest of
           Err e \<Rightarrow> Err e
         | Ok d \<Rightarrow> Ok (V2 epoch d)))"

definition parse_object_suffix :: "string \<Rightarrow> (blob_ref, blob_ref_error) result" where
  "parse_object_suffix suffix =
     (case split_on CHR ''/'' suffix of
        [epoch, digest] \<Rightarrow> blob_v2_of epoch digest
      | _ \<Rightarrow> Err Shape)"

fun blob_digest :: "blob_ref \<Rightarrow> string" where
  "blob_digest (Legacy digest) = digest"
| "blob_digest (V2 _ digest) = digest"

fun blob_epoch :: "blob_ref \<Rightarrow> epoch option" where
  "blob_epoch (Legacy _) = None"
| "blob_epoch (V2 epoch _) = Some epoch"

fun blob_encode :: "blob_ref \<Rightarrow> string" where
  "blob_encode (Legacy digest) = digest"
| "blob_encode (V2 epoch digest) = ''v2:e'' @ dec_digits epoch @ '':'' @ digest"

fun object_key :: "blob_ref \<Rightarrow> cell_id \<Rightarrow> string" where
  "object_key (Legacy digest) cell = ''kv/blobs/'' @ cell @ ''/'' @ digest"
| "object_key (V2 epoch digest) cell =
     ''kv/blobs-v2/'' @ cell @ ''/e'' @ dec_digits epoch @ ''/'' @ digest"

definition v2_object_prefix :: "cell_id \<Rightarrow> string" where
  "v2_object_prefix cell = ''kv/blobs-v2/'' @ cell @ ''/''"

definition readable_by :: "blob_ref \<Rightarrow> epoch \<Rightarrow> bool" where
  "readable_by r activation_epoch \<longleftrightarrow>
     (case blob_epoch r of None \<Rightarrow> True | Some e \<Rightarrow> e \<le> activation_epoch)"

definition writable_by :: "blob_ref \<Rightarrow> epoch \<Rightarrow> bool" where
  "writable_by r activation_epoch \<longleftrightarrow> blob_epoch r = Some activation_epoch"

definition collectable_by :: "blob_ref \<Rightarrow> epoch \<Rightarrow> bool" where
  "collectable_by r collector_epoch \<longleftrightarrow>
     (case blob_epoch r of None \<Rightarrow> False | Some e \<Rightarrow> e \<le> collector_epoch)"

definition SHARDS :: nat where
  "SHARDS = 1"

definition fnv_step :: "char \<Rightarrow> 64 word \<Rightarrow> 64 word" where
  "fnv_step byte hash = (hash XOR word_of_nat (of_char byte)) * 0x00000100000001b3"

definition shard_of :: "string \<Rightarrow> nat \<Rightarrow> nat" where
  "shard_of key shards = unat (fold fnv_step key 0xcbf29ce484222325) mod max shards 1"

definition kv_cell_name :: "string \<Rightarrow> nat \<Rightarrow> string" where
  "kv_cell_name namespace_id shard = namespace_id @ ''/'' @ dec_digits shard"

definition list_limit :: "int option \<Rightarrow> nat" where
  "list_limit requested =
     (case requested of
        Some limit \<Rightarrow> if 0 < limit then min (nat limit) MAX_LIST_LIMIT else MAX_LIST_LIMIT
      | None \<Rightarrow> MAX_LIST_LIMIT)"

section \<open>The large-value protocol\<close>

type_synonym bytes = "nat list"
type_synonym blob_bucket = "(string, bytes) bmap"

text \<open>A decoded request: its string fields, and the array \<open>live\<close> with \<open>None\<close> for a member that is no string.\<close>

record blob_request =
  rq_strings :: "(string \<times> string) list"
  rq_live :: "string option list option"

datatype blob_reply =
    BlobBytes bytes
  | Prepared string
  | NotFound
  | PutOk
  | Removed nat

text \<open>
  What can go wrong with the store: it may be absent, each call may fail with a message, and a delete may be
  refused for some of the keys.
\<close>

record store_faults =
  absent :: "string option"
  get_fails :: "string option"
  put_fails :: "string option"
  list_fails :: "string option"
  delete_refused :: "string \<Rightarrow> bool"

definition request_field :: "blob_request \<Rightarrow> string \<Rightarrow> (string, string) result" where
  "request_field rq name =
     (case map_of (rq_strings rq) name of
        Some v \<Rightarrow> Ok v
      | None \<Rightarrow> Err (''request has no '' @ name))"

definition blob_error :: "(blob_ref, blob_ref_error) result \<Rightarrow> (blob_ref, string) result" where
  "blob_error r = (case r of Ok b \<Rightarrow> Ok b | Err e \<Rightarrow> Err (blob_ref_error_text e))"

fun live_references :: "epoch \<Rightarrow> string option list \<Rightarrow> string list \<Rightarrow> (string list, string) result" where
  "live_references epoch [] live = Ok live"
| "live_references epoch (None # vals) live = Err ''the live blob reference list contains a non-string''"
| "live_references epoch (Some s # vals) live =
     (case blob_error (blob_parse s) of
        Err e \<Rightarrow> Err e
      | Ok r \<Rightarrow>
          if \<not> readable_by r epoch then Err ''the live blob reference list contains a later epoch''
          else
            live_references epoch vals
              (case r of V2 _ _ \<Rightarrow> List.insert (blob_encode r) live | Legacy _ \<Rightarrow> live))"

fun doomed_keys :: "string \<Rightarrow> epoch \<Rightarrow> string list \<Rightarrow> string list \<Rightarrow> (string list, string) result" where
  "doomed_keys prefix epoch live [] = Ok []"
| "doomed_keys prefix epoch live (key # listed) =
     (case strip_prefix prefix key of
        None \<Rightarrow> Err ''the KV blob listing returned a key outside its prefix''
      | Some suffix \<Rightarrow>
          (case blob_error (parse_object_suffix suffix) of
             Err e \<Rightarrow> Err e
           | Ok r \<Rightarrow>
               (case doomed_keys prefix epoch live listed of
                  Err e \<Rightarrow> Err e
                | Ok doomed \<Rightarrow>
                    Ok (if collectable_by r epoch \<and> blob_encode r \<notin> set live then key # doomed else doomed))))"

definition kv_sweep ::
  "store_faults \<Rightarrow> cell_id \<Rightarrow> epoch \<Rightarrow> string option list \<Rightarrow> blob_bucket \<Rightarrow> blob_bucket \<times> (blob_reply, string) result" where
  "kv_sweep io cell epoch vals bucket =
     (case live_references epoch vals [] of
        Err e \<Rightarrow> (bucket, Err e)
      | Ok live \<Rightarrow>
          let prefix = v2_object_prefix cell in
          case (absent io, list_fails io) of
            (Some e, _) \<Rightarrow> (bucket, Err e)
          | (None, Some e) \<Rightarrow> (bucket, Err e)
          | (None, None) \<Rightarrow>
              (case doomed_keys prefix epoch live (filter (\<lambda>k. take (length prefix) k = prefix) (bm_keys bucket)) of
                 Err e \<Rightarrow> (bucket, Err e)
               | Ok doomed \<Rightarrow>
                   let gone = filter (\<lambda>k. \<not> delete_refused io k) doomed;
                       bucket' = filter (\<lambda>(k, _). k \<notin> set gone) bucket in
                   if length gone \<noteq> length doomed
                   then (bucket', Err (dec_digits (length doomed - length gone) @ '' blob(s) refused deletion''))
                   else (bucket', Ok (Removed (length gone)))))"

definition kv_get ::
  "store_faults \<Rightarrow> cell_id \<Rightarrow> epoch \<Rightarrow> string \<Rightarrow> blob_bucket \<Rightarrow> (blob_reply, string) result" where
  "kv_get io cell epoch reference bucket =
     (case blob_error (blob_parse reference) of
        Err e \<Rightarrow> Err e
      | Ok r \<Rightarrow>
          if \<not> readable_by r epoch then Err ''a KV row references a later ownership epoch''
          else
            case (absent io, get_fails io) of
              (Some e, _) \<Rightarrow> Err e
            | (None, Some e) \<Rightarrow> Err e
            | (None, None) \<Rightarrow>
                (case bm_get bucket (object_key r cell) of
                   Some b \<Rightarrow> Ok (BlobBytes b)
                 | None \<Rightarrow> Ok NotFound))"

definition kv_put ::
  "store_faults \<Rightarrow> cell_id \<Rightarrow> epoch \<Rightarrow> string \<Rightarrow> bytes \<Rightarrow> blob_bucket \<Rightarrow> blob_bucket \<times> (blob_reply, string) result" where
  "kv_put io cell epoch reference bs bucket =
     (case blob_error (blob_parse reference) of
        Err e \<Rightarrow> (bucket, Err e)
      | Ok r \<Rightarrow>
          if \<not> writable_by r epoch then (bucket, Err ''a new KV blob must use the active ownership epoch'')
          else
            case (absent io, put_fails io) of
              (Some e, _) \<Rightarrow> (bucket, Err e)
            | (None, Some e) \<Rightarrow> (bucket, Err e)
            | (None, None) \<Rightarrow> (bm_insert (object_key r cell) bs bucket, Ok PutOk))"

definition blob_run ::
  "store_faults \<Rightarrow> cell_id \<Rightarrow> epoch \<Rightarrow> blob_request \<Rightarrow> bytes option \<Rightarrow> blob_bucket
     \<Rightarrow> blob_bucket \<times> (blob_reply, string) result" where
  "blob_run io cell epoch rq payload bucket =
     (case request_field rq ''mode'' of
        Err e \<Rightarrow> (bucket, Err e)
      | Ok mode \<Rightarrow>
          if mode = ''prepare'' then
            (case request_field rq ''digest'' of
               Err e \<Rightarrow> (bucket, Err e)
             | Ok digest \<Rightarrow>
                 (case blob_error (blob_v2 epoch digest) of
                    Err e \<Rightarrow> (bucket, Err e)
                  | Ok r \<Rightarrow> (bucket, Ok (Prepared (blob_encode r)))))
          else if mode = ''get'' then
            (case request_field rq ''reference'' of
               Err e \<Rightarrow> (bucket, Err e)
             | Ok reference \<Rightarrow> (bucket, kv_get io cell epoch reference bucket))
          else if mode = ''put'' then
            (case payload of
               None \<Rightarrow> (bucket, Err ''request has no byte view'')
             | Some bs \<Rightarrow>
                 (case request_field rq ''reference'' of
                    Err e \<Rightarrow> (bucket, Err e)
                  | Ok reference \<Rightarrow> kv_put io cell epoch reference bs bucket))
          else if mode = ''sweep'' then
            (case rq_live rq of
               None \<Rightarrow> (bucket, Err ''request has no live blob reference list'')
             | Some vals \<Rightarrow> kv_sweep io cell epoch vals bucket)
          else (bucket, Err (''unknown mode '' @ mode)))"

text \<open>A reference the writer can have committed: a lower-case digest, and for \<open>V2\<close> an epoch of \<open>u64\<close> above zero.\<close>

fun blob_ok :: "blob_ref \<Rightarrow> bool" where
  "blob_ok (Legacy d) \<longleftrightarrow> blob_digest_ok d"
| "blob_ok (V2 e d) \<longleftrightarrow> 0 < e \<and> e \<le> u64_max \<and> blob_digest_ok d"

text \<open>Whether a sweep dooms a listed key.\<close>

definition doomed_key :: "string \<Rightarrow> epoch \<Rightarrow> string list \<Rightarrow> string \<Rightarrow> bool" where
  "doomed_key prefix epoch live key \<longleftrightarrow>
     (case strip_prefix prefix key of
        None \<Rightarrow> False
      | Some suffix \<Rightarrow>
          (case parse_object_suffix suffix of
             Err _ \<Rightarrow> False
           | Ok r \<Rightarrow> collectable_by r epoch \<and> blob_encode r \<notin> set live))"

definition no_faults :: store_faults where
  "no_faults = \<lparr>absent = None, get_fails = None, put_fails = None, list_fails = None, delete_refused = (\<lambda>_. False)\<rparr>"

section \<open>Digits and digests\<close>

declare dec_digits.simps [simp del]

lemma dec_value_append: "dec_value acc (xs @ ys) = (case dec_value acc xs of None \<Rightarrow> None | Some a \<Rightarrow> dec_value a ys)"
  by (induction acc xs rule: dec_value.induct) (auto simp: Let_def)

lemma dec_digits_value: "dec_value 0 (dec_digits n) = Some (int n)"
proof (induction n rule: dec_digits.induct)
  case (1 n)
  show ?case
  proof (cases "n < 10")
    case True
    then show ?thesis by (simp add: dec_digits_small del: dec_value.simps) simp
  next
    case False
    have "int (n div 10) * 10 + int (n mod 10) = int n" by presburger
    then show ?thesis using 1 False
      by (simp add: dec_digits_step dec_value_append del: dec_value.simps) simp
  qed
qed

lemma dec_digits_chars: "c \<in> set (dec_digits n) \<Longrightarrow> \<exists>k<10. c = digit k"
proof (induction n rule: dec_digits.induct)
  case (1 n)
  then show ?case
    by (cases "n < 10") (auto simp: dec_digits_small dec_digits_step,
      metis mod_less_divisor zero_less_numeral)
qed

lemma dec_digits_head: "0 < n \<Longrightarrow> \<exists>k cs. dec_digits n = digit k # cs \<and> 0 < k \<and> k < 10"
proof (induction n rule: dec_digits.induct)
  case (1 n)
  show ?case
  proof (cases "n < 10")
    case False
    then have "0 < n div 10" by simp
    with 1 False show ?thesis by (auto simp: dec_digits_step)
  qed (use 1 in \<open>auto simp: dec_digits_small\<close>)
qed

lemma dec_digits_inj: "dec_digits m = dec_digits n \<Longrightarrow> m = n"
  by (metis dec_digits_value of_nat_eq_iff option.inject)


lemma dec_digits_plain: "CHR '':'' \<notin> set (dec_digits n)" "CHR ''/'' \<notin> set (dec_digits n)"
proof -
  have "digit k \<noteq> CHR '':'' \<and> digit k \<noteq> CHR ''/''" if "k < 10" for k
  proof -
    have "(of_char (digit k) :: nat) \<noteq> of_char CHR '':''" "(of_char (digit k) :: nat) \<noteq> of_char CHR ''/''"
      using that by (simp_all add: of_digit)
    then show ?thesis by metis
  qed
  then show "CHR '':'' \<notin> set (dec_digits n)" "CHR ''/'' \<notin> set (dec_digits n)"
    using dec_digits_chars [of _ n] by metis+
qed

lemma blob_digest_plain:
  assumes "blob_digest_ok d"
  shows "CHR '':'' \<notin> set d" "CHR ''/'' \<notin> set d"
proof -
  have "\<not> ascii_hexdigit CHR '':''" "\<not> ascii_hexdigit CHR ''/''" by code_simp+
  then show "CHR '':'' \<notin> set d" "CHR ''/'' \<notin> set d"
    using assms by (auto simp: blob_digest_ok_def list_all_iff)
qed

lemma parse_epoch_printed:
  assumes "0 < e" "e \<le> u64_max"
  shows "parse_blob_epoch (''e'' @ dec_digits e) = Ok e"
proof -
  obtain k cs where h: "dec_digits e = digit k # cs" "0 < k" "k < 10" using dec_digits_head [OF assms(1)] by blast
  have "of_char (digit k) \<noteq> (of_char (digit 0) :: nat)" using h by (simp add: of_digit)
  then have "digit k \<noteq> CHR ''0''" unfolding zero_digit by metis
  moreover have "digit k \<noteq> CHR ''+''" using digit_plain [OF h(3)] by blast
  ultimately show ?thesis
    using assms h(1) dec_digits_value [of e]
    by (simp add: parse_blob_epoch_def parse_u64_def strip_prefix_def del: dec_value.simps)
qed

lemma blob_v2_of_printed: "blob_ok (V2 e d) \<Longrightarrow> blob_v2_of (''e'' @ dec_digits e) d = Ok (V2 e d)"
  using parse_epoch_printed [of e]
  by (simp add: blob_v2_of_def validate_blob_digest_def)

lemma blob_v2_of_ok: "blob_v2_of e d = Ok r \<Longrightarrow> blob_ok r \<and> blob_epoch r \<noteq> None"
  by (auto simp: blob_v2_of_def parse_blob_epoch_def parse_u64_def validate_blob_digest_def Let_def
      simp del: dec_value.simps split: result.splits option.splits if_splits)

lemma parse_printed:
  assumes "blob_ok r"
  shows "blob_parse (blob_encode r) = Ok r"
proof (cases r)
  case (Legacy d)
  then show ?thesis using assms blob_digest_plain [of d] by (simp add: blob_parse_def validate_blob_digest_def)
next
  case (V2 e d)
  have "split_on CHR '':'' (''v2:e'' @ dec_digits e @ '':'' @ d) = [''v2'', ''e'' @ dec_digits e, d]"
    using split_on_append [of "CHR '':''" "''v2''" "''e'' @ dec_digits e @ CHR '':'' # d"]
      split_on_append [of "CHR '':''" "''e'' @ dec_digits e" d] dec_digits_plain [of e]
      blob_digest_plain [of d] assms V2 split_on_free [of "CHR '':''" d]
    by (simp del: split_on.simps)
  then show ?thesis using blob_v2_of_printed [of e d] assms V2
    by (simp add: blob_parse_def del: split_on.simps)
qed

lemma suffix_printed:
  assumes "blob_ok (V2 e d)"
  shows "strip_prefix (v2_object_prefix cell) (object_key (V2 e d) cell) = Some (''e'' @ dec_digits e @ ''/'' @ d)"
    and "parse_object_suffix (''e'' @ dec_digits e @ ''/'' @ d) = Ok (V2 e d)"
proof -
  show "strip_prefix (v2_object_prefix cell) (object_key (V2 e d) cell) = Some (''e'' @ dec_digits e @ ''/'' @ d)"
    by (simp add: strip_prefix_Some v2_object_prefix_def)
  have "split_on CHR ''/'' (''e'' @ dec_digits e @ ''/'' @ d) = [''e'' @ dec_digits e, d]"
    using split_on_append [of "CHR ''/''" "''e'' @ dec_digits e" d] dec_digits_plain [of e]
      blob_digest_plain [of d] assms split_on_free [of "CHR ''/''" d]
    by (simp del: split_on.simps)
  then show "parse_object_suffix (''e'' @ dec_digits e @ ''/'' @ d) = Ok (V2 e d)"
    using blob_v2_of_printed [OF assms] by (simp add: parse_object_suffix_def del: split_on.simps)
qed

lemma parse_ok: "blob_parse s = Ok r \<Longrightarrow> blob_ok r"
  by (auto simp: blob_parse_def validate_blob_digest_def Let_def simp del: split_on.simps
      split: result.splits if_splits list.splits dest: blob_v2_of_ok)

text \<open>
  The reader is laxer than its comment says: a structured reference with a signed and zero-padded epoch is
  accepted, because \<open>str::parse\<close> takes a leading plus sign and the check for a leading zero looks only at
  the first character.
\<close>

lemma signed_epoch_is_accepted:
  "blob_parse (''v2:e+05:'' @ replicate 64 CHR ''a'') = Ok (V2 5 (replicate 64 CHR ''a''))"
  by code_simp

section \<open>The sweep\<close>

lemma live_references_grow: "live_references epoch vals live = Ok live' \<Longrightarrow> set live \<subseteq> set live'"
  by (induction epoch vals live rule: live_references.induct)
    (auto split: result.splits if_splits blob_ref.splits)

lemma live_references_mem:
  "live_references epoch vals live = Ok live' \<Longrightarrow> Some s \<in> set vals \<Longrightarrow> blob_parse s = Ok (V2 e d)
    \<Longrightarrow> blob_encode (V2 e d) \<in> set live'"
proof (induction epoch vals live rule: live_references.induct)
  case (3 epoch s' vals live)
  then show ?case
    using live_references_grow [of epoch vals "List.insert (blob_encode (V2 e d)) live" live']
    by (auto simp: blob_error_def simp del: blob_encode.simps split: result.splits if_splits)
qed auto

lemma doomed_keys_exact: "doomed_keys prefix epoch live listed = Ok doomed \<Longrightarrow> doomed = filter (doomed_key prefix epoch live) listed"
  by (induction listed arbitrary: doomed)
    (auto simp: doomed_key_def blob_error_def split: option.splits result.splits if_splits)

lemma bm_get_filter: "bm_get (filter (\<lambda>(k, _). P k) m) k = (if P k then bm_get m k else None)"
  by (induction m) auto

lemma sweep_effect:
  assumes "kv_sweep io cell epoch vals bucket = (bucket', out)" "bm_get bucket' k \<noteq> bm_get bucket k"
  obtains live where "live_references epoch vals [] = Ok live" "doomed_key (v2_object_prefix cell) epoch live k"
    "bm_get bucket' k = None"
  using assms
  by (auto simp: kv_sweep_def Let_def bm_get_filter split: result.splits option.splits prod.splits if_splits
      dest!: doomed_keys_exact)

lemma live_key_not_doomed:
  assumes "live_references epoch vals [] = Ok live" "Some s \<in> set vals" "blob_parse s = Ok r"
  shows "\<not> doomed_key (v2_object_prefix cell) epoch live (object_key r cell)"
proof (cases r)
  case (Legacy d)
  then show ?thesis by (simp add: doomed_key_def strip_prefix_def v2_object_prefix_def)
next
  case (V2 e d)
  have "blob_ok (V2 e d)" using parse_ok assms(3) V2 by blast
  then show ?thesis
    using live_references_mem [OF assms(1,2)] assms(3) V2 suffix_printed(1) [of e d cell] suffix_printed(2) [of e d]
    by (simp add: doomed_key_def del: blob_encode.simps object_key.simps)
qed

lemma sweep_keeps_live:
  assumes "Some s \<in> set vals" "blob_parse s = Ok r"
  shows "bm_get (fst (kv_sweep io cell epoch vals bucket)) (object_key r cell) = bm_get bucket (object_key r cell)"
  using live_key_not_doomed [OF _ assms] sweep_effect [of io cell epoch vals bucket] by (metis prod.collapse)

lemma sweeps_keep_live:
  assumes "blob_parse s = Ok r"
  shows "list_all (\<lambda>(io, epoch, vals). Some s \<in> set vals) sweeps \<Longrightarrow>
    bm_get (run_steps (\<lambda>b (io, epoch, vals). fst (kv_sweep io cell epoch vals b)) bucket sweeps) (object_key r cell)
      = bm_get bucket (object_key r cell)"
  by (induction sweeps arbitrary: bucket) (auto simp: sweep_keeps_live [OF _ assms])

section \<open>Properties\<close>

text \<open>
  A reference the writer mints survives its text: reading the encoded row gives the reference back, and
  reading the key of its object below the prefix of the cell gives it back too, so the row and the listing of the
  collector name one blob.
\<close>

lemma blob_reference_round_trip:
  assumes "blob_v2 epoch digest = Ok r" "epoch \<le> u64_max"
  shows "blob_parse (blob_encode r) = Ok r
    \<and> map_option parse_object_suffix (strip_prefix (v2_object_prefix cell) (object_key r cell)) = Some (Ok r)"
proof -
  have r: "r = V2 epoch digest" "blob_ok (V2 epoch digest)"
    using assms by (auto simp: blob_v2_def validate_blob_digest_def split: if_splits)
  show ?thesis using parse_printed [OF r(2)] suffix_printed [OF r(2)] unfolding r(1) by simp
qed

lemma blob_reference_round_trip_witness:
  "blob_v2 7 (replicate 64 CHR ''a'') = Ok (V2 7 (replicate 64 CHR ''a''))
    \<and> blob_parse (blob_encode (V2 7 (replicate 64 CHR ''a''))) = Ok (V2 7 (replicate 64 CHR ''a''))"
proof -
  have v: "blob_v2 7 (replicate 64 CHR ''a'') = Ok (V2 7 (replicate 64 CHR ''a''))" by code_simp
  moreover have "7 \<le> u64_max" by code_simp
  ultimately show ?thesis using blob_reference_round_trip [OF v] by blast
qed

text \<open>
  C30. The collector removes only garbage. If a sweep changes the object at a key, it deletes it, the key lies
  below the prefix of its own cell, it names a blob written in the epoch of the collector or an earlier one, and
  no reference in the list of live references names that object. That holds whatever the store does.
\<close>

theorem sweep_collects_only_garbage:
  assumes "kv_sweep io cell epoch vals bucket = (bucket', out)" "bm_get bucket' k \<noteq> bm_get bucket k"
  shows "bm_get bucket' k = None
    \<and> (\<exists>suffix e d. k = v2_object_prefix cell @ suffix \<and> parse_object_suffix suffix = Ok (V2 e d) \<and> e \<le> epoch)
    \<and> (\<forall>s r. Some s \<in> set vals \<and> blob_parse s = Ok r \<longrightarrow> object_key r cell \<noteq> k)"
proof -
  obtain live where l: "live_references epoch vals [] = Ok live" "doomed_key (v2_object_prefix cell) epoch live k"
    "bm_get bucket' k = None" using sweep_effect [OF assms] .
  obtain suffix r where "strip_prefix (v2_object_prefix cell) k = Some suffix" "parse_object_suffix suffix = Ok r"
    "collectable_by r epoch" using l(2) by (auto simp: doomed_key_def split: option.splits result.splits)
  then have "\<exists>suffix e d. k = v2_object_prefix cell @ suffix \<and> parse_object_suffix suffix = Ok (V2 e d) \<and> e \<le> epoch"
    by (cases r) (auto simp: strip_prefix_Some collectable_by_def)
  then show ?thesis using l(2,3) live_key_not_doomed [OF l(1), of _ _ cell] by blast
qed

theorem sweep_collects_only_garbage_witness:
  "let d = replicate 64 CHR ''a''; k = object_key (V2 5 d) ''app''; bucket = [(k, [1])];
       bucket' = fst (kv_sweep no_faults ''app'' 7 [Some (blob_encode (V2 6 d))] bucket) in
   bm_get bucket' k \<noteq> bm_get bucket k \<and> bm_get bucket' k = None"
proof -
  let ?d = "replicate 64 CHR ''a''"
  let ?k = "object_key (V2 5 ?d) ''app''"
  let ?sweep = "kv_sweep no_faults ''app'' 7 [Some (blob_encode (V2 6 ?d))] [(?k, [1])]"
  have change: "bm_get (fst ?sweep) ?k \<noteq> bm_get [(?k, [1])] ?k" by code_simp
  then show ?thesis
    using sweep_collects_only_garbage [OF prod.collapse [of ?sweep, symmetric] change] by (simp add: Let_def)
qed

text \<open>
  C29. A stored value outlives every collection that knows its row. After a put that answered, and after any
  sequence of sweeps by any activations, each listing the reference among its live ones, a reader whose epoch has
  reached the epoch of the writer gets exactly the bytes that were put.
\<close>

theorem put_survives_sweeps:
  assumes put: "blob_run io cell epoch \<lparr>rq_strings = [(''mode'', ''put''), (''reference'', s)], rq_live = None\<rparr> (Some bs) bucket
      = (stored, Ok PutOk)"
    and listed: "list_all (\<lambda>(io, epoch, vals). Some s \<in> set vals) sweeps"
    and reader: "epoch \<le> reader"
  shows "snd (blob_run no_faults cell reader \<lparr>rq_strings = [(''mode'', ''get''), (''reference'', s)], rq_live = None\<rparr> None
      (run_steps (\<lambda>b (io, epoch, vals). fst (kv_sweep io cell epoch vals b)) stored sweeps)) = Ok (BlobBytes bs)"
proof -
  obtain r where r: "blob_parse s = Ok r" "blob_epoch r = Some epoch" "stored = bm_insert (object_key r cell) bs bucket"
    using put by (auto simp: blob_run_def request_field_def kv_put_def blob_error_def writable_by_def
        split: result.splits if_splits option.splits)
  then show ?thesis
    using sweeps_keep_live [OF r(1) listed, of cell stored] reader
    by (simp add: blob_run_def request_field_def kv_get_def blob_error_def readable_by_def no_faults_def bm_get_insert)
qed

theorem put_survives_sweeps_witness:
  "let s = blob_encode (V2 5 (replicate 64 CHR ''a'')) in
   snd (blob_run no_faults ''app'' 7 \<lparr>rq_strings = [(''mode'', ''get''), (''reference'', s)], rq_live = None\<rparr> None
     (run_steps (\<lambda>b (io, epoch, vals). fst (kv_sweep io ''app'' epoch vals b))
       (fst (blob_run no_faults ''app'' 5 \<lparr>rq_strings = [(''mode'', ''put''), (''reference'', s)], rq_live = None\<rparr> (Some [1, 2]) []))
       [(no_faults, 7, [Some s])])) = Ok (BlobBytes [1, 2])"
proof -
  let ?s = "blob_encode (V2 5 (replicate 64 CHR ''a''))"
  let ?put = "blob_run no_faults ''app'' 5 \<lparr>rq_strings = [(''mode'', ''put''), (''reference'', ?s)], rq_live = None\<rparr> (Some [1, 2]) []"
  have "snd ?put = Ok PutOk" by code_simp
  then have put: "?put = (fst ?put, Ok PutOk)" by (metis prod.collapse)
  show ?thesis unfolding Let_def by (rule put_survives_sweeps [OF put]) simp_all
qed

end
