(* ===== verification/TurnLanes.thy ===== *)
theory TurnLanes
  imports Prelude "HOL-Library.AList"
begin

text \<open>
  The scheduler of turns on one isolate, \<open>TurnScheduler\<close> in \<open>crates/celld/pool.rs\<close>. A task that wants to run
  JavaScript acquires the isolate through its lane; waiting lanes take turns round robin. The map from lanes to
  waiters is an association list, and a waiter is the number of its acquisition, so a sender whose receiver is
  gone is a member of \<open>closed\<close>. A panic of the code is \<open>None\<close>.

  \<open>turn_step\<close> is the life of the tasks around the scheduler: a task acquires, is resumed after its sender was
  signalled, drops its permit, or is cancelled, which drops whatever it holds at that moment.
\<close>

section \<open>Definitions\<close>

datatype turn_lane = Stateless | CellLane string

type_synonym waiter = nat

record turn_schedule =
  current :: "turn_lane option"
  ready :: "turn_lane list"
  waiting :: "(turn_lane \<times> waiter list) list"

definition turn_schedule_default :: turn_schedule where
  "turn_schedule_default = \<lparr>current = None, ready = [], waiting = []\<rparr>"

definition turn_acquire :: "turn_lane \<Rightarrow> waiter \<Rightarrow> turn_schedule \<Rightarrow> turn_schedule \<times> bool" where
  "turn_acquire lane w s =
     (if current s = None then (s\<lparr>current := Some lane\<rparr>, True)
      else
        let ready' = (if map_of (waiting s) lane = None \<and> current s \<noteq> Some lane
                      then ready s @ [lane] else ready s);
            waiters = (case map_of (waiting s) lane of None \<Rightarrow> [] | Some ws \<Rightarrow> ws) in
        (s\<lparr>ready := ready', waiting := AList.update lane (waiters @ [w]) (waiting s)\<rparr>, False))"

definition queued :: "turn_schedule \<Rightarrow> nat" where
  "queued s = sum_list (map (\<lambda>(_, ws). length ws) (waiting s))"

lemma queued_update:
  "map_of m k = Some (w # ws) \<Longrightarrow>
     sum_list (map (\<lambda>(_, ws). length ws) (AList.update k ws m)) < sum_list (map (\<lambda>(_, ws). length ws) m)"
  by (induction m) (auto split: if_splits)

lemma queued_delete:
  "map_of m k = Some (w # ws) \<Longrightarrow>
     sum_list (map (\<lambda>(_, ws). length ws) (AList.delete k m)) < sum_list (map (\<lambda>(_, ws). length ws) m)"
proof (induction m)
  case (Cons x m)
  have "sum_list (map (\<lambda>(_, ws). length ws) (AList.delete k m)) \<le> sum_list (map (\<lambda>(_, ws). length ws) m)"
    by (induction m) (auto simp: AList.delete_eq)
  then show ?case using Cons by (cases "fst x = k") (auto simp: AList.delete_eq)
qed simp

function turn_grant :: "(waiter \<Rightarrow> bool) \<Rightarrow> turn_schedule \<Rightarrow> (turn_schedule \<times> waiter option) option" where
  "turn_grant closed s =
     (case ready s of
        [] \<Rightarrow> Some (s, None)
      | lane # rest \<Rightarrow>
          (case map_of (waiting s) lane of
             None \<Rightarrow> None
           | Some [] \<Rightarrow> None
           | Some (w # ws) \<Rightarrow>
               let waiting' = (if ws = [] then AList.delete lane (waiting s) else AList.update lane ws (waiting s)) in
               if \<not> closed w then Some (\<lparr>current = Some lane, ready = rest, waiting = waiting'\<rparr>, Some w)
               else turn_grant closed
                 \<lparr>current = current s, ready = (if ws = [] then rest else rest @ [lane]), waiting = waiting'\<rparr>))"
  by pat_completeness auto
termination
  by (relation "measure (queued \<circ> snd)") (auto simp: queued_def queued_update queued_delete)

declare turn_grant.simps [simp del]

definition turn_release :: "(waiter \<Rightarrow> bool) \<Rightarrow> turn_schedule \<Rightarrow> (turn_schedule \<times> waiter option) option" where
  "turn_release closed s =
     (case current s of
        None \<Rightarrow> None
      | Some lane \<Rightarrow>
          let ready' = (case map_of (waiting s) lane of
                          None \<Rightarrow> ready s
                        | Some ws \<Rightarrow> if ws = [] then ready s else ready s @ [lane]) in
          turn_grant closed (s\<lparr>current := None, ready := ready'\<rparr>))"

subsection \<open>Tasks\<close>

text \<open>
  \<open>held\<close> is the task that has a \<open>TurnPermit\<close>; \<open>signalled\<close> the task whose sender succeeded and that has
  not been polled since; \<open>dropped\<close> the tasks whose receiver is gone.
\<close>

record turn_tasks =
  sched :: turn_schedule
  held :: "waiter option"
  signalled :: "waiter option"
  dropped :: "waiter list"
  fresh :: waiter

definition turn_tasks_init :: turn_tasks where
  "turn_tasks_init = \<lparr>sched = turn_schedule_default, held = None, signalled = None, dropped = [], fresh = 0\<rparr>"

datatype turn_event =
    Acquire turn_lane
  | Resume
  | Finish
  | Cancel waiter

definition drop_permit :: "turn_tasks \<Rightarrow> turn_tasks option" where
  "drop_permit t =
     (case turn_release (\<lambda>w. w \<in> set (dropped t)) (sched t) of
        None \<Rightarrow> None
      | Some (s, g) \<Rightarrow> Some (t\<lparr>sched := s, held := None, signalled := g\<rparr>))"

fun turn_step :: "turn_tasks \<Rightarrow> turn_event \<Rightarrow> turn_tasks option" where
  "turn_step t (Acquire lane) =
     (let (s, now) = turn_acquire lane (fresh t) (sched t) in
      Some (t\<lparr>sched := s, held := (if now then Some (fresh t) else held t), fresh := fresh t + 1\<rparr>))"
| "turn_step t Resume =
     (case signalled t of
        None \<Rightarrow> Some t
      | Some w \<Rightarrow> Some (t\<lparr>held := Some w, signalled := None\<rparr>))"
| "turn_step t Finish = (if held t = None then Some t else drop_permit t)"
| "turn_step t (Cancel w) =
     (if held t = Some w then drop_permit t
      else if signalled t = Some w then Some (t\<lparr>signalled := None, dropped := w # dropped t\<rparr>)
      else Some (t\<lparr>dropped := w # dropped t\<rparr>))"

fun turn_run :: "turn_tasks \<Rightarrow> turn_event list \<Rightarrow> turn_tasks option" where
  "turn_run t [] = Some t"
| "turn_run t (e # es) = (case turn_step t e of None \<Rightarrow> None | Some t' \<Rightarrow> turn_run t' es)"

text \<open>No task is cancelled between the signal and its next poll.\<close>

fun cancels_clear_of_signals :: "turn_tasks \<Rightarrow> turn_event list \<Rightarrow> bool" where
  "cancels_clear_of_signals t [] = True"
| "cancels_clear_of_signals t (e # es) \<longleftrightarrow>
     (case e of Cancel w \<Rightarrow> signalled t \<noteq> Some w | _ \<Rightarrow> True)
     \<and> (case turn_step t e of None \<Rightarrow> True | Some t' \<Rightarrow> cancels_clear_of_signals t' es)"

definition waiters_of :: "turn_schedule \<Rightarrow> turn_lane \<Rightarrow> waiter list" where
  "waiters_of s lane = (case map_of (waiting s) lane of None \<Rightarrow> [] | Some ws \<Rightarrow> ws)"

definition lanes_ok :: "turn_schedule \<Rightarrow> bool" where
  "lanes_ok s \<longleftrightarrow>
     distinct (ready s) \<and> (\<forall>lane. map_of (waiting s) lane \<noteq> Some [])
     \<and> (\<forall>lane. lane \<in> set (ready s) \<longleftrightarrow> map_of (waiting s) lane \<noteq> None \<and> current s \<noteq> Some lane)"

text \<open>
  The permits dropped along a run: a task that holds the turn finishes, or is cancelled while it holds it.
\<close>

definition gives_up :: "turn_tasks \<Rightarrow> turn_event \<Rightarrow> bool" where
  "gives_up t e = (case e of Finish \<Rightarrow> held t \<noteq> None | Cancel w \<Rightarrow> held t = Some w | _ \<Rightarrow> False)"

fun releases :: "turn_tasks \<Rightarrow> turn_event list \<Rightarrow> nat" where
  "releases t [] = 0"
| "releases t (e # es) =
     (if gives_up t e then 1 else 0)
     + (case turn_step t e of None \<Rightarrow> 0 | Some t' \<Rightarrow> releases t' es)"

definition no_cancel :: "turn_event list \<Rightarrow> bool" where
  "no_cancel es = list_all (\<lambda>e. case e of Cancel _ \<Rightarrow> False | _ \<Rightarrow> True) es"

definition tasks_ok :: "turn_tasks \<Rightarrow> bool" where
  "tasks_ok t \<longleftrightarrow>
     lanes_ok (sched t) \<and> (held t = None \<or> signalled t = None)
     \<and> (current (sched t) \<noteq> None \<longleftrightarrow> held t \<noteq> None \<or> signalled t \<noteq> None)
     \<and> (current (sched t) = None \<longrightarrow> (\<forall>lane. map_of (waiting (sched t)) lane = None))"

text \<open>Waiter \<open>w\<close> is the next of its lane, and the lanes \<open>ahead\<close> are served before it.\<close>

definition in_line :: "turn_tasks \<Rightarrow> turn_lane list \<Rightarrow> turn_lane \<Rightarrow> waiter \<Rightarrow> bool" where
  "in_line t ahead lane w \<longleftrightarrow>
     (\<exists>behind. ready (sched t) = ahead @ lane # behind) \<and> (\<exists>ws. map_of (waiting (sched t)) lane = Some (w # ws))"

section \<open>The lanes\<close>

lemma acquire_ok: "lanes_ok s \<Longrightarrow> (current s = None \<longrightarrow> (\<forall>lane. map_of (waiting s) lane = None)) \<Longrightarrow> lanes_ok (fst (turn_acquire lane w s))"
  by (auto simp: lanes_ok_def turn_acquire_def Let_def update_conv' split: option.splits)

lemma grant_ok:
  assumes "lanes_ok s" "current s = None"
  shows "\<exists>s' g. turn_grant closed s = Some (s', g) \<and> lanes_ok s'
    \<and> (case g of
         None \<Rightarrow> current s' = None \<and> (\<forall>lane. map_of (waiting s') lane = None)
       | Some w \<Rightarrow> \<not> closed w \<and> current s' \<noteq> None)"
  using assms
proof (induction closed s rule: turn_grant.induct)
  case (1 closed s)
  show ?case
  proof (cases "ready s")
    case Nil
    then show ?thesis using 1(2,3) by (auto simp: turn_grant.simps [of closed s] lanes_ok_def)
  next
    case (Cons lane rest)
    then obtain w ws where w: "map_of (waiting s) lane = Some (w # ws)"
      using 1(2) unfolding lanes_ok_def by (metis list.exhaust list.set_intros(1) option.exhaust)
    let ?waiting = "if ws = [] then AList.delete lane (waiting s) else AList.update lane ws (waiting s)"
    let ?s = "\<lparr>current = current s, ready = (if ws = [] then rest else rest @ [lane]), waiting = ?waiting\<rparr>"
    have "lanes_ok ?s"
      using 1(2,3) Cons w by (auto simp: lanes_ok_def update_conv' delete_conv')
    moreover have "lanes_ok \<lparr>current = Some lane, ready = rest, waiting = ?waiting\<rparr>"
      using 1(2,3) Cons w by (auto simp: lanes_ok_def update_conv' delete_conv')
    ultimately show ?thesis
      using 1(1) [OF Cons w refl refl] 1(3) Cons w by (simp add: turn_grant.simps [of closed s] Let_def)
  qed
qed

lemma release_ok:
  assumes "lanes_ok s" "current s \<noteq> None"
  shows "\<exists>s' g. turn_release closed s = Some (s', g) \<and> lanes_ok s'
    \<and> (case g of
         None \<Rightarrow> current s' = None \<and> (\<forall>lane. map_of (waiting s') lane = None)
       | Some w \<Rightarrow> \<not> closed w \<and> current s' \<noteq> None)"
proof -
  obtain lane where l: "current s = Some lane" using assms(2) by blast
  let ?ready = "case map_of (waiting s) lane of None \<Rightarrow> ready s | Some ws \<Rightarrow> if ws = [] then ready s else ready s @ [lane]"
  have "lanes_ok (s\<lparr>current := None, ready := ?ready\<rparr>)"
    using assms(1) l by (auto simp: lanes_ok_def split: option.splits)
  then show ?thesis using grant_ok [of "s\<lparr>current := None, ready := ?ready\<rparr>" closed] l
    by (simp add: turn_release_def Let_def)
qed

section \<open>The tasks\<close>

lemma drop_permit_ok:
  assumes "tasks_ok t" "held t \<noteq> None"
  obtains t' where "drop_permit t = Some t'" "tasks_ok t'"
proof -
  have c: "lanes_ok (sched t)" "current (sched t) \<noteq> None" using assms by (auto simp: tasks_ok_def)
  show ?thesis
    using release_ok [OF c, of "\<lambda>w. w \<in> set (dropped t)"] that
    by (auto simp: drop_permit_def tasks_ok_def split: option.splits)
qed

lemma turn_step_ok:
  assumes "tasks_ok t" "\<And>w. e = Cancel w \<Longrightarrow> signalled t \<noteq> Some w"
  obtains t' where "turn_step t e = Some t'" "tasks_ok t'"
proof (cases e)
  case (Acquire lane)
  have "lanes_ok (fst (turn_acquire lane (fresh t) (sched t)))"
    using assms(1) by (intro acquire_ok) (auto simp: tasks_ok_def)
  then show ?thesis using assms(1) Acquire that
    by (auto simp: tasks_ok_def turn_acquire_def Let_def split: if_splits)
next
  case Resume
  then show ?thesis using assms(1) that by (cases "signalled t") (auto simp: tasks_ok_def)
next
  case Finish
  then show ?thesis using assms(1) that drop_permit_ok [of t] by (cases "held t") auto
next
  case (Cancel w)
  then show ?thesis using assms that drop_permit_ok [of t] by (cases "held t = Some w") (auto simp: tasks_ok_def)
qed

lemma turn_run_ok:
  "tasks_ok t \<Longrightarrow> cancels_clear_of_signals t es \<Longrightarrow> \<exists>t'. turn_run t es = Some t' \<and> tasks_ok t'"
proof (induction es arbitrary: t)
  case (Cons e es)
  have "signalled t \<noteq> Some w" if "e = Cancel w" for w using Cons.prems(2) that by simp
  then obtain t' where "turn_step t e = Some t'" "tasks_ok t'"
    using turn_step_ok [OF Cons.prems(1), of e] by blast
  then show ?case using Cons by simp
qed simp

lemma tasks_ok_init: "tasks_ok turn_tasks_init"
  by (simp add: tasks_ok_def turn_tasks_init_def turn_schedule_default_def lanes_ok_def)

section \<open>Round robin\<close>

lemma grant_open: "ready s = lane # rest \<Longrightarrow> map_of (waiting s) lane = Some (w # ws) \<Longrightarrow> \<not> closed w \<Longrightarrow>
    turn_grant closed s = Some (\<lparr>current = Some lane, ready = rest,
      waiting = (if ws = [] then AList.delete lane (waiting s) else AList.update lane ws (waiting s))\<rparr>, Some w)"
  by (simp add: turn_grant.simps [of closed s])

text \<open>
  A grant either takes the waiter \<open>w\<close> or leaves fewer lanes ahead of its lane: a lane whose first waiter is gone
  moves to the back. When no waiter is gone it takes the first ready lane and keeps the order of the others.
\<close>

lemma grant_in_line:
  assumes "lanes_ok s" "current s = None" "ready s = ahead @ lane # behind" "map_of (waiting s) lane = Some (w # ws)"
    "\<not> closed w"
  shows "\<exists>s' v. turn_grant closed s = Some (s', Some v)
    \<and> (v = w \<and> ((\<forall>v. \<not> closed v) \<longrightarrow> ahead = [])
       \<or> (\<exists>ahead' behind'. ready s' = ahead' @ lane # behind' \<and> map_of (waiting s') lane = Some (w # ws)
            \<and> length ahead' < length ahead \<and> ((\<forall>v. \<not> closed v) \<longrightarrow> length ahead = Suc (length ahead'))))"
  using assms
proof (induction closed s arbitrary: ahead behind rule: turn_grant.induct)
  case (1 closed s)
  show ?case
  proof (cases ahead)
    case Nil
    then show ?thesis using 1(4-6) by (simp add: grant_open)
  next
    case (Cons a rest)
    then have r: "ready s = a # rest @ lane # behind" "a \<noteq> lane" using 1(2,4) by (auto simp: lanes_ok_def)
    obtain v vs where v: "map_of (waiting s) a = Some (v # vs)"
      using 1(2) r(1) unfolding lanes_ok_def by (metis list.exhaust list.set_intros(1) option.exhaust)
    let ?waiting = "if vs = [] then AList.delete a (waiting s) else AList.update a vs (waiting s)"
    let ?s = "\<lparr>current = current s, ready = (if vs = [] then rest @ lane # behind else (rest @ lane # behind) @ [a]), waiting = ?waiting\<rparr>"
    have w: "map_of ?waiting lane = Some (w # ws)" using 1(5) r(2) by (simp add: update_conv' delete_conv')
    show ?thesis
    proof (cases "closed v")
      case False
      then show ?thesis using grant_open [of s a _ v vs closed] r(1) v w Cons by fastforce
    next
      case closed: True
      have ok: "lanes_ok ?s" using 1(2,3) r v by (auto simp: lanes_ok_def update_conv' delete_conv')
      have front: "ready ?s = rest @ lane # (if vs = [] then behind else behind @ [a])" by simp
      have "map_of (waiting ?s) lane = Some (w # ws)" "current ?s = None" "\<not> \<not> closed v" using w 1(3) closed by simp_all
      note ih = 1(1) [OF r(1) v refl refl this(3) ok this(2) front this(1) 1(6)]
      from ih obtain s' u where u: "turn_grant closed ?s = Some (s', Some u)"
        and line: "u = w \<or> (\<exists>ahead' behind'. ready s' = ahead' @ lane # behind' \<and> map_of (waiting s') lane = Some (w # ws)
            \<and> length ahead' < length rest)"
        by blast
      have "turn_grant closed s = Some (s', Some u)"
        using u closed r(1) v by (simp add: turn_grant.simps [of closed s] Let_def)
      then show ?thesis using line closed Cons by fastforce
    qed
  qed
qed

lemma acquire_in_line:
  assumes "in_line t ahead lane w" "tasks_ok t" "turn_step t (Acquire l) = Some t'"
  shows "in_line t' ahead lane w"
proof -
  have "current (sched t) \<noteq> None" using assms(1,2) by (auto simp: in_line_def tasks_ok_def)
  then show ?thesis using assms
    by (auto simp: in_line_def turn_acquire_def Let_def update_conv' split: if_splits option.splits)
qed

lemma release_in_line:
  assumes "in_line t ahead lane w" "tasks_ok t" "held t \<noteq> None" "w \<notin> set (dropped t)" "drop_permit t = Some t'"
  shows "signalled t' = Some w \<and> (dropped t = [] \<longrightarrow> ahead = [])
    \<or> (\<exists>ahead'. in_line t' ahead' lane w \<and> length ahead' < length ahead
         \<and> (dropped t = [] \<longrightarrow> length ahead = Suc (length ahead')))"
proof -
  obtain behind ws where b: "ready (sched t) = ahead @ lane # behind" "map_of (waiting (sched t)) lane = Some (w # ws)"
    using assms(1) by (auto simp: in_line_def)
  obtain c where c: "lanes_ok (sched t)" "current (sched t) = Some c" using assms(2,3) by (auto simp: tasks_ok_def)
  let ?closed = "\<lambda>w. w \<in> set (dropped t)"
  let ?tail = "if map_of (waiting (sched t)) c = None then [] else [c]"
  let ?s = "(sched t)\<lparr>current := None, ready := ahead @ lane # behind @ ?tail\<rparr>"
  have r: "turn_release ?closed (sched t) = turn_grant ?closed ?s"
    using c b(1) by (auto simp: turn_release_def lanes_ok_def split: option.splits)
  have "lanes_ok ?s" using c b(1) by (auto simp: lanes_ok_def)
  then obtain s' v where g: "turn_grant ?closed ?s = Some (s', Some v)"
    "v = w \<and> ((\<forall>v. \<not> ?closed v) \<longrightarrow> ahead = [])
     \<or> (\<exists>ahead' behind'. ready s' = ahead' @ lane # behind' \<and> map_of (waiting s') lane = Some (w # ws)
          \<and> length ahead' < length ahead \<and> ((\<forall>v. \<not> ?closed v) \<longrightarrow> length ahead = Suc (length ahead')))"
    using grant_in_line [of ?s ahead lane "behind @ ?tail" w ws ?closed] b(2) assms(4) by auto
  have t': "t' = t\<lparr>sched := s', held := None, signalled := Some v\<rparr>" using assms(5) r g(1) by (simp add: drop_permit_def)
  show ?thesis using g(2) unfolding t' in_line_def by fastforce
qed

lemma gives_up_step: "gives_up t e \<Longrightarrow> held t \<noteq> None \<and> turn_step t e = drop_permit t"
  by (auto simp: gives_up_def split: turn_event.splits)

lemma step_in_line:
  assumes "in_line t ahead lane w" "tasks_ok t" "\<not> gives_up t e" "turn_step t e = Some t'"
  shows "in_line t' ahead lane w"
proof (cases e)
  case (Acquire l)
  then show ?thesis using acquire_in_line [OF assms(1,2)] assms(4) by blast
qed (use assms in \<open>auto simp: in_line_def gives_up_def split: option.splits if_splits\<close>)

lemma step_dropped:
  "turn_step t e = Some t' \<Longrightarrow> set (dropped t') \<subseteq> set (dropped t) \<union> {w. e = Cancel w}"
  by (cases e) (auto simp: drop_permit_def Let_def split: prod.splits option.splits if_splits)

lemma run_dropped:
  "turn_run t es = Some t' \<Longrightarrow> set (dropped t') \<subseteq> set (dropped t) \<union> {w. Cancel w \<in> set es}"
proof (induction es arbitrary: t)
  case (Cons e es)
  then obtain t1 where "turn_step t e = Some t1" "turn_run t1 es = Some t'" by (auto split: option.splits)
  then show ?case using Cons.IH step_dropped by fastforce
qed simp

lemma no_cancel_free: "no_cancel es \<Longrightarrow> Cancel w \<notin> set es"
  by (induction es) (auto simp: no_cancel_def)

lemma no_cancel_dropped: "turn_run t es = Some t' \<Longrightarrow> no_cancel es \<Longrightarrow> dropped t = [] \<Longrightarrow> dropped t' = []"
  using run_dropped [of t es t'] no_cancel_free [of es] by auto

lemma clear_append:
  "turn_run t es = Some u \<Longrightarrow>
     cancels_clear_of_signals t (es @ fs) = (cancels_clear_of_signals t es \<and> cancels_clear_of_signals u fs)"
  by (induction es arbitrary: t) (auto split: option.splits simp del: turn_step.simps)

lemma served_in_turn:
  assumes "in_line t ahead lane w" "tasks_ok t" "w \<notin> set (dropped t)" "cancels_clear_of_signals t es"
    "Cancel w \<notin> set es" "length ahead < releases t es"
  shows "\<exists>es1 es2 t'. es = es1 @ es2 \<and> turn_run t es1 = Some t' \<and> signalled t' = Some w
    \<and> releases t es1 \<le> length ahead + 1
    \<and> (dropped t = [] \<and> no_cancel es \<longrightarrow> releases t es1 = length ahead + 1)"
  using assms
proof (induction es arbitrary: t ahead)
  case (Cons e es)
  obtain t1 where s: "turn_step t e = Some t1" "tasks_ok t1"
    using turn_step_ok [OF Cons.prems(2), of e] Cons.prems(4) by (auto split: turn_event.splits)
  have gone: "w \<notin> set (dropped t1)" using step_dropped [OF s(1)] Cons.prems(3,5) by auto
  have quiet: "dropped t1 = [] \<and> no_cancel es" if "dropped t = [] \<and> no_cancel (e # es)"
    using that step_dropped [OF s(1)] by (cases e) (auto simp: no_cancel_def)
  have clear: "cancels_clear_of_signals t1 es" "Cancel w \<notin> set es" using Cons.prems(4,5) s(1) by simp_all
  have count: "releases t (e # fs) = (if gives_up t e then 1 else 0) + releases t1 fs" for fs using s(1) by simp
  have later: ?case if l: "in_line t1 ahead' lane w" "length ahead' < releases t1 es"
      and n: "(if gives_up t e then 1 else 0) + length ahead' \<le> length ahead"
        "dropped t = [] \<Longrightarrow> (if gives_up t e then 1 else 0) + length ahead' = length ahead" for ahead'
  proof -
    obtain es1 es2 t' where "es = es1 @ es2" "turn_run t1 es1 = Some t'" "signalled t' = Some w"
      "releases t1 es1 \<le> length ahead' + 1" "dropped t1 = [] \<and> no_cancel es \<longrightarrow> releases t1 es1 = length ahead' + 1"
      using Cons.IH [OF l(1) s(2) gone clear l(2)] by blast
    then show ?case using n quiet s(1) count [of es1]
      by (intro exI [of _ "e # es1"] exI [of _ es2] exI [of _ t']) (auto simp del: releases.simps)
  qed
  show ?case
  proof (cases "gives_up t e")
    case True
    then have "held t \<noteq> None" "drop_permit t = Some t1" using gives_up_step [of t e] s(1) by simp_all
    from release_in_line [OF Cons.prems(1,2) this(1) Cons.prems(3) this(2)] show ?thesis
    proof (elim disjE exE)
      assume "signalled t1 = Some w \<and> (dropped t = [] \<longrightarrow> ahead = [])"
      then show ?thesis using s(1) True by (intro exI [of _ "[e]"] exI [of _ es] exI [of _ t1]) simp
    next
      fix ahead'
      assume "in_line t1 ahead' lane w \<and> length ahead' < length ahead
        \<and> (dropped t = [] \<longrightarrow> length ahead = Suc (length ahead'))"
      then show ?thesis using True Cons.prems(6) count [of es] by (intro later [of ahead']) auto
    qed
  next
    case False
    then show ?thesis using step_in_line [OF Cons.prems(1,2) False s(1)] Cons.prems(6) count [of es]
      by (intro later [of ahead]) auto
  qed
qed simp

section \<open>Properties\<close>

text \<open>
  C23. A waiter dropped while it still waits cannot strand the turn of an isolate. Along every run in which no
  task is cancelled between its signal and its next poll, the scheduler never panics, at most one task holds or
  is handed the turn, and whenever nobody has it nobody waits for it.
\<close>

theorem idle_turn_has_no_waiters:
  assumes "cancels_clear_of_signals turn_tasks_init es"
  shows "\<exists>t. turn_run turn_tasks_init es = Some t
    \<and> (held t = None \<or> signalled t = None)
    \<and> (held t = None \<and> signalled t = None \<longrightarrow> (\<forall>lane. waiters_of (sched t) lane = []))"
  using turn_run_ok [OF tasks_ok_init assms] by (fastforce simp: tasks_ok_def waiters_of_def)

theorem idle_turn_has_no_waiters_witness:
  "\<exists>t. turn_run turn_tasks_init [Acquire Stateless, Acquire (CellLane ''a''), Cancel 1, Finish] = Some t
     \<and> (held t = None \<or> signalled t = None)
     \<and> (held t = None \<and> signalled t = None \<longrightarrow> (\<forall>lane. waiters_of (sched t) lane = []))"
  by (rule idle_turn_has_no_waiters) code_simp

text \<open>
  C22. Round robin. Take a waiter that is the next of a ready lane with \<open>length ahead\<close> lanes before it and that is
  never cancelled, in a run where no task is cancelled between its signal and its next poll. Once \<open>length ahead + 1\<close>
  permits are dropped, the waiter has been signalled, by the last of them at the latest, whatever other tasks ask for
  or cancel meanwhile: a hot cell never takes the place of another cell that already waits. When nobody is ever
  cancelled it is signalled by exactly that permit, after every lane ahead had one turn; cancelled waiters ahead are
  skipped and only bring its turn forward.
\<close>

theorem lane_is_served_in_turn:
  assumes "turn_run turn_tasks_init before = Some t" "cancels_clear_of_signals turn_tasks_init (before @ es)"
    and "in_line t ahead lane w" "Cancel w \<notin> set (before @ es)" "length ahead < releases t es"
  shows "\<exists>es1 es2 t'. es = es1 @ es2 \<and> turn_run t es1 = Some t' \<and> signalled t' = Some w
    \<and> releases t es1 \<le> length ahead + 1
    \<and> (no_cancel (before @ es) \<longrightarrow> releases t es1 = length ahead + 1)"
proof -
  have clear: "cancels_clear_of_signals turn_tasks_init before" "cancels_clear_of_signals t es"
    using clear_append [OF assms(1)] assms(2) by simp_all
  have ok: "tasks_ok t" using turn_run_ok [OF tasks_ok_init clear(1)] assms(1) by simp
  have gone: "w \<notin> set (dropped t)" using run_dropped [OF assms(1)] assms(4) by (auto simp: turn_tasks_init_def)
  have quiet: "dropped t = [] \<and> no_cancel es" if "no_cancel (before @ es)"
    using that no_cancel_dropped [OF assms(1)] by (simp add: no_cancel_def turn_tasks_init_def)
  show ?thesis using served_in_turn [OF assms(3) ok gone clear(2) _ assms(5)] assms(4) quiet by fastforce
qed

theorem lane_is_served_in_turn_witness:
  "\<exists>es1 es2 t'. [Cancel 1, Finish, Resume, Finish] = es1 @ es2
     \<and> turn_run (the (turn_run turn_tasks_init [Acquire Stateless, Acquire (CellLane ''a''), Acquire (CellLane ''b''), Acquire (CellLane ''a'')])) es1 = Some t'
     \<and> signalled t' = Some 2
     \<and> releases (the (turn_run turn_tasks_init [Acquire Stateless, Acquire (CellLane ''a''), Acquire (CellLane ''b''), Acquire (CellLane ''a'')])) es1 \<le> 2"
proof -
  let ?before = "[Acquire Stateless, Acquire (CellLane ''a''), Acquire (CellLane ''b''), Acquire (CellLane ''a'')]"
  let ?es = "[Cancel 1, Finish, Resume, Finish]"
  let ?t = "the (turn_run turn_tasks_init ?before)"
  have "turn_run turn_tasks_init ?before = Some ?t" by code_simp
  moreover have "cancels_clear_of_signals turn_tasks_init (?before @ ?es)" by code_simp
  moreover have "in_line ?t [CellLane ''a''] (CellLane ''b'') 2"
    by (simp add: in_line_def turn_acquire_def turn_tasks_init_def turn_schedule_default_def)
  moreover have "Cancel 2 \<notin> set (?before @ ?es)" by simp
  moreover have "length [CellLane ''a''] < releases ?t ?es" by code_simp
  ultimately show ?thesis using lane_is_served_in_turn [of ?before ?t ?es "[CellLane ''a'']" "CellLane ''b''" 2] by fastforce
qed

text \<open>
  C24. A waiter dropped after its sender was signalled and before it is polled again strands the turn for good. The
  permit is made only after the await, so nobody releases: from the state after such a cancellation no run of any
  events, ever again, gives the turn to a task, and every later acquisition waits.
\<close>

theorem signalled_then_dropped_strands_the_turn:
  "\<exists>t. turn_run turn_tasks_init [Acquire Stateless, Acquire (CellLane ''a''), Finish, Cancel 1] = Some t
     \<and> (\<forall>es. \<exists>t'. turn_run t es = Some t' \<and> held t' = None \<and> signalled t' = None)"
proof -
  let ?stuck = "\<lambda>t. current (sched t) \<noteq> None \<and> held t = None \<and> signalled t = None"
  have "\<exists>t'. turn_run t es = Some t' \<and> ?stuck t'" if "?stuck t" for t es
    using that
  proof (induction es arbitrary: t)
    case (Cons e es)
    have "\<exists>t'. turn_step t e = Some t' \<and> ?stuck t'"
      using Cons.prems by (cases e) (auto simp: turn_acquire_def Let_def)
    then show ?case using Cons.IH by fastforce
  qed simp
  moreover have "\<exists>t. turn_run turn_tasks_init [Acquire Stateless, Acquire (CellLane ''a''), Finish, Cancel 1] = Some t \<and> ?stuck t"
    by (simp add: turn_tasks_init_def turn_schedule_default_def turn_acquire_def drop_permit_def turn_release_def
        turn_grant.simps)
  ultimately show ?thesis by blast
qed

end
