(* ===== verification/IsolatePool.thy ===== *)
theory IsolatePool
  imports Prelude
begin

text \<open>
  The pool of V8 isolates of one node, \<open>crates/logic/isolate.rs\<close>: admission of a stateless request, placement
  of its first turn, placement of a cell for its life on the node, and retirement. The shell observes the pool as
  a \<open>pool_load\<close> and performs what these functions return. \<open>Iterator::max_by_key\<close> returns the last of the
  greatest elements; the keys used here are distinct. The word \<open>usize\<close> is \<open>nat\<close>, and a sum over the
  pool does not overflow because it counts requests and turns that exist.
\<close>

section \<open>Definitions\<close>

type_synonym isolate_id = nat

datatype heap_id = HeapId nat

record isolate_load =
  il_turns :: nat
  il_requests :: nat
  il_cells :: nat
  il_retiring :: bool

record pool_limits =
  grow_at :: nat
  shrink_under :: nat
  max_stateless :: nat
  max_requests :: "nat option"
  max_cells :: nat

record pool_load =
  isolates :: "isolate_load list"
  limits :: pool_limits

datatype refusal = NodeFull | NodePressured

datatype placement = Existing isolate_id | Grow

definition live :: "pool_load \<Rightarrow> (isolate_id \<times> isolate_load) list" where
  "live load = filter (\<lambda>(_, l). \<not> il_retiring l) (enumerate 0 (isolates load))"

definition live_count :: "pool_load \<Rightarrow> nat" where
  "live_count load = length (live load)"

fun max_by_key :: "('a \<Rightarrow> 'k::linorder) \<Rightarrow> 'a list \<Rightarrow> 'a option" where
  "max_by_key f [] = None"
| "max_by_key f (x # xs) =
     (case max_by_key f xs of
        None \<Rightarrow> Some x
      | Some y \<Rightarrow> Some (if f y < f x then x else y))"

definition place_without_growing :: "pool_load \<Rightarrow> placement" where
  "place_without_growing load =
     (case min_by_key (\<lambda>(_, l). il_turns l) (live load) of
        Some (i, _) \<Rightarrow> Existing i
      | None \<Rightarrow> Grow)"

definition place :: "pool_load \<Rightarrow> placement" where
  "place load =
     (case min_by_key (\<lambda>(_, l). il_turns l) (live load) of
        None \<Rightarrow> Grow
      | Some (i, l) \<Rightarrow>
          if grow_at (limits load) \<le> il_turns l \<and> live_count load < max_stateless (limits load)
          then Grow else Existing i)"

definition admit :: "pool_load \<Rightarrow> bool \<Rightarrow> (placement, refusal) result" where
  "admit load shedding =
     (let full = (case max_requests (limits load) of
                    Some m \<Rightarrow> m \<le> sum_list (map il_requests (isolates load))
                  | None \<Rightarrow> False) in
      if full then Err (if shedding then NodePressured else NodeFull)
      else Ok (if shedding then place_without_growing load else place load))"

definition place_cell :: "pool_load \<Rightarrow> placement" where
  "place_cell load =
     (case max_by_key (\<lambda>(i, l). (il_cells l, - int i))
             (filter (\<lambda>(_, l). il_cells l < max_cells (limits load)) (live load)) of
        None \<Rightarrow> Grow
      | Some (i, _) \<Rightarrow> Existing i)"

definition may_free :: "isolate_load \<Rightarrow> bool" where
  "may_free l \<longleftrightarrow> il_retiring l \<and> il_turns l = 0 \<and> il_requests l = 0 \<and> il_cells l = 0"

definition retire :: "pool_load \<Rightarrow> isolate_id option" where
  "retire load =
     (let live_now = length (live load) in
      if live_now = 0 then None
      else
        let turns = sum_list (map (\<lambda>(_, l). il_turns l) (live load));
            remaining = live_now - 1 in
        if sat_mul remaining (shrink_under (limits load)) < turns then None
        else
          map_option fst
            (min_by_key (\<lambda>(i, l). (il_requests l, - int i)) (filter (\<lambda>(_, l). il_cells l = 0) (live load))))"

section \<open>What the decisions guarantee\<close>

lemma live_mem: "(i, l) \<in> set (live load) \<longleftrightarrow> i < length (isolates load) \<and> isolates load ! i = l \<and> \<not> il_retiring l"
  by (auto simp: live_def in_set_enumerate_eq)

lemma max_by_key_mem: "max_by_key f xs = Some x \<Longrightarrow> x \<in> set xs"
  by (induction xs arbitrary: x) (auto split: option.splits if_splits)

lemma max_by_key_None: "max_by_key f xs = None \<longleftrightarrow> xs = []"
  by (cases xs) (auto split: option.splits)

lemma place_existing: "place load = Existing i \<Longrightarrow> i < length (isolates load) \<and> \<not> il_retiring (isolates load ! i)"
  by (auto simp: place_def live_mem split: option.splits if_splits dest!: min_by_key_mem)

lemma place_without_growing_existing:
  "place_without_growing load = Existing i \<Longrightarrow> i < length (isolates load) \<and> \<not> il_retiring (isolates load ! i)"
  by (auto simp: place_without_growing_def live_mem split: option.splits dest!: min_by_key_mem)

lemma admit_existing: "admit load shedding = Ok (Existing i) \<Longrightarrow> i < length (isolates load) \<and> \<not> il_retiring (isolates load ! i)"
  using place_existing place_without_growing_existing by (auto simp: admit_def Let_def split: if_splits)

lemma admit_below: "admit load shedding = Ok p \<Longrightarrow> max_requests (limits load) = Some m \<Longrightarrow> sum_list (map il_requests (isolates load)) < m"
  by (auto simp: admit_def Let_def split: if_splits)

lemma place_cell_existing:
  "place_cell load = Existing i \<Longrightarrow> i < length (isolates load) \<and> \<not> il_retiring (isolates load ! i)
     \<and> il_cells (isolates load ! i) < max_cells (limits load)"
  by (auto simp: place_cell_def live_mem split: option.splits dest!: max_by_key_mem)

lemma retire_candidate:
  "retire load = Some i \<Longrightarrow> i < length (isolates load) \<and> \<not> il_retiring (isolates load ! i) \<and> il_cells (isolates load ! i) = 0"
  by (auto simp: retire_def Let_def live_mem split: if_splits dest!: min_by_key_mem)

end
