(* ===== verification/SlotPool.thy ===== *)
theory SlotPool
  imports IsolatePool
begin

text \<open>
  The pool of isolates as the shell runs it, \<open>Pool\<close> and \<open>Slot\<close> in \<open>crates/celld/pool.rs\<close>, over the
  decisions of \<open>IsolatePool\<close>.

  A slot has its counters and whether its worker, the V8 heap, is installed. Atomic steps follow the locks:
  stateless admission without a ceiling holds the shared guard from its snapshot to its reservation, so other
  admissions run in between and are kept in \<open>admitting\<close>; everything under the exclusive guard is one step that
  waits for, or skips while, an admission is under way. Building a worker may fail (\<open>built\<close>), and a census may hold
  the lock of a worker for a moment (\<open>busy\<close>). Entering an isolate that was freed is a panic, \<open>None\<close>.
\<close>

section \<open>Slots\<close>

record slot =
  sl_heap :: heap_id
  sl_worker :: bool
  sl_turns :: nat
  sl_requests :: nat
  sl_cells :: nat
  sl_adopted :: nat
  sl_producers :: "(string, nat) bmap"
  sl_retiring :: bool

record pool =
  slots :: "slot list"
  pool_limits :: pool_limits
  pool_retired :: bool
  next_heap :: nat
  admitting :: "placement list"

definition MAX_QUEUE_PRODUCER_EVENTS_PER_CELL :: nat where
  "MAX_QUEUE_PRODUCER_EVENTS_PER_CELL = 256"

definition observe_slot :: "slot \<Rightarrow> isolate_load" where
  "observe_slot s = \<lparr>il_turns = sl_turns s, il_requests = sl_requests s, il_cells = sl_cells s, il_retiring = sl_retiring s\<rparr>"

definition queue_producer :: "string \<Rightarrow> slot \<Rightarrow> slot \<times> bool" where
  "queue_producer scope s =
     (let outstanding = (case bm_get (sl_producers s) scope of None \<Rightarrow> 0 | Some n \<Rightarrow> n) in
      if MAX_QUEUE_PRODUCER_EVENTS_PER_CELL \<le> outstanding
      then (s\<lparr>sl_producers := bm_insert scope outstanding (sl_producers s)\<rparr>, False)
      else (s\<lparr>sl_producers := bm_insert scope (outstanding + 1) (sl_producers s)\<rparr>, True))"

definition release_queue_producer :: "string \<Rightarrow> slot \<Rightarrow> slot option" where
  "release_queue_producer scope s =
     (case bm_get (sl_producers s) scope of
        None \<Rightarrow> None
      | Some n \<Rightarrow>
          if n = 0 then None
          else Some (s\<lparr>sl_producers := (if n = 1 then bm_remove scope (sl_producers s)
                                     else bm_insert scope (n - 1) (sl_producers s))\<rparr>))"

definition affiliate :: "slot \<Rightarrow> slot" where
  "affiliate s = s\<lparr>sl_requests := sl_requests s + 1\<rparr>"

definition drop_affiliation :: "slot \<Rightarrow> slot" where
  "drop_affiliation s = s\<lparr>sl_requests := sl_requests s - 1\<rparr>"

text \<open>
  The debug assertion of \<open>house\<close>, that the cells stay within \<open>max_cells\<close>, is not a branch of the model: it is the
  bound on the cells of an isolate that the runs below keep.
\<close>

definition house :: "slot \<Rightarrow> slot" where
  "house s = s\<lparr>sl_cells := sl_cells s + 1\<rparr>"

definition adopt :: "slot \<Rightarrow> slot" where
  "adopt s = s\<lparr>sl_adopted := sl_adopted s + 1\<rparr>"

definition drop_residency :: "bool \<Rightarrow> slot \<Rightarrow> slot" where
  "drop_residency adopted s =
     s\<lparr>sl_adopted := (if adopted then sl_adopted s - 1 else sl_adopted s), sl_cells := sl_cells s - 1\<rparr>"

text \<open>The first half of \<open>turn_in\<close>: count the turn, then find the worker or panic. The second half drops the count.\<close>

definition turn_enter :: "slot \<Rightarrow> slot option" where
  "turn_enter s = (if sl_worker s then Some (s\<lparr>sl_turns := sl_turns s + 1\<rparr>) else None)"

definition turn_leave :: "slot \<Rightarrow> slot" where
  "turn_leave s = s\<lparr>sl_turns := sl_turns s - 1\<rparr>"

definition condemn :: "slot \<Rightarrow> slot" where
  "condemn s = s\<lparr>sl_retiring := True\<rparr>"

definition is_reusable :: "bool \<Rightarrow> slot \<Rightarrow> bool" where
  "is_reusable busy s \<longleftrightarrow> may_free (observe_slot s) \<and> sl_cells s = 0 \<and> \<not> busy \<and> \<not> sl_worker s"

section \<open>The pool\<close>

definition pool_new :: "pool_limits \<Rightarrow> pool" where
  "pool_new lim = \<lparr>slots = [], pool_limits = lim, pool_retired = False, next_heap = 1, admitting = []\<rparr>"

definition observed :: "pool \<Rightarrow> pool_load" where
  "observed p = \<lparr>isolates = map observe_slot (slots p), limits = pool_limits p\<rparr>"

definition live_slots :: "pool \<Rightarrow> nat" where
  "live_slots p = length (filter (\<lambda>s. \<not> sl_retiring s) (slots p))"

definition position :: "('a \<Rightarrow> bool) \<Rightarrow> 'a list \<Rightarrow> nat option" where
  "position P xs = (let i = length (takeWhile (\<lambda>x. \<not> P x) xs) in if i < length xs then Some i else None)"

definition new_slot :: "pool \<Rightarrow> slot" where
  "new_slot p = \<lparr>sl_heap = HeapId (next_heap p), sl_worker = True, sl_turns = 0, sl_requests = 0, sl_cells = 0,
     sl_adopted = 0, sl_producers = [], sl_retiring = pool_retired p\<rparr>"

text \<open>\<open>grow\<close> answers with the index of the slot to use, or \<open>None\<close> when the worker could not be built.\<close>

definition grow :: "bool \<Rightarrow> nat list \<Rightarrow> nat option \<Rightarrow> pool \<Rightarrow> pool \<times> nat option" where
  "grow built busy cap p =
     (if \<not> built then (p, None)
      else
        case (if (case cap of None \<Rightarrow> False | Some c \<Rightarrow> c \<le> live_slots p)
              then position (\<lambda>s. \<not> sl_retiring s) (slots p) else None) of
          Some i \<Rightarrow> (p, Some i)
        | None \<Rightarrow>
            (case position (\<lambda>(i, s). is_reusable (i \<in> set busy) s) (enumerate 0 (slots p)) of
               Some i \<Rightarrow> (p\<lparr>slots := (slots p)[i := new_slot p], next_heap := next_heap p + 1\<rparr>, Some i)
             | None \<Rightarrow> (p\<lparr>slots := slots p @ [new_slot p], next_heap := next_heap p + 1\<rparr>, Some (length (slots p)))))"

definition resolve :: "bool \<Rightarrow> nat list \<Rightarrow> placement \<Rightarrow> nat option \<Rightarrow> pool \<Rightarrow> pool \<times> nat option" where
  "resolve built busy pl cap p =
     (case pl of
        Existing i \<Rightarrow> (p, Some i)
      | Grow \<Rightarrow> grow built busy cap p)"

definition at_slot :: "nat \<Rightarrow> (slot \<Rightarrow> slot) \<Rightarrow> pool \<Rightarrow> pool" where
  "at_slot i f p = p\<lparr>slots := (slots p)[i := f (slots p ! i)]\<rparr>"

text \<open>The end of an admission: resolve the placement and reserve.\<close>

definition reserve :: "bool \<Rightarrow> nat list \<Rightarrow> placement \<Rightarrow> pool \<Rightarrow> pool" where
  "reserve built busy pl p =
     (case resolve built busy pl (Some (max_stateless (pool_limits p))) p of
        (p', Some i) \<Rightarrow> at_slot i affiliate p'
      | (p', None) \<Rightarrow> p')"

definition pool_place_cell :: "bool \<Rightarrow> nat list \<Rightarrow> pool \<Rightarrow> pool" where
  "pool_place_cell built busy p =
     (case resolve built busy (place_cell (observed p)) None p of
        (p', Some i) \<Rightarrow> at_slot i house p'
      | (p', None) \<Rightarrow> p')"

definition retire_one :: "pool \<Rightarrow> pool \<times> bool" where
  "retire_one p =
     (case retire (observed p) of
        None \<Rightarrow> (p, False)
      | Some i \<Rightarrow> (at_slot i condemn p, True))"

definition free_slot :: "bool \<Rightarrow> slot \<Rightarrow> slot" where
  "free_slot busy s = (if may_free (observe_slot s) \<and> \<not> busy then s\<lparr>sl_worker := False\<rparr> else s)"

definition free_retired :: "nat list \<Rightarrow> pool \<Rightarrow> pool" where
  "free_retired busy p = p\<lparr>slots := map (\<lambda>(i, s). free_slot (i \<in> set busy) s) (enumerate 0 (slots p))\<rparr>"

lemma retire_one_live:
  assumes "retire_one p = (p', True)"
  shows "live_slots p' < live_slots p"
proof -
  obtain i where i: "retire (observed p) = Some i" "p' = at_slot i condemn p"
    using assms by (auto simp: retire_one_def split: option.splits)
  have c: "i < length (slots p)" "\<not> sl_retiring (slots p ! i)"
    using retire_candidate [OF i(1)] by (auto simp: observed_def observe_slot_def)
  then have "live_slots p = length (filter (\<lambda>s. \<not> sl_retiring s) (take i (slots p) @ slots p ! i # drop (Suc i) (slots p)))"
    by (simp add: live_slots_def id_take_nth_drop [symmetric])
  moreover have "live_slots p' = length (filter (\<lambda>s. \<not> sl_retiring s) (take i (slots p) @ condemn (slots p ! i) # drop (Suc i) (slots p)))"
    using c(1) by (simp add: live_slots_def i(2) at_slot_def upd_conv_take_nth_drop)
  ultimately show ?thesis using c(2) by (simp add: condemn_def)
qed

function retire_while :: "pool \<Rightarrow> pool" where
  "retire_while p = (let (p', more) = retire_one p in if more then retire_while p' else p')"
  by pat_completeness auto
termination
  by (relation "measure live_slots") (auto dest: retire_one_live sym)

declare retire_while.simps [simp del]

definition reap :: "nat list \<Rightarrow> pool \<Rightarrow> pool" where
  "reap busy p = (if admitting p \<noteq> [] then p else free_retired busy (fst (retire_one p)))"

definition free_drained :: "nat list \<Rightarrow> pool \<Rightarrow> pool \<times> bool" where
  "free_drained busy p = (if admitting p \<noteq> [] then (p, False) else (free_retired busy p, True))"

definition reap_empty :: "nat list \<Rightarrow> pool \<Rightarrow> pool" where
  "reap_empty busy p = (if admitting p \<noteq> [] then p else free_retired busy (retire_while p))"

definition retire_all :: "nat list \<Rightarrow> pool \<Rightarrow> pool" where
  "retire_all busy p = free_retired busy (p\<lparr>pool_retired := True, slots := map condemn (slots p)\<rparr>)"

definition is_drained :: "nat list \<Rightarrow> pool \<Rightarrow> bool" where
  "is_drained busy p \<longleftrightarrow> list_all (\<lambda>(i, s). i \<notin> set busy \<and> \<not> sl_worker s) (enumerate 0 (slots p))"

definition warm :: "bool \<Rightarrow> nat list \<Rightarrow> pool \<Rightarrow> pool" where
  "warm built busy p = fst (grow built busy (Some (max_stateless (pool_limits p))) p)"

record pool_census =
  ce_cells :: nat
  ce_requests :: nat
  ce_turns :: nat
  ce_freed :: nat
  ce_retiring :: nat
  ce_live :: nat
  ce_live_empty :: nat

definition census_slot :: "nat list \<Rightarrow> nat \<times> slot \<Rightarrow> pool_census \<Rightarrow> pool_census" where
  "census_slot busy = (\<lambda>(i, s) c.
     let l = observe_slot s;
         c = c\<lparr>ce_cells := ce_cells c + il_cells l, ce_requests := ce_requests c + il_requests l,
               ce_turns := ce_turns c + il_turns l\<rparr> in
     if i \<notin> set busy \<and> \<not> sl_worker s then c\<lparr>ce_freed := ce_freed c + 1\<rparr>
     else if il_retiring l then c\<lparr>ce_retiring := ce_retiring c + 1\<rparr>
     else c\<lparr>ce_live := ce_live c + 1, ce_live_empty := ce_live_empty c + (if il_cells l = 0 then 1 else 0)\<rparr>)"

definition census :: "nat list \<Rightarrow> pool \<Rightarrow> pool_census" where
  "census busy p = fold (census_slot busy) (enumerate 0 (slots p))
     \<lparr>ce_cells = 0, ce_requests = 0, ce_turns = 0, ce_freed = 0, ce_retiring = 0, ce_live = 0, ce_live_empty = 0\<rparr>"

section \<open>Steps\<close>

text \<open>
  \<open>AdmitStart\<close> and \<open>AdmitFinish\<close> are the two ends of an admission under the shared guard, \<open>AdmitNow\<close> an
  admission under the exclusive guard. Requests, turns and cells end in any order. A task enters an isolate only
  while it has a claim on it, so the claim is a guard of \<open>TurnEnter\<close>.
\<close>

datatype pool_event =
    AdmitStart bool
  | AdmitFinish nat bool "nat list"
  | AdmitNow bool bool "nat list"
  | PlaceCell bool "nat list"
  | Warm bool "nat list"
  | EndRequest nat
  | TurnEnter nat
  | TurnLeave nat
  | Adopt nat
  | DropCell nat bool
  | Condemn nat
  | Reap "nat list"
  | FreeDrained "nat list"
  | ReapEmpty "nat list"
  | RetireAll "nat list"

definition pool_admit :: "bool \<Rightarrow> bool \<Rightarrow> nat list \<Rightarrow> pool \<Rightarrow> pool" where
  "pool_admit shedding built busy p =
     (case admit (observed p) shedding of
        Err _ \<Rightarrow> p
      | Ok pl \<Rightarrow> reserve built busy pl p)"

fun pool_step :: "pool \<Rightarrow> pool_event \<Rightarrow> pool option" where
  "pool_step p (AdmitStart shedding) =
     Some (if max_requests (pool_limits p) \<noteq> None then p
           else case admit (observed p) shedding of
                  Err _ \<Rightarrow> p
                | Ok pl \<Rightarrow> p\<lparr>admitting := admitting p @ [pl]\<rparr>)"
| "pool_step p (AdmitFinish k built busy) =
     Some (if k < length (admitting p)
           then reserve built busy (admitting p ! k) (p\<lparr>admitting := take k (admitting p) @ drop (Suc k) (admitting p)\<rparr>)
           else p)"
| "pool_step p (AdmitNow shedding built busy) =
     Some (if max_requests (pool_limits p) = None \<or> admitting p \<noteq> [] then p else pool_admit shedding built busy p)"
| "pool_step p (PlaceCell built busy) = Some (if admitting p \<noteq> [] then p else pool_place_cell built busy p)"
| "pool_step p (Warm built busy) = Some (warm built busy p)"
| "pool_step p (EndRequest i) =
     Some (if i < length (slots p) \<and> 0 < sl_requests (slots p ! i) then at_slot i drop_affiliation p else p)"
| "pool_step p (TurnEnter i) =
     (if i < length (slots p) \<and> (0 < sl_requests (slots p ! i) \<or> 0 < sl_cells (slots p ! i))
      then map_option (\<lambda>s. at_slot i (\<lambda>_. s) p) (turn_enter (slots p ! i)) else Some p)"
| "pool_step p (TurnLeave i) =
     Some (if i < length (slots p) \<and> 0 < sl_turns (slots p ! i) then at_slot i turn_leave p else p)"
| "pool_step p (Adopt i) =
     Some (if i < length (slots p) \<and> sl_adopted (slots p ! i) < sl_cells (slots p ! i) then at_slot i adopt p else p)"
| "pool_step p (DropCell i adopted) =
     Some (if i < length (slots p) \<and> 0 < sl_cells (slots p ! i)
              \<and> (if adopted then 0 < sl_adopted (slots p ! i) else sl_adopted (slots p ! i) < sl_cells (slots p ! i))
           then at_slot i (drop_residency adopted) p else p)"
| "pool_step p (Condemn i) = Some (if i < length (slots p) then at_slot i condemn p else p)"
| "pool_step p (Reap busy) = Some (reap busy p)"
| "pool_step p (FreeDrained busy) = Some (fst (free_drained busy p))"
| "pool_step p (ReapEmpty busy) = Some (reap_empty busy p)"
| "pool_step p (RetireAll busy) = Some (if admitting p \<noteq> [] then p else retire_all busy p)"

fun pool_run :: "pool \<Rightarrow> pool_event list \<Rightarrow> pool option" where
  "pool_run p [] = Some p"
| "pool_run p (e # es) = (case pool_step p e of None \<Rightarrow> None | Some p' \<Rightarrow> pool_run p' es)"

text \<open>
  The invariant: a freed slot holds nothing, adoptions and cells are within their bounds, an admission under way
  points at a slot with its worker, and a configured ceiling on requests is kept.
\<close>

definition slot_ok :: "pool_limits \<Rightarrow> slot \<Rightarrow> bool" where
  "slot_ok lim s \<longleftrightarrow>
     (sl_worker s \<or> sl_retiring s \<and> sl_turns s = 0 \<and> sl_requests s = 0 \<and> sl_cells s = 0)
     \<and> sl_adopted s \<le> sl_cells s \<and> sl_cells s \<le> max 1 (max_cells lim)"

definition held_requests :: "pool \<Rightarrow> nat" where
  "held_requests p = sum_list (map sl_requests (slots p))"

definition pool_ok :: "pool \<Rightarrow> bool" where
  "pool_ok p \<longleftrightarrow>
     (\<forall>s\<in>set (slots p). slot_ok (pool_limits p) s)
     \<and> (\<forall>i. Existing i \<in> set (admitting p) \<longrightarrow> i < length (slots p) \<and> sl_worker (slots p ! i))
     \<and> (\<forall>m. max_requests (pool_limits p) = Some m \<longrightarrow> admitting p = [] \<and> held_requests p \<le> m)"

definition capped :: "pool \<Rightarrow> bool" where
  "capped p \<longleftrightarrow> live_slots p \<le> max 1 (max_stateless (pool_limits p))"

section \<open>The invariant holds\<close>

lemma position_Some: "position P xs = Some i \<Longrightarrow> i < length xs \<and> P (xs ! i)"
  by (auto simp: position_def Let_def split: if_splits dest: nth_length_takeWhile)

lemma held_requests_at_slot:
  "i < length (slots p) \<Longrightarrow> held_requests (at_slot i f p) = held_requests p + sl_requests (f (slots p ! i)) - sl_requests (slots p ! i)"
  by (simp add: held_requests_def at_slot_def map_update sum_list_update)

lemma held_requests_ge: "i < length (slots p) \<Longrightarrow> sl_requests (slots p ! i) \<le> held_requests p"
  by (simp add: held_requests_def member_le_sum_list)

lemma pool_ok_at_slot:
  assumes "pool_ok p" "i < length (slots p)" "slot_ok (pool_limits p) (f (slots p ! i))"
    "sl_worker (slots p ! i) \<Longrightarrow> sl_worker (f (slots p ! i))"
    "\<And>m. max_requests (pool_limits p) = Some m \<Longrightarrow> held_requests (at_slot i f p) \<le> m"
  shows "pool_ok (at_slot i f p)"
  using assms(1,3-5) set_update_subset_insert [of "slots p" i "f (slots p ! i)"] assms(2)
  by (auto simp: pool_ok_def at_slot_def nth_list_update held_requests_def)

lemma pool_ok_at_slot_le:
  assumes "pool_ok p" "i < length (slots p)" "slot_ok (pool_limits p) (f (slots p ! i))"
    "sl_worker (slots p ! i) \<Longrightarrow> sl_worker (f (slots p ! i))" "sl_requests (f (slots p ! i)) \<le> sl_requests (slots p ! i)"
  shows "pool_ok (at_slot i f p)"
proof (rule pool_ok_at_slot [of p i f, OF assms(1-4)])
  fix m
  assume "max_requests (pool_limits p) = Some m"
  then have "held_requests p \<le> m" using assms(1) by (simp add: pool_ok_def)
  then show "held_requests (at_slot i f p) \<le> m"
    using assms(5) held_requests_at_slot [OF assms(2), of f] held_requests_ge [OF assms(2)] by simp
qed

lemma slot_ok_nth: "pool_ok p \<Longrightarrow> i < length (slots p) \<Longrightarrow> slot_ok (pool_limits p) (slots p ! i)"
  by (simp add: pool_ok_def)

lemma new_slot_ok: "slot_ok lim (new_slot p)" "sl_worker (new_slot p)" "sl_cells (new_slot p) = 0" "sl_requests (new_slot p) = 0"
  by (simp_all add: slot_ok_def new_slot_def)

text \<open>The four outcomes of \<open>grow\<close>.\<close>

lemma grow_cases:
  assumes "grow built busy cap p = (p', r)"
  obtains (failed) "p' = p" "r = None"
  | (shared) i where "cap \<noteq> None" "position (\<lambda>s. \<not> sl_retiring s) (slots p) = Some i" "p' = p" "r = Some i"
  | (reused) i where "position (\<lambda>(i, s). is_reusable (i \<in> set busy) s) (enumerate 0 (slots p)) = Some i"
      "p' = p\<lparr>slots := (slots p)[i := new_slot p], next_heap := next_heap p + 1\<rparr>" "r = Some i"
      "\<And>c. cap = Some c \<Longrightarrow> c \<le> live_slots p \<Longrightarrow> position (\<lambda>s. \<not> sl_retiring s) (slots p) = None"
  | (added) "p' = p\<lparr>slots := slots p @ [new_slot p], next_heap := next_heap p + 1\<rparr>" "r = Some (length (slots p))"
      "\<And>c. cap = Some c \<Longrightarrow> c \<le> live_slots p \<Longrightarrow> position (\<lambda>s. \<not> sl_retiring s) (slots p) = None"
proof -
  let ?capped = "if (case cap of None \<Rightarrow> False | Some c \<Rightarrow> c \<le> live_slots p) then position (\<lambda>s. \<not> sl_retiring s) (slots p) else None"
  let ?free = "position (\<lambda>(i, s). is_reusable (i \<in> set busy) s) (enumerate 0 (slots p))"
  have below: "position (\<lambda>s. \<not> sl_retiring s) (slots p) = None" if "?capped = None" "cap = Some c" "c \<le> live_slots p" for c
    using that by simp
  consider "\<not> built" | i where "built" "?capped = Some i" | i where "built" "?capped = None" "?free = Some i"
    | "built" "?capped = None" "?free = None" by (cases built; cases ?capped; cases ?free) blast+
  then show ?thesis
  proof cases
    case 1
    then show ?thesis using failed assms by (simp add: grow_def)
  next
    case (2 i)
    then have "position (\<lambda>s. \<not> sl_retiring s) (slots p) = Some i" "cap \<noteq> None" by (auto split: if_splits option.splits)
    moreover have "p' = p" "r = Some i" using assms 2 by (simp_all add: grow_def)
    ultimately show ?thesis using shared by blast
  next
    case (3 i)
    show ?thesis by (rule reused [OF 3(3)]) (use assms 3(1,3) below [OF 3(2)] 3(2) in \<open>simp_all add: grow_def\<close>)
  next
    case 4
    show ?thesis by (rule added) (use assms 4(1,3) below [OF 4(2)] 4(2) in \<open>simp_all add: grow_def\<close>)
  qed
qed

lemma grow_keeps: "grow built busy cap p = (p', r) \<Longrightarrow> pool_limits p' = pool_limits p \<and> admitting p' = admitting p"
  by (auto simp: grow_def split: if_splits option.splits)

text \<open>A slot \<open>grow\<close> answers with has its worker, and it is fresh or was live before.\<close>

lemma grow_ok:
  assumes "pool_ok p" "grow built busy cap p = (p', r)"
  shows "pool_ok p' \<and> held_requests p' = held_requests p
    \<and> (\<forall>i. r = Some i \<longrightarrow> i < length (slots p') \<and> sl_worker (slots p' ! i) \<and> (cap = None \<longrightarrow> sl_cells (slots p' ! i) = 0))"
proof -
  have live: "i < length (slots p) \<and> sl_worker (slots p ! i)" if "position (\<lambda>s. \<not> sl_retiring s) (slots p) = Some i" for i
    using position_Some [OF that] slot_ok_nth [OF assms(1), of i] by (auto simp: slot_ok_def)
  have reuse: ?thesis if i: "position (\<lambda>(i, s). is_reusable (i \<in> set busy) s) (enumerate 0 (slots p)) = Some i"
    and p': "p' = p\<lparr>slots := (slots p)[i := new_slot p], next_heap := next_heap p + 1\<rparr>" "r = Some i" for i
  proof -
    have r: "i < length (slots p)" "sl_requests (slots p ! i) = 0"
      using position_Some [OF i] by (auto simp: nth_enumerate_eq is_reusable_def may_free_def observe_slot_def)
    let ?p = "at_slot i (\<lambda>_. new_slot p) p"
    have "pool_ok ?p" using r new_slot_ok by (intro pool_ok_at_slot_le [OF assms(1)]) simp_all
    moreover have "held_requests ?p = held_requests p"
      using held_requests_at_slot [OF r(1)] r(2) new_slot_ok(4) by simp
    ultimately show ?thesis
      using r(1) new_slot_ok by (simp add: p' pool_ok_def held_requests_def at_slot_def)
  qed
  have append: ?thesis if "p' = p\<lparr>slots := slots p @ [new_slot p], next_heap := next_heap p + 1\<rparr>" "r = Some (length (slots p))"
    using assms(1) new_slot_ok by (auto simp: that pool_ok_def held_requests_def nth_append)
  show ?thesis
    using assms(2)
  proof (cases rule: grow_cases)
    case (shared i)
    then show ?thesis using assms(1) live by auto
  next
    case (reused i)
    show ?thesis by (rule reuse [OF reused(1-3)])
  next
    case added
    show ?thesis by (rule append [OF added(1,2)])
  qed (use assms(1) in simp)
qed

lemma affiliate_ok:
  assumes "pool_ok p" "i < length (slots p)" "sl_worker (slots p ! i)"
    "\<And>m. max_requests (pool_limits p) = Some m \<Longrightarrow> held_requests p < m"
  shows "pool_ok (at_slot i affiliate p)"
proof (rule pool_ok_at_slot [OF assms(1,2)])
  fix m
  assume "max_requests (pool_limits p) = Some m"
  then have "held_requests p < m" by (rule assms(4))
  then show "held_requests (at_slot i affiliate p) \<le> m"
    using held_requests_at_slot [OF assms(2), of affiliate] by (simp add: affiliate_def)
qed (use assms(3) slot_ok_nth [OF assms(1,2)] in \<open>simp_all add: slot_ok_def affiliate_def\<close>)

lemma reserve_ok:
  assumes "pool_ok p" "\<And>i. pl = Existing i \<Longrightarrow> i < length (slots p) \<and> sl_worker (slots p ! i)"
    "\<And>m. max_requests (pool_limits p) = Some m \<Longrightarrow> held_requests p < m"
  shows "pool_ok (reserve built busy pl p)"
proof (cases pl)
  case (Existing i)
  then show ?thesis using affiliate_ok [OF assms(1)] assms(2,3) by (simp add: reserve_def resolve_def)
next
  case Grow
  obtain p' r where g: "grow built busy (Some (max_stateless (pool_limits p))) p = (p', r)" by fastforce
  show ?thesis
    using grow_ok [OF assms(1) g] grow_keeps [OF g] assms(3) affiliate_ok [of p'] Grow g
    by (auto simp: reserve_def resolve_def split: option.split)
qed

lemma place_cell_ok:
  assumes "pool_ok p"
  shows "pool_ok (pool_place_cell built busy p)"
proof -
  have housed: "pool_ok (at_slot i house q)"
    if "pool_ok q" "i < length (slots q)" "sl_worker (slots q ! i)" "sl_cells (slots q ! i) < max 1 (max_cells (pool_limits q))" for q i
    using that slot_ok_nth [OF that(1,2)] by (intro pool_ok_at_slot_le) (auto simp: slot_ok_def house_def)
  show ?thesis
  proof (cases "place_cell (observed p)")
    case (Existing i)
    then have "i < length (slots p)" "\<not> sl_retiring (slots p ! i)" "sl_cells (slots p ! i) < max_cells (pool_limits p)"
      using place_cell_existing [of "observed p" i] by (auto simp: observed_def observe_slot_def)
    then show ?thesis
      using housed [OF assms, of i] slot_ok_nth [OF assms, of i] Existing
      by (auto simp: pool_place_cell_def resolve_def slot_ok_def)
  next
    case Grow
    obtain p' r where g: "grow built busy None p = (p', r)" by fastforce
    show ?thesis
      using grow_ok [OF assms g] housed [of p'] Grow g
      by (auto simp: pool_place_cell_def resolve_def less_max_iff_disj split: option.split)
  qed
qed

lemma condemn_ok: "pool_ok p \<Longrightarrow> i < length (slots p) \<Longrightarrow> pool_ok (at_slot i condemn p)"
  using slot_ok_nth [of p i] by (intro pool_ok_at_slot_le) (auto simp: slot_ok_def condemn_def)

lemma retire_one_ok: "pool_ok p \<Longrightarrow> pool_ok (fst (retire_one p)) \<and> admitting (fst (retire_one p)) = admitting p"
  using retire_candidate [of "observed p"] condemn_ok [of p]
  by (auto simp: retire_one_def observed_def at_slot_def split: option.split)

lemma retire_while_ok: "pool_ok p \<Longrightarrow> pool_ok (retire_while p) \<and> admitting (retire_while p) = admitting p"
proof (induction p rule: retire_while.induct)
  case (1 p)
  show ?case using 1 retire_one_ok [OF 1(2)] by (cases "retire_one p") (auto simp: retire_while.simps [of p])
qed

lemma free_slot_facts: "slot_ok lim s \<Longrightarrow> slot_ok lim (free_slot b s)" "sl_requests (free_slot b s) = sl_requests s"
  "sl_retiring (free_slot b s) = sl_retiring s"
  by (auto simp: free_slot_def slot_ok_def may_free_def observe_slot_def)

lemma free_retired_requests: "held_requests (free_retired busy p) = held_requests p"
proof -
  have "map (sl_requests \<circ> (\<lambda>(i, s). free_slot (i \<in> set busy) s)) (enumerate 0 (slots p)) = map (sl_requests \<circ> snd) (enumerate 0 (slots p))"
    by (auto simp: free_slot_facts(2))
  then show ?thesis by (simp add: held_requests_def free_retired_def flip: map_map)
qed

lemma free_retired_ok:
  assumes "pool_ok p" "admitting p = []"
  shows "pool_ok (free_retired busy p)"
proof -
  have "slot_ok (pool_limits p) s" if "s \<in> set (slots (free_retired busy p))" for s
    using assms(1) that free_slot_facts(1) by (fastforce simp: pool_ok_def free_retired_def in_set_enumerate_eq)
  then show ?thesis
    using assms free_retired_requests [of busy p] by (auto simp: pool_ok_def free_retired_def)
qed

lemma retire_all_ok:
  assumes "pool_ok p" "admitting p = []"
  shows "pool_ok (retire_all busy p)"
proof -
  have "sl_requests \<circ> condemn = sl_requests" by (auto simp: condemn_def)
  then have "pool_ok (p\<lparr>pool_retired := True, slots := map condemn (slots p)\<rparr>)"
    using assms by (auto simp: pool_ok_def slot_ok_def condemn_def held_requests_def)
  then show ?thesis using assms(2) free_retired_ok by (simp add: retire_all_def)
qed

lemma admitted_slot:
  assumes "pool_ok p" "admit (observed p) shedding = Ok (Existing i)"
  shows "i < length (slots p) \<and> sl_worker (slots p ! i)"
  using admit_existing [OF assms(2)] slot_ok_nth [OF assms(1), of i]
  by (auto simp: observed_def observe_slot_def slot_ok_def)

lemma pool_admit_ok:
  assumes "pool_ok p"
  shows "pool_ok (pool_admit shedding built busy p)"
proof (cases "admit (observed p) shedding")
  case (Ok pl)
  have "pool_ok (reserve built busy pl p)"
  proof (rule reserve_ok [OF assms])
    show "i < length (slots p) \<and> sl_worker (slots p ! i)" if "pl = Existing i" for i
      using admitted_slot [OF assms] Ok that by blast
    show "held_requests p < m" if "max_requests (pool_limits p) = Some m" for m
      using admit_below [OF Ok, of m] that by (simp add: observed_def held_requests_def observe_slot_def comp_def)
  qed
  then show ?thesis by (simp add: pool_admit_def Ok)
qed (simp add: assms pool_admit_def)

lemma admit_finish_ok:
  assumes "pool_ok p" "k < length (admitting p)"
  shows "pool_ok (reserve built busy (admitting p ! k) (p\<lparr>admitting := take k (admitting p) @ drop (Suc k) (admitting p)\<rparr>))"
proof (rule reserve_ok)
  have k: "admitting p ! k \<in> set (admitting p)" using assms(2) by simp
  show "pool_ok (p\<lparr>admitting := take k (admitting p) @ drop (Suc k) (admitting p)\<rparr>)"
    using assms(1) by (auto simp: pool_ok_def held_requests_def dest: in_set_takeD in_set_dropD)
  show "i < length (slots (p\<lparr>admitting := take k (admitting p) @ drop (Suc k) (admitting p)\<rparr>))
      \<and> sl_worker (slots (p\<lparr>admitting := take k (admitting p) @ drop (Suc k) (admitting p)\<rparr>) ! i)" if "admitting p ! k = Existing i" for i
    using assms(1) k that by (simp add: pool_ok_def)
  show "held_requests (p\<lparr>admitting := take k (admitting p) @ drop (Suc k) (admitting p)\<rparr>) < m"
    if "max_requests (pool_limits (p\<lparr>admitting := take k (admitting p) @ drop (Suc k) (admitting p)\<rparr>)) = Some m" for m
    using assms that by (auto simp: pool_ok_def)
qed

lemma admit_start_ok:
  assumes "pool_ok p" "max_requests (pool_limits p) = None" "admit (observed p) shedding = Ok pl"
  shows "pool_ok (p\<lparr>admitting := admitting p @ [pl]\<rparr>)"
proof -
  have "i < length (slots p) \<and> sl_worker (slots p ! i)" if "pl = Existing i" for i
    using admitted_slot [OF assms(1)] assms(3) that by blast
  then show ?thesis using assms(1,2) by (simp add: pool_ok_def)
qed

lemma slot_event_ok:
  assumes "pool_ok p" "i < length (slots p)"
  shows "pool_ok (at_slot i drop_affiliation p)" "pool_ok (at_slot i turn_leave p)"
    "sl_adopted (slots p ! i) < sl_cells (slots p ! i) \<Longrightarrow> pool_ok (at_slot i adopt p)"
    "if adopted then 0 < sl_adopted (slots p ! i) else sl_adopted (slots p ! i) < sl_cells (slots p ! i)
      \<Longrightarrow> pool_ok (at_slot i (drop_residency adopted) p)"
    "sl_worker (slots p ! i) \<Longrightarrow> turn_enter (slots p ! i) = Some s \<Longrightarrow> pool_ok (at_slot i (\<lambda>_. s) p)"
  using assms slot_ok_nth [OF assms]
  by (intro pool_ok_at_slot_le; auto simp: slot_ok_def drop_affiliation_def turn_leave_def adopt_def drop_residency_def
      turn_enter_def split: if_splits)+

lemma turn_enter_ok:
  assumes "pool_ok p"
  shows "\<exists>p'. pool_step p (TurnEnter i) = Some p' \<and> pool_ok p'"
proof (cases "i < length (slots p) \<and> (0 < sl_requests (slots p ! i) \<or> 0 < sl_cells (slots p ! i))")
  case True
  then have w: "sl_worker (slots p ! i)" using slot_ok_nth [OF assms, of i] by (auto simp: slot_ok_def)
  then obtain s where "turn_enter (slots p ! i) = Some s" by (simp add: turn_enter_def)
  then show ?thesis using True slot_event_ok(5) [OF assms _ w] by simp
qed (use assms in auto)

lemma maintenance_ok:
  assumes "pool_ok p"
  shows "pool_ok (reap busy p)" "pool_ok (reap_empty busy p)" "pool_ok (fst (free_drained busy p))"
    "pool_ok (warm built busy p)"
  using assms free_retired_ok retire_one_ok [OF assms] retire_while_ok [OF assms] grow_ok [OF assms, of built busy]
  by (auto simp: reap_def reap_empty_def free_drained_def warm_def split: prod.split) (metis prod.collapse)

lemma pool_step_ok:
  assumes "pool_ok p"
  shows "\<exists>p'. pool_step p e = Some p' \<and> pool_ok p'"
proof (cases e)
  case (AdmitStart shedding)
  then show ?thesis using assms admit_start_ok [OF assms] by (auto split: result.split)
next
  case (TurnEnter i)
  then show ?thesis using turn_enter_ok [OF assms] by blast
next
  case (DropCell i adopted)
  then show ?thesis using assms slot_event_ok(4) [OF assms, of i adopted] by simp
qed (use assms admit_finish_ok [OF assms] pool_admit_ok [OF assms] place_cell_ok [OF assms] retire_all_ok [OF assms]
    slot_event_ok(1-3) [OF assms] condemn_ok [OF assms] maintenance_ok [OF assms] in simp_all)

lemma pool_run_ok: "pool_ok p \<Longrightarrow> \<exists>p'. pool_run p es = Some p' \<and> pool_ok p'"
proof (induction es arbitrary: p)
  case (Cons e es)
  obtain p' where "pool_step p e = Some p'" "pool_ok p'" using pool_step_ok [OF Cons.prems] by blast
  then show ?case using Cons.IH by simp
qed simp

lemma pool_ok_new: "pool_ok (pool_new lim)"
  by (simp add: pool_ok_def pool_new_def held_requests_def)

section \<open>The ceiling on live isolates\<close>

lemma live_slots_update:
  assumes "i < length xs"
  shows "length (filter P (xs[i := x])) + (if P (xs ! i) then 1 else 0) = length (filter P xs) + (if P x then 1 else 0)"
proof -
  have "length (filter P xs) = length (filter P (take i xs @ xs ! i # drop (Suc i) xs))"
    using assms by (simp add: id_take_nth_drop [symmetric])
  then show ?thesis using assms by (simp add: upd_conv_take_nth_drop)
qed

lemma capped_at_slot:
  assumes "capped p" "sl_retiring (slots p ! i) \<Longrightarrow> sl_retiring (f (slots p ! i))"
  shows "capped (at_slot i f p)"
proof (cases "i < length (slots p)")
  case True
  then show ?thesis
    using assms live_slots_update [OF True, of "\<lambda>s. \<not> sl_retiring s" "f (slots p ! i)"]
    by (auto simp: capped_def live_slots_def at_slot_def split: if_splits)
qed (use assms(1) in \<open>simp add: at_slot_def capped_def live_slots_def list_update_beyond not_less\<close>)

lemma position_None: "position P xs = None \<Longrightarrow> filter P xs = []"
  by (auto simp: position_def Let_def filter_empty_conv split: if_splits) (metis length_takeWhile_le le_neq_implies_less
      takeWhile_eq_all_conv takeWhile_eq_take take_all_iff order_refl)

text \<open>The re-check under the write lock: a capped \<open>grow\<close> adds a live slot only below the ceiling.\<close>

lemma grow_capped:
  assumes "capped p" "grow built busy (Some (max_stateless (pool_limits p))) p = (p', r)"
  shows "capped p'"
proof -
  have bound: "live_slots p + 1 \<le> max 1 (max_stateless (pool_limits p))"
    if "max_stateless (pool_limits p) \<le> live_slots p \<Longrightarrow> position (\<lambda>s. \<not> sl_retiring s) (slots p) = None"
    using that position_None [of "\<lambda>s. \<not> sl_retiring s" "slots p"]
    by (cases "max_stateless (pool_limits p) \<le> live_slots p") (auto simp: live_slots_def)
  show ?thesis
    using assms(2)
  proof (cases rule: grow_cases)
    case (reused i)
    have i: "i < length (slots p)" using position_Some [OF reused(1)] by simp
    have "live_slots p' \<le> live_slots p + 1"
      using live_slots_update [OF i, of "\<lambda>s. \<not> sl_retiring s" "new_slot p"]
      by (simp add: live_slots_def reused(2) split: if_splits)
    then show ?thesis using bound [OF reused(4) [OF refl]] by (simp add: capped_def reused(2))
  next
    case added
    have "live_slots p' \<le> live_slots p + 1" by (simp add: live_slots_def added(1))
    then show ?thesis using bound [OF added(3) [OF refl]] by (simp add: capped_def added(1))
  qed (use assms(1) in simp_all)
qed

lemma retire_while_live: "live_slots (retire_while p) \<le> live_slots p \<and> pool_limits (retire_while p) = pool_limits p"
proof (induction p rule: retire_while.induct)
  case (1 p)
  obtain p' more where r: "retire_one p = (p', more)" by fastforce
  have "live_slots p' \<le> live_slots p \<and> pool_limits p' = pool_limits p"
    using retire_one_live [of p p'] r by (cases more) (auto simp: retire_one_def at_slot_def split: option.splits)
  then show ?case using 1 r by (cases more) (force simp: retire_while.simps [of p])+
qed

lemma free_retired_live: "live_slots (free_retired busy p) = live_slots p" "pool_limits (free_retired busy p) = pool_limits p"
proof -
  have "map (sl_retiring \<circ> (\<lambda>(i, s). free_slot (i \<in> set busy) s)) (enumerate 0 (slots p)) = map (sl_retiring \<circ> snd) (enumerate 0 (slots p))"
    by (auto simp: free_slot_facts(3))
  then have "map sl_retiring (slots (free_retired busy p)) = map sl_retiring (slots p)"
    by (simp add: free_retired_def flip: map_map)
  moreover have "live_slots q = length (filter Not (map sl_retiring (slots q)))" for q by (simp add: live_slots_def filter_map comp_def)
  ultimately show "live_slots (free_retired busy p) = live_slots p" by metis
qed (simp add: free_retired_def)

lemma reserve_capped:
  assumes "capped p"
  shows "capped (reserve built busy pl p)"
proof -
  obtain q r where g: "grow built busy (Some (max_stateless (pool_limits p))) p = (q, r)" by fastforce
  then show ?thesis
    using assms grow_capped [OF assms g]
    by (auto simp: reserve_def resolve_def affiliate_def split: placement.split option.split intro!: capped_at_slot)
qed

lemma retire_all_live: "live_slots (retire_all busy p) = 0"
  by (simp add: retire_all_def free_retired_live) (simp add: live_slots_def condemn_def filter_empty_conv)

lemma pool_step_capped:
  assumes "capped p" "pool_step p e = Some p'" "\<And>built busy. e \<noteq> PlaceCell built busy"
  shows "capped p'"
proof (cases e)
  case (AdmitStart shedding)
  then show ?thesis using assms by (auto simp: capped_def live_slots_def split: result.splits if_splits)
next
  case (AdmitFinish k built busy)
  have "capped (p\<lparr>admitting := q\<rparr>)" for q using assms(1) by (simp add: capped_def live_slots_def)
  then show ?thesis using assms AdmitFinish reserve_capped by auto
next
  case (AdmitNow shedding built busy)
  then show ?thesis using assms reserve_capped [OF assms(1)] by (auto simp: pool_admit_def split: result.splits if_splits)
next
  case (Warm built busy)
  then show ?thesis using assms grow_capped [OF assms(1), of built busy] by (auto simp: warm_def split: prod.splits) (metis prod.collapse)
next
  case (TurnEnter i)
  then show ?thesis using assms by (auto simp: turn_enter_def split: if_splits intro!: capped_at_slot)
next
  case (Reap busy)
  have "live_slots (fst (retire_one p)) \<le> live_slots p \<and> pool_limits (fst (retire_one p)) = pool_limits p"
    using retire_one_live [of p "fst (retire_one p)"] by (auto simp: retire_one_def at_slot_def split: option.splits)
  then show ?thesis using assms Reap free_retired_live by (auto simp: reap_def capped_def)
next
  case (ReapEmpty busy)
  then show ?thesis using assms free_retired_live retire_while_live [of p] by (auto simp: reap_empty_def capped_def)
next
  case (FreeDrained busy)
  then show ?thesis using assms free_retired_live by (auto simp: free_drained_def capped_def)
next
  case (RetireAll busy)
  then show ?thesis using assms retire_all_live [of busy p] by (auto simp: capped_def)
qed (use assms in \<open>auto simp: drop_affiliation_def turn_leave_def adopt_def drop_residency_def condemn_def
    split: if_splits intro!: capped_at_slot\<close>)

lemma pool_run_capped:
  "capped p \<Longrightarrow> list_all (\<lambda>e. \<forall>built busy. e \<noteq> PlaceCell built busy) es \<Longrightarrow> pool_run p es = Some p' \<Longrightarrow> capped p'"
  using pool_step_capped by (induction es arbitrary: p) (auto split: option.splits)

lemma pool_step_limits: "pool_step p e = Some p' \<Longrightarrow> pool_limits p' = pool_limits p"
proof -
  have g: "pool_limits (fst (grow built busy cap q)) = pool_limits q" for built busy cap q
    using grow_keeps [of built busy cap q] by (metis prod.collapse)
  have r: "pool_limits (reserve built busy pl q) = pool_limits q" for built busy pl q
    using g by (auto simp: reserve_def resolve_def at_slot_def split: placement.split prod.split option.split) (metis fst_conv)+
  have c: "pool_limits (pool_place_cell built busy q) = pool_limits q" for built busy q
    using g by (auto simp: pool_place_cell_def resolve_def at_slot_def split: placement.split prod.split option.split) (metis fst_conv)+
  assume "pool_step p e = Some p'"
  then show ?thesis using g r c
    by (cases e) (auto simp: warm_def reap_def free_drained_def reap_empty_def retire_all_def free_retired_live retire_while_live
        retire_one_def pool_admit_def at_slot_def split: if_splits result.splits option.splits)
qed

lemma pool_run_limits: "pool_run p es = Some p' \<Longrightarrow> pool_limits p' = pool_limits p"
  using pool_step_limits by (induction es arbitrary: p) (fastforce split: option.splits)+

section \<open>Maintenance settles\<close>

lemma retire_while_settles: "retire (observed (retire_while p)) = None"
proof (induction p rule: retire_while.induct)
  case (1 p)
  obtain p' more where r: "retire_one p = (p', more)" by fastforce
  show ?case
  proof (cases more)
    case True
    then show ?thesis using 1 [OF r [symmetric] refl True] r by (simp add: retire_while.simps [of p])
  next
    case False
    then have "p' = p" "retire (observed p) = None" using r by (auto simp: retire_one_def split: option.splits)
    then show ?thesis using r False by (simp add: retire_while.simps [of p])
  qed
qed

lemma observed_free_retired: "observed (free_retired busy p) = observed p"
proof -
  have "observe_slot (free_slot b s) = observe_slot s" for b s by (simp add: observe_slot_def free_slot_def)
  then have "map (observe_slot \<circ> (\<lambda>(i, s). free_slot (i \<in> set busy) s)) (enumerate 0 (slots p)) = map (observe_slot \<circ> snd) (enumerate 0 (slots p))"
    by auto
  then show ?thesis by (simp add: observed_def free_retired_def flip: map_map)
qed

section \<open>Properties\<close>

text \<open>
  C20. No task enters a freed isolate. Along every interleaving of admissions, cell placements, turns, condemnations
  and maintenance passes the pool never panics, and an isolate that holds a turn, a request or a cell still has
  its heap.
\<close>

theorem claims_keep_their_isolate:
  "\<exists>p. pool_run (pool_new lim) es = Some p
     \<and> (\<forall>s\<in>set (slots p). 0 < sl_turns s \<or> 0 < sl_requests s \<or> 0 < sl_cells s \<longrightarrow> sl_worker s)"
proof -
  obtain p where "pool_run (pool_new lim) es = Some p" "pool_ok p" using pool_run_ok [OF pool_ok_new] by blast
  then show ?thesis by (auto simp: pool_ok_def slot_ok_def)
qed

theorem claims_keep_their_isolate_witness:
  "let lim = \<lparr>grow_at = 1, shrink_under = 1, max_stateless = 2, max_requests = None, max_cells = 1\<rparr>;
       es = [AdmitStart False, AdmitFinish 0 True [], Condemn 0, Reap [], TurnEnter 0] in
   \<exists>p. pool_run (pool_new lim) es = Some p \<and> map sl_requests (slots p) = [1]
     \<and> (\<forall>s\<in>set (slots p). 0 < sl_turns s \<or> 0 < sl_requests s \<or> 0 < sl_cells s \<longrightarrow> sl_worker s)"
proof -
  let ?lim = "\<lparr>grow_at = 1, shrink_under = 1, max_stateless = 2, max_requests = None, max_cells = 1\<rparr>"
  let ?es = "[AdmitStart False, AdmitFinish 0 True [], Condemn 0, Reap [], TurnEnter 0]"
  have "map_option (\<lambda>p. map sl_requests (slots p)) (pool_run (pool_new ?lim) ?es) = Some [1]" by code_simp
  moreover obtain p where "pool_run (pool_new ?lim) ?es = Some p"
    "\<forall>s\<in>set (slots p). 0 < sl_turns s \<or> 0 < sl_requests s \<or> 0 < sl_cells s \<longrightarrow> sl_worker s"
    using claims_keep_their_isolate [of ?lim ?es] by blast
  ultimately show ?thesis unfolding Let_def by simp
qed

text \<open>
  C21. The limits of the pool hold under every interleaving: no isolate houses more cells than \<open>max_cells\<close>, a
  configured ceiling on requests is never passed, and a pool that houses no cells never has more live isolates
  than \<open>max_stateless\<close> however many admissions decide on the same snapshot. A limit of zero counts as one,
  because a pool with nothing to place on builds an isolate.
\<close>

theorem pool_limits_hold:
  assumes "pool_run (pool_new lim) es = Some p"
  shows "(\<forall>s\<in>set (slots p). sl_cells s \<le> max 1 (max_cells lim))
    \<and> (\<forall>m. max_requests lim = Some m \<longrightarrow> sum_list (map sl_requests (slots p)) \<le> m)
    \<and> (list_all (\<lambda>e. \<forall>built busy. e \<noteq> PlaceCell built busy) es \<longrightarrow> live_slots p \<le> max 1 (max_stateless lim))"
proof -
  have lim: "pool_limits p = lim" using pool_run_limits [OF assms] by (simp add: pool_new_def)
  have "pool_ok p" using pool_run_ok [OF pool_ok_new [of lim], of es] assms by simp
  moreover have "capped p" if "list_all (\<lambda>e. \<forall>built busy. e \<noteq> PlaceCell built busy) es"
    using pool_run_capped [OF _ that assms] by (simp add: capped_def live_slots_def pool_new_def)
  ultimately show ?thesis by (simp add: pool_ok_def slot_ok_def held_requests_def capped_def lim)
qed

theorem pool_limits_hold_witness:
  "let lim = \<lparr>grow_at = 0, shrink_under = 1, max_stateless = 2, max_requests = None, max_cells = 1\<rparr>;
       es = replicate 4 (AdmitStart False) @ replicate 4 (AdmitFinish 0 True []) in
   pool_run (pool_new lim) es \<noteq> None \<and> live_slots (the (pool_run (pool_new lim) es)) \<le> 2"
proof -
  let ?lim = "\<lparr>grow_at = 0, shrink_under = 1, max_stateless = 2, max_requests = None, max_cells = 1\<rparr>"
  let ?es = "replicate 4 (AdmitStart False) @ replicate 4 (AdmitFinish 0 True [])"
  have "pool_run (pool_new ?lim) ?es \<noteq> None" by code_simp
  then obtain p where p: "pool_run (pool_new ?lim) ?es = Some p" by blast
  then show ?thesis unfolding Let_def using pool_limits_hold [OF p] by (simp add: list_all_iff)
qed

text \<open>
  The maintenance of a cell pool ends and leaves nothing to do: the loop that retires isolates stops, after it
  no live isolate is worth retiring, and every retired isolate that is drained has given its heap back, except
  one whose lock a census holds at that moment.
\<close>

lemma reap_empty_settles:
  assumes "admitting p = []"
  shows "retire (observed (reap_empty busy p)) = None
    \<and> (\<forall>i<length (slots (reap_empty busy p)). may_free (observe_slot (slots (reap_empty busy p) ! i)) \<and> i \<notin> set busy
         \<longrightarrow> \<not> sl_worker (slots (reap_empty busy p) ! i))"
proof
  show "retire (observed (reap_empty busy p)) = None"
    using assms retire_while_settles [of p] by (simp add: reap_empty_def observed_free_retired)
  show "\<forall>i<length (slots (reap_empty busy p)). may_free (observe_slot (slots (reap_empty busy p) ! i)) \<and> i \<notin> set busy
      \<longrightarrow> \<not> sl_worker (slots (reap_empty busy p) ! i)"
    using assms by (auto simp: reap_empty_def free_retired_def nth_enumerate_eq free_slot_def)
qed

lemma reap_empty_settles_witness:
  "let lim = \<lparr>grow_at = 0, shrink_under = 1, max_stateless = 2, max_requests = None, max_cells = 1\<rparr>;
       p = the (pool_run (pool_new lim) [PlaceCell True [], PlaceCell True [], DropCell 0 False]) in
   map sl_worker (slots (reap_empty [] p)) = [False, True] \<and> retire (observed (reap_empty [] p)) = None"
proof -
  let ?lim = "\<lparr>grow_at = 0, shrink_under = 1, max_stateless = 2, max_requests = None, max_cells = 1\<rparr>"
  let ?p = "the (pool_run (pool_new ?lim) [PlaceCell True [], PlaceCell True [], DropCell 0 False])"
  have "admitting ?p = []" "map sl_worker (slots (reap_empty [] ?p)) = [False, True]" by code_simp+
  then show ?thesis unfolding Let_def using reap_empty_settles [of ?p "[]"] by blast
qed

end
