(* ===== verification/LogEvict.thy ===== *)
theory LogEvict
  imports Prelude
begin

text \<open>
  The eviction of gray followers from the log tier: the policy of \<open>crates/logic/log_evict.rs\<close> and the watch that
  applies it, \<open>evict_gray_followers\<close> in \<open>crates/celld/node_log.rs\<close>. A follower is suspect while the median of
  its recent appends is over a threshold, and it is evicted when that lasted or when one append hangs past a
  backstop. Times and latencies are \<open>u64\<close> milliseconds, so subtraction saturates at zero on \<open>nat\<close>.

  \<open>health_run\<close> folds observations and judgements into the tracker and keeps the log of judgements, newest
  first.
\<close>

section \<open>Definitions\<close>

definition PROBE_FAILURES_TO_DEGRADE :: nat where
  "PROBE_FAILURES_TO_DEGRADE = 3"

record eviction_policy =
  budget_ms :: nat
  sibling_factor :: nat
  sustain_ms :: nat
  backstop_ms :: nat
  quarantine_ms :: nat
  min_swap_interval_ms :: nat
  window_ms :: nat
  min_samples :: nat
  hedge_floor_ms :: nat
  hedge_factor :: nat

definition eviction_policy_default :: eviction_policy where
  "eviction_policy_default =
     \<lparr>budget_ms = 25, sibling_factor = 4, sustain_ms = 2000, backstop_ms = 1500, quarantine_ms = 300000,
      min_swap_interval_ms = 10000, window_ms = 3000, min_samples = 5, hedge_floor_ms = 250, hedge_factor = 4\<rparr>"

datatype verdict_kind = Healthy | Suspect | Evict

record verdict_detail =
  vd_rule :: string
  vd_outstanding_ms :: nat
  vd_own_median_ms :: "nat option"
  vd_samples :: nat
  vd_sibling_median_ms :: "nat option"
  vd_threshold_ms :: nat
  vd_suspect_ms :: nat

definition verdict_detail_default :: verdict_detail where
  "verdict_detail_default = \<lparr>vd_rule = '''', vd_outstanding_ms = 0, vd_own_median_ms = None, vd_samples = 0,
     vd_sibling_median_ms = None, vd_threshold_ms = 0, vd_suspect_ms = 0\<rparr>"

record member_health =
  mh_samples :: "(nat \<times> nat) list"
  mh_outstanding_since :: "nat option"
  mh_suspect_since :: "nat option"
  mh_last_probe_failed_ms :: "nat option"
  mh_probe_failures :: nat

definition member_health_default :: member_health where
  "member_health_default = \<lparr>mh_samples = [], mh_outstanding_since = None, mh_suspect_since = None,
     mh_last_probe_failed_ms = None, mh_probe_failures = 0\<rparr>"

definition prune :: "nat \<Rightarrow> nat \<Rightarrow> member_health \<Rightarrow> member_health" where
  "prune now window h = h\<lparr>mh_samples := dropWhile (\<lambda>(at, _). sat_add at window < now) (mh_samples h)\<rparr>"

definition median_ms :: "member_health \<Rightarrow> nat option" where
  "median_ms h =
     (if mh_samples h = [] then None
      else let sorted = sort (map snd (mh_samples h)) in Some (sorted ! (length sorted div 2)))"

record follower_health =
  fh_members :: "(node_id, member_health) bmap"
  fh_quarantined_until :: "(node_id, nat) bmap"
  fh_last_swap_ms :: "nat option"

definition follower_health_default :: follower_health where
  "follower_health_default = \<lparr>fh_members = [], fh_quarantined_until = [], fh_last_swap_ms = None\<rparr>"

definition health_reset :: "follower_health \<Rightarrow> follower_health" where
  "health_reset f = f\<lparr>fh_members := []\<rparr>"

definition entry_or_default :: "follower_health \<Rightarrow> node_id \<Rightarrow> member_health" where
  "entry_or_default f m = (case bm_get (fh_members f) m of None \<Rightarrow> member_health_default | Some h \<Rightarrow> h)"

definition append_started :: "node_id \<Rightarrow> nat \<Rightarrow> follower_health \<Rightarrow> follower_health" where
  "append_started m now f =
     (let h = entry_or_default f m in
      f\<lparr>fh_members := bm_insert m
          (h\<lparr>mh_outstanding_since := (case mh_outstanding_since h of None \<Rightarrow> Some now | Some t \<Rightarrow> Some t)\<rparr>) (fh_members f)\<rparr>)"

definition append_completed :: "node_id \<Rightarrow> nat \<Rightarrow> nat \<Rightarrow> follower_health \<Rightarrow> follower_health" where
  "append_completed m now latency f =
     (let h = entry_or_default f m in
      f\<lparr>fh_members := bm_insert m
          (h\<lparr>mh_outstanding_since := None, mh_samples := mh_samples h @ [(now, latency)], mh_probe_failures := 0\<rparr>)
          (fh_members f)\<rparr>)"

definition u32_limit :: nat where
  "u32_limit = 4294967295"

definition probe_failed :: "node_id \<Rightarrow> nat \<Rightarrow> follower_health \<Rightarrow> follower_health \<times> bool" where
  "probe_failed m now f =
     (let h = entry_or_default f m;
          failures = min u32_limit (mh_probe_failures h + 1) in
      (f\<lparr>fh_members := bm_insert m
           (h\<lparr>mh_outstanding_since := None, mh_last_probe_failed_ms := Some now, mh_probe_failures := failures\<rparr>)
           (fh_members f)\<rparr>,
       PROBE_FAILURES_TO_DEGRADE \<le> failures))"

definition probe_failures :: "node_id \<Rightarrow> follower_health \<Rightarrow> nat" where
  "probe_failures m f = (case bm_get (fh_members f) m of None \<Rightarrow> 0 | Some h \<Rightarrow> mh_probe_failures h)"

definition sample_count :: "node_id \<Rightarrow> follower_health \<Rightarrow> nat" where
  "sample_count m f = (case bm_get (fh_members f) m of None \<Rightarrow> 0 | Some h \<Rightarrow> length (mh_samples h))"

fun option_min :: "nat option \<Rightarrow> nat option \<Rightarrow> nat option" where
  "option_min None y = y"
| "option_min x None = x"
| "option_min (Some a) (Some b) = Some (min a b)"

text \<open>The scan over the siblings prunes the window of each one it reads.\<close>

fun sibling_medians :: "eviction_policy \<Rightarrow> node_id \<Rightarrow> nat \<Rightarrow> node_id list \<Rightarrow> follower_health \<Rightarrow> follower_health \<times> nat option" where
  "sibling_medians policy m now [] f = (f, None)"
| "sibling_medians policy m now (s # siblings) f =
     (if s = m then sibling_medians policy m now siblings f
      else
        case bm_get (fh_members f) s of
          None \<Rightarrow> sibling_medians policy m now siblings f
        | Some h \<Rightarrow>
            let h' = prune now (window_ms policy) h;
                (f', rest) = sibling_medians policy m now siblings (f\<lparr>fh_members := bm_insert s h' (fh_members f)\<rparr>) in
            (f', option_min (median_ms h') rest))"

definition judge_threshold :: "eviction_policy \<Rightarrow> nat option \<Rightarrow> nat" where
  "judge_threshold policy sibling_median =
     max (case sibling_median of None \<Rightarrow> 0 | Some median \<Rightarrow> sat_mul median (sibling_factor policy)) (budget_ms policy)"

text \<open>What remains of \<open>verdict_detailed\<close> once the member was found and no append hangs.\<close>

definition judge_window ::
  "eviction_policy \<Rightarrow> node_id \<Rightarrow> node_id list \<Rightarrow> nat \<Rightarrow> nat option \<Rightarrow> verdict_detail \<Rightarrow> member_health
     \<Rightarrow> member_health \<times> verdict_kind \<times> verdict_detail" where
  "judge_window policy m siblings now sibling_median detail h0 =
     (let h = prune now (window_ms policy) h0;
          detail = detail\<lparr>vd_samples := length (mh_samples h)\<rparr> in
      case median_ms h of
        None \<Rightarrow> (h, Healthy, detail)
      | Some own_median \<Rightarrow>
          let detail = detail\<lparr>vd_own_median_ms := Some own_median\<rparr> in
          if vd_samples detail < min_samples policy then (h\<lparr>mh_suspect_since := None\<rparr>, Healthy, detail)
          else if sibling_median = None \<and> list_ex (\<lambda>s. s \<noteq> m) siblings
          then (h\<lparr>mh_suspect_since := None\<rparr>, Healthy, detail)
          else
            let threshold = judge_threshold policy sibling_median;
                detail = detail\<lparr>vd_threshold_ms := threshold\<rparr> in
            if own_median \<le> threshold then (h\<lparr>mh_suspect_since := None\<rparr>, Healthy, detail)
            else
              let since = (case mh_suspect_since h of None \<Rightarrow> now | Some t \<Rightarrow> t);
                  h = h\<lparr>mh_suspect_since := Some since\<rparr>;
                  detail = detail\<lparr>vd_suspect_ms := now - since\<rparr> in
              if sustain_ms policy \<le> now - since then (h, Evict, detail\<lparr>vd_rule := ''sustain''\<rparr>)
              else (h, Suspect, detail))"

definition verdict_detailed ::
  "eviction_policy \<Rightarrow> node_id \<Rightarrow> node_id list \<Rightarrow> nat \<Rightarrow> follower_health \<Rightarrow> follower_health \<times> verdict_kind \<times> verdict_detail" where
  "verdict_detailed policy m siblings now f0 =
     (let (f, sibling_median) = sibling_medians policy m now siblings f0;
          detail = verdict_detail_default\<lparr>vd_sibling_median_ms := sibling_median\<rparr> in
      case bm_get (fh_members f) m of
        None \<Rightarrow> (f, Healthy, detail)
      | Some h \<Rightarrow>
          let outstanding = (case mh_outstanding_since h of None \<Rightarrow> 0 | Some since \<Rightarrow> now - since);
              detail = detail\<lparr>vd_outstanding_ms := outstanding\<rparr> in
          if mh_outstanding_since h \<noteq> None \<and> backstop_ms policy \<le> outstanding
          then (f, Evict, detail\<lparr>vd_rule := ''backstop''\<rparr>)
          else
            let (h', v, detail') = judge_window policy m siblings now sibling_median detail h in
            (f\<lparr>fh_members := bm_insert m h' (fh_members f)\<rparr>, v, detail'))"

definition verdict :: "eviction_policy \<Rightarrow> node_id \<Rightarrow> node_id list \<Rightarrow> nat \<Rightarrow> follower_health \<Rightarrow> follower_health \<times> verdict_kind" where
  "verdict policy m siblings now f = (let (f', v, _) = verdict_detailed policy m siblings now f in (f', v))"

definition health_evicted :: "eviction_policy \<Rightarrow> node_id \<Rightarrow> nat \<Rightarrow> follower_health \<Rightarrow> follower_health" where
  "health_evicted policy m now f = f\<lparr>fh_members := bm_remove m (fh_members f), fh_last_swap_ms := Some now\<rparr>"

definition append_incapable :: "eviction_policy \<Rightarrow> node_id \<Rightarrow> nat \<Rightarrow> follower_health \<Rightarrow> follower_health" where
  "append_incapable policy m now f =
     f\<lparr>fh_quarantined_until := bm_insert m (sat_add now (quarantine_ms policy)) (fh_quarantined_until f),
       fh_members := bm_remove m (fh_members f)\<rparr>"

definition swap_allowed :: "eviction_policy \<Rightarrow> nat \<Rightarrow> follower_health \<Rightarrow> bool" where
  "swap_allowed policy now f \<longleftrightarrow>
     (case fh_last_swap_ms f of None \<Rightarrow> True | Some t \<Rightarrow> min_swap_interval_ms policy \<le> now - t)"

definition hedge_deadline_ms :: "eviction_policy \<Rightarrow> nat \<Rightarrow> follower_health \<Rightarrow> follower_health \<times> nat" where
  "hedge_deadline_ms policy now f =
     (let members = map (\<lambda>(m, h). (m, prune now (window_ms policy) h)) (fh_members f);
          worst = fold (\<lambda>(_, h) w. fold (\<lambda>(_, latency) w. max w latency) (mh_samples h) w) members 0;
          cap = sat_mul (backstop_ms policy div 3) 2;
          floor = min (hedge_floor_ms policy) cap in
      (f\<lparr>fh_members := members\<rparr>, min (max (sat_mul (hedge_factor policy) worst) floor) cap))"

definition quarantined :: "node_id \<Rightarrow> nat \<Rightarrow> follower_health \<Rightarrow> bool" where
  "quarantined candidate now f \<longleftrightarrow>
     (case bm_get (fh_quarantined_until f) candidate of None \<Rightarrow> False | Some t \<Rightarrow> now < t)"

definition correlated_stall :: "eviction_policy \<Rightarrow> node_id list \<Rightarrow> nat \<Rightarrow> follower_health \<Rightarrow> bool" where
  "correlated_stall policy members now f \<longleftrightarrow>
     2 \<le> length members
     \<and> list_all (\<lambda>m. case bm_get (fh_members f) m of
           None \<Rightarrow> False
         | Some h \<Rightarrow> (case mh_outstanding_since h of None \<Rightarrow> False | Some since \<Rightarrow> backstop_ms policy \<le> now - since)) members"

definition probe_due :: "node_id \<Rightarrow> nat \<Rightarrow> nat \<Rightarrow> follower_health \<Rightarrow> bool" where
  "probe_due m now quiet_ms f \<longleftrightarrow>
     (case bm_get (fh_members f) m of
        None \<Rightarrow> True
      | Some h \<Rightarrow>
          mh_outstanding_since h = None
          \<and> (mh_samples h = [] \<or> sat_add (fst (List.last (mh_samples h))) quiet_ms < now)
          \<and> (case mh_last_probe_failed_ms h of None \<Rightarrow> True | Some at \<Rightarrow> sat_add at quiet_ms < now))"

subsection \<open>The watch\<close>

datatype gray_outcome = NoAction | CorrelatedStall | GrayEvicted node_id

fun evict_first :: "eviction_policy \<Rightarrow> node_id list \<Rightarrow> nat \<Rightarrow> node_id list \<Rightarrow> follower_health \<Rightarrow> follower_health \<times> gray_outcome" where
  "evict_first policy members now [] f = (f, NoAction)"
| "evict_first policy members now (m # ms) f =
     (let (f', v) = verdict policy m members now f in
      if v = Evict
      then (health_evicted policy m now (fst (verdict_detailed policy m members now f')), GrayEvicted m)
      else evict_first policy members now ms f')"

text \<open>\<open>shipper\<close> is the active shipper with its members, if there is one; every outcome but \<open>NoAction\<close> degrades it.\<close>

definition evict_gray_followers ::
  "eviction_policy \<Rightarrow> (bool \<times> node_id list) option \<Rightarrow> nat \<Rightarrow> follower_health \<Rightarrow> follower_health \<times> gray_outcome" where
  "evict_gray_followers policy shipper now f =
     (case shipper of
        None \<Rightarrow> (f, NoAction)
      | Some (active, members) \<Rightarrow>
          if \<not> active then (f, NoAction)
          else if correlated_stall policy members now f then (f, CorrelatedStall)
          else if \<not> swap_allowed policy now f then (f, NoAction)
          else evict_first policy members now members f)"

subsection \<open>Runs\<close>

datatype health_op =
    Started node_id nat
  | Completed node_id nat nat
  | ProbeFailed node_id nat
  | Judge node_id "node_id list" nat
  | Poll "(bool \<times> node_id list) option" nat
  | Incapable node_id nat
  | Reset
  | Hedge nat

datatype judgement =
    Judged node_id nat verdict_kind verdict_detail
  | Forgot node_id
  | ForgotAll

record health_run_state =
  hr_health :: follower_health
  hr_log :: "judgement list"
  hr_swaps :: "nat list"

text \<open>A poll of the watch judges every member it reaches before the one it evicts.\<close>

fun poll_log :: "eviction_policy \<Rightarrow> node_id list \<Rightarrow> nat \<Rightarrow> node_id list \<Rightarrow> follower_health \<Rightarrow> judgement list \<Rightarrow> judgement list" where
  "poll_log policy members now [] f log = log"
| "poll_log policy members now (m # ms) f log =
     (let (f', v, d) = verdict_detailed policy m members now f in
      if v = Evict then Forgot m # Judged m now v d # log
      else poll_log policy members now ms f' (Judged m now v d # log))"

definition health_step :: "eviction_policy \<Rightarrow> health_run_state \<Rightarrow> health_op \<Rightarrow> health_run_state" where
  "health_step policy r op =
     (let f = hr_health r; log = hr_log r in
      case op of
        Started m now \<Rightarrow> r\<lparr>hr_health := append_started m now f\<rparr>
      | Completed m now latency \<Rightarrow> r\<lparr>hr_health := append_completed m now latency f\<rparr>
      | ProbeFailed m now \<Rightarrow> r\<lparr>hr_health := fst (probe_failed m now f)\<rparr>
      | Judge m siblings now \<Rightarrow>
          (let (f', v, d) = verdict_detailed policy m siblings now f in
           r\<lparr>hr_health := f', hr_log := Judged m now v d # log\<rparr>)
      | Poll shipper now \<Rightarrow>
          (let (f', outcome) = evict_gray_followers policy shipper now f in
           r\<lparr>hr_health := f',
             hr_log := (case shipper of
                          Some (True, members) \<Rightarrow>
                            if correlated_stall policy members now f \<or> \<not> swap_allowed policy now f then log
                            else poll_log policy members now members f log
                        | _ \<Rightarrow> log),
             hr_swaps := (case outcome of GrayEvicted _ \<Rightarrow> now # hr_swaps r | _ \<Rightarrow> hr_swaps r)\<rparr>)
      | Incapable m now \<Rightarrow> r\<lparr>hr_health := append_incapable policy m now f, hr_log := Forgot m # log\<rparr>
      | Reset \<Rightarrow> r\<lparr>hr_health := health_reset f, hr_log := ForgotAll # log\<rparr>
      | Hedge now \<Rightarrow> r\<lparr>hr_health := fst (hedge_deadline_ms policy now f)\<rparr>)"

definition health_run :: "eviction_policy \<Rightarrow> health_op list \<Rightarrow> health_run_state" where
  "health_run policy ops =
     run_steps (health_step policy) \<lparr>hr_health = follower_health_default, hr_log = [], hr_swaps = []\<rparr> ops"

text \<open>
  In a log, newest judgement first: the median of \<open>m\<close> was found over its threshold at time \<open>t\<close>, and since then no
  judgement that had a median found it healthy and the tracker did not forget the member.
\<close>

fun over_since :: "node_id \<Rightarrow> nat \<Rightarrow> judgement list \<Rightarrow> bool" where
  "over_since m t [] \<longleftrightarrow> False"
| "over_since m t (Judged k now v d # log) \<longleftrightarrow>
     (if k = m
      then (v \<noteq> Healthy \<and> (\<exists>x. vd_own_median_ms d = Some x \<and> vd_threshold_ms d < x) \<and> now = t)
           \<or> ((v \<noteq> Healthy \<or> vd_own_median_ms d = None) \<and> over_since m t log)
      else over_since m t log)"
| "over_since m t (Forgot k # log) \<longleftrightarrow> k \<noteq> m \<and> over_since m t log"
| "over_since m t (ForgotAll # log) \<longleftrightarrow> False"

definition clocks_logged :: "follower_health \<Rightarrow> judgement list \<Rightarrow> bool" where
  "clocks_logged f log \<longleftrightarrow>
     (\<forall>m h t. bm_get (fh_members f) m = Some h \<and> mh_suspect_since h = Some t \<longrightarrow> over_since m t log)"

definition swaps_spaced :: "eviction_policy \<Rightarrow> health_run_state \<Rightarrow> bool" where
  "swaps_spaced policy r \<longleftrightarrow>
     successively (\<lambda>later earlier. min_swap_interval_ms policy \<le> later - earlier) (hr_swaps r)
     \<and> fh_last_swap_ms (hr_health r) = (case hr_swaps r of [] \<Rightarrow> None | t # _ \<Rightarrow> Some t)"

text \<open>The appends of any members that complete one after the other, as member, time and latency.\<close>

definition appends_observed :: "(node_id \<times> nat \<times> nat) list \<Rightarrow> follower_health \<Rightarrow> follower_health" where
  "appends_observed ops f = fold (\<lambda>(m, at, latency). append_completed m at latency) ops f"

definition appends_of :: "node_id \<Rightarrow> (node_id \<times> nat \<times> nat) list \<Rightarrow> (nat \<times> nat) list" where
  "appends_of m ops = map snd (filter (\<lambda>op. fst op = m) ops)"

section \<open>The suspect clock\<close>

lemma prune_suspect [simp]: "mh_suspect_since (prune now w h) = mh_suspect_since h"
  by (simp add: prune_def)

lemma sibling_medians_clock:
  "map_option mh_suspect_since (bm_get (fh_members (fst (sibling_medians policy m now siblings f))) k)
     = map_option mh_suspect_since (bm_get (fh_members f) k)"
  by (induction siblings arbitrary: f) (auto simp: bm_get_insert Let_def case_prod_beta split: option.splits)

lemma sibling_medians_swap: "fh_last_swap_ms (fst (sibling_medians policy m now siblings f)) = fh_last_swap_ms f"
  "fh_quarantined_until (fst (sibling_medians policy m now siblings f)) = fh_quarantined_until f"
  by (induction siblings arbitrary: f) (auto simp: Let_def case_prod_beta split: option.splits)

lemma judge_window_clock:
  assumes "judge_window policy m siblings now med d0 h0 = (h, v, d)" "mh_suspect_since h = Some t"
    "mh_suspect_since h0 = Some t \<Longrightarrow> over_since m t log" "vd_own_median_ms d0 = None"
  shows "over_since m t (Judged m now v d # log)"
  using assms by (auto simp: judge_window_def Let_def split: option.splits if_splits)

lemma judge_window_sustain:
  assumes "judge_window policy m siblings now med d0 h0 = (h, Evict, d)"
  shows "\<exists>t median. mh_suspect_since h = Some t \<and> sustain_ms policy \<le> now - t \<and> min_samples policy \<le> vd_samples d
    \<and> vd_own_median_ms d = Some median \<and> vd_threshold_ms d < median"
  using assms by (auto simp: judge_window_def Let_def split: option.splits if_splits)

lemma clocks_logged_same:
  assumes "clocks_logged f log"
    "\<And>k h t. bm_get (fh_members f') k = Some h \<Longrightarrow> mh_suspect_since h = Some t \<Longrightarrow>
       \<exists>h'. bm_get (fh_members f) k = Some h' \<and> mh_suspect_since h' = Some t"
  shows "clocks_logged f' log"
  using assms unfolding clocks_logged_def by blast

lemma verdict_clock:
  assumes "clocks_logged f0 log" "verdict_detailed policy m siblings now f0 = (f', v, d)"
  shows "clocks_logged f' (Judged m now v d # log)"
proof -
  obtain f med where s: "sibling_medians policy m now siblings f0 = (f, med)" by fastforce
  have clock: "over_since k t log" if "bm_get (fh_members f) k = Some h" "mh_suspect_since h = Some t" for k h t
    using assms(1) that sibling_medians_clock [of policy m now siblings f0 k] s
    by (cases "bm_get (fh_members f0) k") (auto simp: clocks_logged_def)
  show ?thesis
  proof (cases "bm_get (fh_members f) m")
    case None
    then show ?thesis using assms(2) s clock by (auto simp: verdict_detailed_def clocks_logged_def verdict_detail_default_def)
  next
    case (Some h)
    let ?out = "case mh_outstanding_since h of None \<Rightarrow> 0 | Some since \<Rightarrow> now - since"
    let ?d = "verdict_detail_default\<lparr>vd_sibling_median_ms := med, vd_outstanding_ms := ?out\<rparr>"
    obtain h' w d' where j: "judge_window policy m siblings now med ?d h = (h', w, d')" by (metis prod_cases3)
    show ?thesis
    proof (cases "mh_outstanding_since h \<noteq> None \<and> backstop_ms policy \<le> ?out")
      case True
      then show ?thesis using assms(2) s Some clock by (auto simp: verdict_detailed_def Let_def clocks_logged_def)
    next
      case False
      then have f': "f' = f\<lparr>fh_members := bm_insert m h' (fh_members f)\<rparr>" "v = w" "d = d'"
        using assms(2) s Some j by (auto simp: verdict_detailed_def Let_def)
      show ?thesis
        using judge_window_clock [OF j, of _ log] clock [OF Some] clock
        by (auto simp: f' clocks_logged_def bm_get_insert verdict_detail_default_def)
    qed
  qed
qed

lemma sibling_medians_own:
  "bm_get (fh_members (fst (sibling_medians policy m now siblings f))) m = bm_get (fh_members f) m"
  by (induction siblings arbitrary: f) (auto simp: bm_get_insert Let_def case_prod_beta split: option.splits)

lemma verdict_of_quiet_member:
  assumes "bm_get (fh_members f) m = Some h" "mh_outstanding_since h = None"
    and "judge_window policy m siblings now (snd (sibling_medians policy m now siblings f))
      (verdict_detail_default\<lparr>vd_sibling_median_ms := snd (sibling_medians policy m now siblings f), vd_outstanding_ms := 0\<rparr>) h
      = (h', v, d)"
  shows "snd (verdict_detailed policy m siblings now f) = (v, d)
    \<and> bm_get (fh_members (fst (verdict_detailed policy m siblings now f))) m = Some h'"
  using assms sibling_medians_own [of policy m now siblings f]
  by (simp add: verdict_detailed_def case_prod_beta Let_def bm_get_insert)

lemma judge_silent:
  assumes "\<forall>(at, latency)\<in>set (mh_samples h). sat_add at (window_ms policy) < now"
  shows "judge_window policy m siblings now med d h = (h\<lparr>mh_samples := []\<rparr>, Healthy, d\<lparr>vd_samples := 0\<rparr>)"
proof -
  have "dropWhile (\<lambda>(at, _). sat_add at (window_ms policy) < now) (mh_samples h) = []" using assms by auto
  then show ?thesis by (simp add: judge_window_def prune_def median_ms_def)
qed

lemma judge_slow:
  assumes "mh_suspect_since h = Some since" "sustain_ms policy \<le> now - since"
    and "mh_samples h \<noteq> []" "min_samples policy \<le> length (mh_samples h)" "med \<noteq> None \<or> list_all (\<lambda>s. s = m) siblings"
    and slow: "\<forall>(at, latency)\<in>set (mh_samples h). now \<le> sat_add at (window_ms policy) \<and> judge_threshold policy med < latency"
  shows "\<exists>h' d'. judge_window policy m siblings now med d h = (h', Evict, d') \<and> vd_suspect_ms d' = now - since"
proof -
  have p: "prune now (window_ms policy) h = h"
    using assms(3) slow by (cases "mh_samples h") (auto simp: prune_def)
  let ?sorted = "sort (map snd (mh_samples h))"
  have "?sorted ! (length ?sorted div 2) \<in> set ?sorted" using assms(3) by (intro nth_mem) simp
  then have "judge_threshold policy med < ?sorted ! (length ?sorted div 2)" using slow by auto
  then show ?thesis
    using assms(1-5) by (auto simp: judge_window_def p median_ms_def Let_def list_all_iff list_ex_iff)
qed

lemma appends_observed_member:
  assumes "bm_get (fh_members f) m = Some h" "mh_outstanding_since h = None"
  shows "\<exists>h'. bm_get (fh_members (appends_observed ops f)) m = Some h' \<and> mh_outstanding_since h' = None
    \<and> mh_suspect_since h' = mh_suspect_since h \<and> mh_samples h' = mh_samples h @ appends_of m ops"
  using assms
proof (induction ops arbitrary: f h)
  case (Cons op ops)
  obtain k at latency where op: "op = (k, at, latency)" by (metis prod_cases3)
  define h1 where "h1 = (if k = m then h\<lparr>mh_outstanding_since := None, mh_samples := mh_samples h @ [(at, latency)], mh_probe_failures := 0\<rparr> else h)"
  have "bm_get (fh_members (append_completed k at latency f)) m = Some h1" "mh_outstanding_since h1 = None"
    using Cons.prems by (auto simp: append_completed_def h1_def bm_get_insert entry_or_default_def Let_def)
  from Cons.IH [OF this] show ?case by (auto simp: op appends_observed_def appends_of_def h1_def)
qed (simp add: appends_observed_def appends_of_def)

lemma verdict_swap:
  assumes "verdict_detailed policy m siblings now f = (f', v, d)"
  shows "fh_last_swap_ms f' = fh_last_swap_ms f \<and> fh_quarantined_until f' = fh_quarantined_until f"
  using assms sibling_medians_swap [of policy m now siblings f]
  by (auto simp: verdict_detailed_def Let_def case_prod_beta split: option.splits if_splits)

lemma forget_clock: "clocks_logged f log \<Longrightarrow> clocks_logged (f\<lparr>fh_members := bm_remove m (fh_members f)\<rparr>) (Forgot m # log)"
  by (auto simp: clocks_logged_def bm_get_remove split: if_splits)

lemma evict_first_clock:
  "clocks_logged f log \<Longrightarrow> clocks_logged (fst (evict_first policy members now ms f)) (poll_log policy members now ms f log)"
proof (induction ms arbitrary: f log)
  case (Cons m ms)
  obtain f1 v d where v: "verdict_detailed policy m members now f = (f1, v, d)" by (metis prod_cases3)
  obtain f2 v2 d2 where v2: "verdict_detailed policy m members now f1 = (f2, v2, d2)" by (metis prod_cases3)
  have c: "clocks_logged f1 (Judged m now v d # log)" using verdict_clock [OF Cons.prems v] .
  show ?case
  proof (cases "v = Evict")
    case True
    have "clocks_logged (health_evicted policy m now f2) (Forgot m # Judged m now v d # log)"
      using verdict_clock [OF c v2] by (auto simp: clocks_logged_def health_evicted_def bm_get_remove split: if_splits)
    then show ?thesis using True v v2 by (simp add: verdict_def)
  next
    case False
    then show ?thesis using Cons.IH [OF c] v by (simp add: verdict_def)
  qed
qed simp

lemma evict_first_swap:
  assumes "evict_first policy members now ms f = (f', outcome)"
  shows "outcome \<noteq> CorrelatedStall \<and> fh_quarantined_until f' = fh_quarantined_until f
    \<and> fh_last_swap_ms f' = (case outcome of GrayEvicted _ \<Rightarrow> Some now | _ \<Rightarrow> fh_last_swap_ms f)"
  using assms
proof (induction ms arbitrary: f)
  case (Cons m ms)
  obtain f1 v d where v: "verdict_detailed policy m members now f = (f1, v, d)" by (metis prod_cases3)
  obtain f2 v2 d2 where v2: "verdict_detailed policy m members now f1 = (f2, v2, d2)" by (metis prod_cases3)
  show ?case
  proof (cases "v = Evict")
    case True
    then show ?thesis
      using Cons.prems v v2 verdict_swap [OF v] verdict_swap [OF v2] by (auto simp: verdict_def health_evicted_def)
  next
    case False
    then show ?thesis
      using Cons.IH [of f1] Cons.prems v verdict_swap [OF v] by (auto simp: verdict_def split: gray_outcome.split)
  qed
qed auto

lemma entry_clock:
  assumes "clocks_logged f log" "mh_suspect_since h = mh_suspect_since (entry_or_default f m)"
  shows "clocks_logged (f\<lparr>fh_members := bm_insert m h (fh_members f)\<rparr>) log"
proof (rule clocks_logged_same [OF assms(1)])
  fix k h' t
  assume "bm_get (fh_members (f\<lparr>fh_members := bm_insert m h (fh_members f)\<rparr>)) k = Some h'" "mh_suspect_since h' = Some t"
  then show "\<exists>h'. bm_get (fh_members f) k = Some h' \<and> mh_suspect_since h' = Some t"
    using assms(2) by (auto simp: bm_get_insert entry_or_default_def member_health_default_def split: if_splits option.splits)
qed

lemma bm_get_map_values: "bm_get (map (\<lambda>(m, h). (m, g h)) xs) k = map_option g (bm_get xs k)"
  by (induction xs) auto

lemma hedge_clock:
  assumes "clocks_logged f log"
  shows "clocks_logged (fst (hedge_deadline_ms policy now f)) log"
proof (rule clocks_logged_same [OF assms])
  fix k h t
  assume "bm_get (fh_members (fst (hedge_deadline_ms policy now f))) k = Some h" "mh_suspect_since h = Some t"
  then show "\<exists>h'. bm_get (fh_members f) k = Some h' \<and> mh_suspect_since h' = Some t"
    by (auto simp: hedge_deadline_ms_def Let_def bm_get_map_values)
qed

lemma health_step_clock:
  assumes "clocks_logged (hr_health r) (hr_log r)"
  shows "clocks_logged (hr_health (health_step policy r op)) (hr_log (health_step policy r op))"
proof (cases op)
  case (Judge m siblings now)
  obtain f1 v d where v: "verdict_detailed policy m siblings now (hr_health r) = (f1, v, d)" by (metis prod_cases3)
  show ?thesis using verdict_clock [OF assms v] by (simp add: health_step_def Judge v)
next
  case (Poll shipper now)
  then show ?thesis
    using assms evict_first_clock [OF assms, of policy _ now]
    by (auto simp: health_step_def evict_gray_followers_def Let_def case_prod_beta split: option.split bool.split)
next
  case (Incapable m now)
  then show ?thesis using forget_clock [OF assms, of m]
    by (simp add: health_step_def append_incapable_def clocks_logged_def Let_def)
qed (use assms hedge_clock [OF assms] in \<open>auto simp: health_step_def Let_def append_started_def append_completed_def probe_failed_def
    health_reset_def intro!: entry_clock, simp add: clocks_logged_def\<close>)

lemma health_step_swaps:
  assumes "swaps_spaced policy r"
  shows "swaps_spaced policy (health_step policy r op)"
proof (cases op)
  case (Judge m siblings now)
  obtain f1 v d where v: "verdict_detailed policy m siblings now (hr_health r) = (f1, v, d)" by (metis prod_cases3)
  show ?thesis using assms verdict_swap [OF v] by (simp add: health_step_def Judge v swaps_spaced_def)
next
  case (Poll shipper now)
  obtain f' outcome where e: "evict_gray_followers policy shipper now (hr_health r) = (f', outcome)" by fastforce
  have "(outcome \<in> {NoAction, CorrelatedStall} \<and> fh_last_swap_ms f' = fh_last_swap_ms (hr_health r))
      \<or> (\<exists>m. outcome = GrayEvicted m \<and> fh_last_swap_ms f' = Some now \<and> swap_allowed policy now (hr_health r))"
    using e evict_first_swap [of policy _ now _ "hr_health r" f' outcome]
    by (cases outcome) (auto simp: evict_gray_followers_def split: option.splits prod.splits if_splits)
  then show ?thesis
    using assms e
    by (auto simp: health_step_def Poll swaps_spaced_def Let_def swap_allowed_def split: list.splits option.splits)
qed (use assms in \<open>auto simp: health_step_def Let_def append_started_def append_completed_def probe_failed_def append_incapable_def
    health_reset_def hedge_deadline_ms_def swaps_spaced_def\<close>)

text \<open>Both invariants of a step lift to runs through the contract of a machine.\<close>

interpretation tracker: step_machine "health_step policy" "\<lambda>r. clocks_logged (hr_health r) (hr_log r) \<and> swaps_spaced policy r"
  for policy
  by unfold_locales (simp add: health_step_clock health_step_swaps)

lemma health_run_inv:
  "clocks_logged (hr_health (health_run policy ops)) (hr_log (health_run policy ops))" "swaps_spaced policy (health_run policy ops)"
  using tracker.run_inv [of "\<lparr>hr_health = follower_health_default, hr_log = [], hr_swaps = []\<rparr>" policy ops]
  by (simp_all add: health_run_def clocks_logged_def [of follower_health_default] follower_health_default_def
      swaps_spaced_def [of policy "\<lparr>hr_health = \<lparr>fh_members = [], fh_quarantined_until = [], fh_last_swap_ms = None\<rparr>, hr_log = [], hr_swaps = []\<rparr>"]
      clocks_logged_def [of "\<lparr>fh_members = [], fh_quarantined_until = [], fh_last_swap_ms = None\<rparr>"])

lemma verdict_sustain:
  assumes "verdict_detailed policy m siblings now f = (f', Evict, d)" "vd_rule d \<noteq> ''backstop''"
  shows "\<exists>h t median. bm_get (fh_members f') m = Some h \<and> mh_suspect_since h = Some t \<and> sustain_ms policy \<le> now - t
    \<and> min_samples policy \<le> vd_samples d \<and> vd_own_median_ms d = Some median \<and> vd_threshold_ms d < median"
  using assms judge_window_sustain
  by (auto simp: verdict_detailed_def Let_def bm_get_insert split: prod.splits option.splits if_splits)

section \<open>Properties\<close>

text \<open>
  C31. An eviction for slowness has a history. When a judgement along any run evicts a follower by the sustain rule,
  its window holds at least \<open>min_samples\<close> samples whose median is over the threshold, and at least \<open>sustain_ms\<close>
  earlier a judgement already found it over its threshold, with no judgement of a median in between that found it
  healthy and no reset of the ensemble.
\<close>

theorem slow_follower_was_slow_for_long:
  assumes "r = health_run policy ops" "verdict_detailed policy m siblings now (hr_health r) = (f', Evict, d)" "vd_rule d \<noteq> ''backstop''"
  shows "min_samples policy \<le> vd_samples d
    \<and> (\<exists>median. vd_own_median_ms d = Some median \<and> vd_threshold_ms d < median)
    \<and> (\<exists>t. sustain_ms policy \<le> now - t \<and> over_since m t (Judged m now Evict d # hr_log r))"
  using verdict_sustain [OF assms(2,3)] verdict_clock [OF health_run_inv(1) assms(2) [unfolded assms(1)]] assms(1)
  unfolding clocks_logged_def by blast

theorem slow_follower_was_slow_for_long_witness:
  "let ops = concat (map (\<lambda>_. [Completed ''a'' 10 100, Completed ''b'' 10 1]) [0..<5]) @ [Judge ''a'' [''a'', ''b''] 10];
       r = health_run eviction_policy_default ops;
       (f, v, d) = verdict_detailed eviction_policy_default ''a'' [''a'', ''b''] 2010 (hr_health r) in
   v = Evict \<and> (\<exists>t. sustain_ms eviction_policy_default \<le> 2010 - t \<and> over_since ''a'' t (Judged ''a'' 2010 Evict d # hr_log r))"
proof -
  let ?ops = "concat (map (\<lambda>_. [Completed ''a'' 10 100, Completed ''b'' 10 1]) [0..<5]) @ [Judge ''a'' [''a'', ''b''] 10]"
  let ?r = "health_run eviction_policy_default ?ops"
  let ?v = "verdict_detailed eviction_policy_default ''a'' [''a'', ''b''] 2010 (hr_health ?r)"
  have e: "fst (snd ?v) = Evict" "vd_rule (snd (snd ?v)) = ''sustain''" by code_simp+
  then have v: "?v = (fst ?v, Evict, snd (snd ?v))" by (metis prod.collapse)
  have "vd_rule (snd (snd ?v)) \<noteq> ''backstop''" unfolding e(2) by simp
  from slow_follower_was_slow_for_long [OF refl v this] show ?thesis using e(1) unfolding Let_def case_prod_beta by blast
qed

text \<open>
  C32. The ensemble cannot flap: along every run the swaps for gray followers are at least \<open>min_swap_interval_ms\<close>
  apart.
\<close>

theorem gray_swaps_are_spaced:
  "successively (\<lambda>later earlier. min_swap_interval_ms policy \<le> later - earlier) (hr_swaps (health_run policy ops))"
  using health_run_inv(2) [of policy ops] by (simp add: swaps_spaced_def)

text \<open>
  The cheap remedy comes first: whatever the policy and the latencies, the hedge deadline is strictly below the
  backstop that evicts.
\<close>

lemma hedge_before_backstop:
  assumes "0 < backstop_ms policy"
  shows "snd (hedge_deadline_ms policy now f) < backstop_ms policy"
proof -
  have "sat_mul (backstop_ms policy div 3) 2 \<le> backstop_ms policy div 3 * 2" by (simp add: sat_mul_def)
  also have "\<dots> < backstop_ms policy" using assms by presburger
  finally show ?thesis by (simp add: hedge_deadline_ms_def Let_def min.strict_coboundedI2)
qed

lemma hedge_before_backstop_witness:
  "0 < backstop_ms eviction_policy_default
     \<and> snd (hedge_deadline_ms eviction_policy_default 9
         (append_completed ''a'' 8 5000 follower_health_default)) < backstop_ms eviction_policy_default"
proof -
  have "0 < backstop_ms eviction_policy_default" by (simp add: eviction_policy_default_def)
  then show ?thesis using hedge_before_backstop by blast
qed

text \<open>
  C33. The suspect clock is not stopped by silence, for any policy, follower and gap. Take a follower with no append in
  flight whose clock runs since \<open>since\<close> and whose samples all left the window by \<open>quiet\<close>. The judgement at \<open>quiet\<close>
  finds it healthy. Let any appends complete afterwards, and let those of the follower be enough for a judgement, be in
  the window at \<open>now\<close> and all be slower than the threshold, with a sibling to compare to or none to expect. Then the
  first judgement of the new episode, at \<open>now\<close>, evicts it as soon as \<open>sustain_ms\<close> passed since the old episode began:
  the silent time is charged to the follower.
\<close>

theorem silence_keeps_the_suspect_clock:
  assumes "f' = appends_observed ops (fst (verdict_detailed policy m siblings quiet f))"
    and "bm_get (fh_members f) m = Some h" "mh_outstanding_since h = None" "mh_suspect_since h = Some since"
    and "\<forall>(at, latency)\<in>set (mh_samples h). sat_add at (window_ms policy) < quiet"
    and "appends_of m ops \<noteq> []" "min_samples policy \<le> length (appends_of m ops)"
    and "\<forall>(at, latency)\<in>set (appends_of m ops). now \<le> sat_add at (window_ms policy)
      \<and> judge_threshold policy (snd (sibling_medians policy m now siblings f')) < latency"
    and "snd (sibling_medians policy m now siblings f') \<noteq> None \<or> list_all (\<lambda>s. s = m) siblings"
    and "sustain_ms policy \<le> now - since"
  shows "fst (snd (verdict_detailed policy m siblings quiet f)) = Healthy
    \<and> fst (snd (verdict_detailed policy m siblings now f')) = Evict
    \<and> vd_suspect_ms (snd (snd (verdict_detailed policy m siblings now f'))) = now - since"
proof -
  let ?h = "h\<lparr>mh_samples := []\<rparr>"
  have quiet: "fst (snd (verdict_detailed policy m siblings quiet f)) = Healthy"
    "bm_get (fh_members (fst (verdict_detailed policy m siblings quiet f))) m = Some ?h"
    using verdict_of_quiet_member [OF assms(2,3) judge_silent [OF assms(5)]] by simp_all
  obtain h' where h': "bm_get (fh_members f') m = Some h'" "mh_outstanding_since h' = None"
    "mh_suspect_since h' = Some since" "mh_samples h' = appends_of m ops"
    using appends_observed_member [OF quiet(2), of ops] assms(3,4) by (auto simp: assms(1))
  obtain h'' d where "judge_window policy m siblings now (snd (sibling_medians policy m now siblings f'))
      (verdict_detail_default\<lparr>vd_sibling_median_ms := snd (sibling_medians policy m now siblings f'), vd_outstanding_ms := 0\<rparr>) h'
      = (h'', Evict, d)" "vd_suspect_ms d = now - since"
    using judge_slow [OF h'(3) assms(10), of "snd (sibling_medians policy m now siblings f')" m siblings] assms(6-9)
    unfolding h'(4) by blast
  then show ?thesis using quiet(1) verdict_of_quiet_member [OF h'(1,2)] by simp
qed

theorem silence_keeps_the_suspect_clock_witness:
  "let f = hr_health (health_run eviction_policy_default
         (concat (map (\<lambda>_. [Completed ''a'' 10 100, Completed ''b'' 10 1]) [0..<5]) @ [Judge ''a'' [''a'', ''b''] 10]));
       f' = appends_observed (concat (map (\<lambda>_. [(''a'', 9500, 100), (''b'', 9500, 1)]) [0..<5]))
         (fst (verdict_detailed eviction_policy_default ''a'' [''a'', ''b''] 9000 f))
   in fst (snd (verdict_detailed eviction_policy_default ''a'' [''a'', ''b''] 9000 f)) = Healthy
     \<and> fst (snd (verdict_detailed eviction_policy_default ''a'' [''a'', ''b''] 9500 f')) = Evict
     \<and> vd_suspect_ms (snd (snd (verdict_detailed eviction_policy_default ''a'' [''a'', ''b''] 9500 f'))) = 9490"
proof -
  let ?p = eviction_policy_default
  let ?f = "hr_health (health_run ?p
    (concat (map (\<lambda>_. [Completed ''a'' 10 100, Completed ''b'' 10 1]) [0..<5]) @ [Judge ''a'' [''a'', ''b''] 10]))"
  let ?h = "the (bm_get (fh_members ?f) ''a'')"
  let ?ops = "concat (map (\<lambda>_. [(''a'', 9500, 100), (''b'', 9500, 1)]) [0..<5]) :: (node_id \<times> nat \<times> nat) list"
  let ?f' = "appends_observed ?ops (fst (verdict_detailed ?p ''a'' [''a'', ''b''] 9000 ?f))"
  have p1: "bm_get (fh_members ?f) ''a'' = Some ?h" by code_simp
  have p2: "mh_outstanding_since ?h = None" by code_simp
  have p3: "mh_suspect_since ?h = Some 10" by code_simp
  have p4: "\<forall>(at, latency)\<in>set (mh_samples ?h). sat_add at (window_ms ?p) < 9000" by code_simp
  have p5: "appends_of ''a'' ?ops \<noteq> []" by code_simp
  have p6: "min_samples ?p \<le> length (appends_of ''a'' ?ops)" by code_simp
  have p7: "\<forall>(at, latency)\<in>set (appends_of ''a'' ?ops). 9500 \<le> sat_add at (window_ms ?p)
      \<and> judge_threshold ?p (snd (sibling_medians ?p ''a'' 9500 [''a'', ''b''] ?f')) < latency" by code_simp
  have p8: "snd (sibling_medians ?p ''a'' 9500 [''a'', ''b''] ?f') \<noteq> None" by code_simp
  have p9: "sustain_ms ?p \<le> 9500 - 10" by code_simp
  show ?thesis
    unfolding Let_def
    using silence_keeps_the_suspect_clock [OF refl p1 p2 p3 p4 p5 p6 p7 disjI1 [OF p8] p9] by simp
qed

end
