(* ===== verification/ExportOrder.thy ===== *)
theory ExportOrder
  imports Prelude "HOL-Library.Countable"
begin

text \<open>
  The order of WAL generations as the export state of a cell learns it: \<open>Order\<close> in \<open>crates/logic/export.rs\<close>.
  Salts carry no order, so \<open>earlier\<close> answers only from what the capture stream and the commit stream showed. The
  theory shows that it never answers wrongly: for every true order of the generations that the four lists of
  observations agree with, a generation reported earlier is earlier.

  The frontier of the search is a stack; its top is the head of the list.
\<close>

section \<open>Definitions\<close>

datatype wal_generation = WalGeneration nat nat

definition MAX_RETAINED_CAPTURES :: nat where
  "MAX_RETAINED_CAPTURES = 1024"

record wal_order =
  wo_captured :: "wal_generation list"
  wo_committed :: "wal_generation list"
  wo_before :: "(wal_generation \<times> wal_generation) list"
  wo_adjacent :: "(wal_generation \<times> wal_generation) list"

definition wal_order_default :: wal_order where
  "wal_order_default = \<lparr>wo_captured = [], wo_committed = [], wo_before = [], wo_adjacent = []\<rparr>"

definition push_distinct :: "wal_generation list \<Rightarrow> wal_generation \<Rightarrow> wal_generation list" where
  "push_distinct chain g =
     (if chain \<noteq> [] \<and> List.last chain = g then chain else filter (\<lambda>seen. seen \<noteq> g) chain @ [g])"

definition order_committed :: "wal_generation \<Rightarrow> wal_order \<Rightarrow> wal_order" where
  "order_committed g ord = ord\<lparr>wo_committed := push_distinct (wo_committed ord) g\<rparr>"

definition drop_oldest :: "'a list \<Rightarrow> 'a list" where
  "drop_oldest xs = (if MAX_RETAINED_CAPTURES < length xs then tl xs else xs)"

definition order_captured ::
  "wal_generation \<Rightarrow> wal_generation option \<Rightarrow> wal_generation option \<Rightarrow> wal_order \<Rightarrow> wal_order" where
  "order_captured g predecessor last_commit ord =
     (let cap = push_distinct (wo_captured ord) g;
          adjacent = wo_adjacent ord @ (case predecessor of None \<Rightarrow> [] | Some p \<Rightarrow> [(p, g)]);
          before = (case last_commit of
                      None \<Rightarrow> wo_before ord
                    | Some l \<Rightarrow> if l \<noteq> g \<and> (l, g) \<notin> set (wo_before ord) then wo_before ord @ [(l, g)] else wo_before ord) in
      \<lparr>wo_captured = drop_oldest cap, wo_committed = drop_oldest (wo_committed ord),
       wo_before = drop_oldest before, wo_adjacent = drop_oldest adjacent\<rparr>)"

definition behind_in :: "wal_generation list \<Rightarrow> wal_generation \<Rightarrow> wal_generation list" where
  "behind_in chain g = tl (dropWhile (\<lambda>seen. seen \<noteq> g) chain)"

text \<open>What one step of the search offers for generation \<open>g\<close>, in the order of the code.\<close>

definition offers :: "wal_order \<Rightarrow> wal_generation \<Rightarrow> wal_generation \<Rightarrow> wal_generation list" where
  "offers ord a g =
     behind_in (wo_captured ord) g @ behind_in (wo_committed ord) g
     @ map snd (filter (\<lambda>(e, _). e = g) (wo_before ord))
     @ (if g \<noteq> a then map fst (filter (\<lambda>(_, s). s = g) (wo_adjacent ord)) else [])"

definition found ::
  "wal_generation \<Rightarrow> wal_generation \<Rightarrow> wal_generation list \<times> wal_generation list \<Rightarrow> wal_generation list \<times> wal_generation list" where
  "found a candidate = (\<lambda>(later, frontier).
     if candidate \<noteq> a \<and> candidate \<notin> set later then (later @ [candidate], candidate # frontier) else (later, frontier))"

definition universe :: "wal_order \<Rightarrow> wal_generation set" where
  "universe ord = set (wo_captured ord) \<union> set (wo_committed ord) \<union> snd ` set (wo_before ord) \<union> fst ` set (wo_adjacent ord)"

lemma behind_in_subset: "set (behind_in chain g) \<subseteq> set chain"
proof -
  have "set (tl xs) \<subseteq> set xs" for xs :: "wal_generation list" by (cases xs) auto
  then show ?thesis by (auto simp: behind_in_def dest: set_dropWhileD)
qed

lemma offers_universe: "set (offers ord a g) \<subseteq> universe ord"
  using behind_in_subset [of "wo_captured ord" g] behind_in_subset [of "wo_committed ord" g]
  by (auto simp: offers_def universe_def image_iff split: if_splits) force+

lemma fold_found:
  assumes "set cs \<subseteq> U"
  shows "set (fst (fold (found a) cs (later, frontier))) \<subseteq> set later \<union> U
    \<and> set later \<subseteq> set (fst (fold (found a) cs (later, frontier)))
    \<and> (fold (found a) cs (later, frontier) = (later, frontier)
       \<or> (\<exists>c\<in>U. c \<notin> set later \<and> c \<in> set (fst (fold (found a) cs (later, frontier)))))"
  using assms
proof (induction cs arbitrary: later frontier)
  case (Cons c cs)
  show ?case
  proof (cases "c \<noteq> a \<and> c \<notin> set later")
    case True
    then show ?thesis using Cons.IH [of "later @ [c]" "c # frontier"] Cons.prems by (auto simp: found_def)
  next
    case False
    then show ?thesis using Cons.IH [of later frontier] Cons.prems by (auto simp: found_def)
  qed
qed simp

function after_loop :: "wal_order \<Rightarrow> wal_generation \<Rightarrow> wal_generation list \<Rightarrow> wal_generation list \<Rightarrow> wal_generation list" where
  "after_loop ord a later [] = later"
| "after_loop ord a later (g # frontier) =
     (let (later', frontier') = fold (found a) (offers ord a g) (later, frontier) in after_loop ord a later' frontier')"
  by pat_completeness auto
termination
proof (relation "measures [\<lambda>(ord, a, later, frontier). card (universe ord - set later), \<lambda>(ord, a, later, frontier). length frontier]", goal_cases)
  case (2 ord a later g frontier x later' frontier')
  have e: "fold (found a) (offers ord a g) (later, frontier) = (later', frontier')" using 2 by simp
  note f = fold_found [OF offers_universe [of ord a g], of a later frontier, unfolded e]
  have fin: "finite (universe ord - set later)" by (simp add: universe_def)
  show ?case
  proof (cases "(later', frontier') = (later, frontier)")
    case False
    then have "universe ord - set later' \<subset> universe ord - set later" using f by auto
    then show ?thesis using psubset_card_mono [OF fin] by simp
  qed simp
qed simp

definition after_generation :: "wal_order \<Rightarrow> wal_generation \<Rightarrow> wal_generation list" where
  "after_generation ord a = after_loop ord a [] [a]"

definition earlier :: "wal_order \<Rightarrow> wal_generation \<Rightarrow> wal_generation \<Rightarrow> bool" where
  "earlier ord a b \<longleftrightarrow>
     a \<noteq> b
     \<and> (let later = after_generation ord a in
        b \<in> set later
        \<or> (a \<notin> set (wo_captured ord) \<and> b \<in> set (wo_captured ord) \<and> list_ex (\<lambda>l. l \<in> set (wo_captured ord)) later))"

definition forget_before :: "wal_generation \<Rightarrow> wal_generation list \<Rightarrow> wal_order \<Rightarrow> wal_order" where
  "forget_before lowest keep ord =
     (let gone = filter (\<lambda>g. g \<notin> set keep \<and> earlier ord g lowest) (wo_captured ord @ wo_committed ord) in
      if gone = [] then ord
      else
        \<lparr>wo_captured = filter (\<lambda>g. g \<notin> set gone) (wo_captured ord),
         wo_committed = filter (\<lambda>g. g \<notin> set gone) (wo_committed ord),
         wo_before = filter (\<lambda>(a, b). a \<notin> set gone \<and> b \<notin> set gone) (wo_before ord),
         wo_adjacent = filter (\<lambda>(a, b). a \<notin> set gone \<and> b \<notin> set gone) (wo_adjacent ord)\<rparr>)"

subsection \<open>The true order\<close>

text \<open>
  \<open>pos\<close> places every generation in the true order of the WAL. The observations agree with it when the chains
  are increasing, the pairs are true, and a generation that is known from commits and that no capture read lies
  before every captured generation or after every one.
\<close>

definition known :: "wal_order \<Rightarrow> wal_generation set" where
  "known ord = set (wo_committed ord) \<union> fst ` set (wo_before ord)"

definition apart :: "(wal_generation \<Rightarrow> nat) \<Rightarrow> wal_generation set \<Rightarrow> wal_generation \<Rightarrow> bool" where
  "apart pos cs a \<longleftrightarrow> a \<in> cs \<or> (\<forall>c\<in>cs. pos a < pos c) \<or> (\<forall>c\<in>cs. pos c < pos a)"

definition agrees :: "(wal_generation \<Rightarrow> nat) \<Rightarrow> wal_order \<Rightarrow> bool" where
  "agrees pos ord \<longleftrightarrow>
     sorted_wrt (\<lambda>x y. pos x < pos y) (wo_captured ord) \<and> sorted_wrt (\<lambda>x y. pos x < pos y) (wo_committed ord)
     \<and> (\<forall>(a, b)\<in>set (wo_before ord). pos a < pos b) \<and> (\<forall>(p, s)\<in>set (wo_adjacent ord). pos s = Suc (pos p))
     \<and> (\<forall>a\<in>known ord. apart pos (set (wo_captured ord)) a)"

text \<open>
  The states the two streams can bring about while the capture loop keeps its promises: both streams visit
  generations in WAL order, a predecessor is adjacent, a commit that arrived before a capture was reported is not
  in a later generation, and no uncaptured generation lies between captured ones.
\<close>

inductive order_reachable :: "(wal_generation \<Rightarrow> nat) \<Rightarrow> wal_order \<Rightarrow> bool" for pos where
  start: "order_reachable pos wal_order_default"
| commit: "order_reachable pos ord \<Longrightarrow> \<forall>c\<in>set (wo_committed ord). pos c \<le> pos g \<Longrightarrow> apart pos (set (wo_captured ord)) g
    \<Longrightarrow> order_reachable pos (order_committed g ord)"
| capture: "order_reachable pos ord \<Longrightarrow> \<forall>c\<in>set (wo_captured ord). pos c \<le> pos g
    \<Longrightarrow> \<forall>p. predecessor = Some p \<longrightarrow> pos g = Suc (pos p)
    \<Longrightarrow> \<forall>l. last_commit = Some l \<longrightarrow> pos l \<le> pos g \<and> apart pos (set (wo_captured ord)) l
    \<Longrightarrow> \<forall>a\<in>known ord \<union> set_option last_commit. apart pos (insert g (set (wo_captured ord))) a
    \<Longrightarrow> order_reachable pos (order_captured g predecessor last_commit ord)"
| forget: "order_reachable pos ord \<Longrightarrow> order_reachable pos (forget_before lowest keep ord)"

text \<open>A concrete placement, for examples.\<close>

definition sample_pos :: "wal_generation \<Rightarrow> nat" where
  "sample_pos g = (case g of WalGeneration a b \<Rightarrow> prod_encode (a, b))"

section \<open>Chains\<close>

lemma behind_in_later:
  assumes "sorted_wrt (\<lambda>x y. pos x < (pos y :: nat)) chain" "b \<in> set (behind_in chain g)"
  shows "pos g < pos b \<and> g \<in> set chain"
proof -
  let ?d = "dropWhile (\<lambda>seen. seen \<noteq> g) chain"
  obtain x rest where d: "?d = x # rest"
  proof (cases ?d)
    case Nil
    then have "behind_in chain g = tl []" unfolding behind_in_def by (rule arg_cong)
    then show ?thesis using assms(2) by simp
  qed
  have "x = g" using hd_dropWhile [of "\<lambda>seen. seen \<noteq> g" chain] unfolding d by simp
  with d have r: "?d = g # rest" by simp
  have "sorted_wrt (\<lambda>x y. pos x < pos y) (g # rest)"
    using assms(1) r by (metis sorted_wrt_append takeWhile_dropWhile_id)
  moreover have "b \<in> set rest" using assms(2) unfolding behind_in_def r by simp
  moreover have "g \<in> set chain" using r by (metis list.set_intros(1) set_dropWhileD)
  ultimately show ?thesis by simp
qed

lemma push_distinct_sorted:
  assumes "sorted_wrt (\<lambda>x y. pos x < (pos y :: nat)) chain" "\<forall>c\<in>set chain. pos c \<le> pos g" "inj pos"
  shows "sorted_wrt (\<lambda>x y. pos x < pos y) (push_distinct chain g)"
proof -
  have "pos c < pos g" if "c \<in> set chain" "c \<noteq> g" for c
    using assms(2,3) that by (metis injD le_neq_implies_less)
  then show ?thesis using assms(1) by (auto simp: push_distinct_def sorted_wrt_append sorted_wrt_filter)
qed

lemma set_push_distinct [simp]: "set (push_distinct chain g) = insert g (set chain)"
  by (auto simp: push_distinct_def)

lemma drop_oldest_sublist: "set (drop_oldest xs) \<subseteq> set xs" "sorted_wrt R xs \<Longrightarrow> sorted_wrt R (drop_oldest xs)"
  by (cases xs; auto simp: drop_oldest_def)+

section \<open>Soundness\<close>

lemma offers_later:
  assumes "agrees pos ord" "inj pos" "g = a \<or> pos a < pos g" "c \<in> set (offers ord a g)" "c \<noteq> a"
  shows "pos a < pos c"
proof -
  have le: "pos a \<le> pos g" using assms(3) by auto
  have sorted: "sorted_wrt (\<lambda>x y. pos x < pos y) (wo_captured ord)" "sorted_wrt (\<lambda>x y. pos x < pos y) (wo_committed ord)"
    using assms(1) by (simp_all add: agrees_def)
  consider "c \<in> set (behind_in (wo_captured ord) g) \<union> set (behind_in (wo_committed ord) g)"
    | "(g, c) \<in> set (wo_before ord)" | "g \<noteq> a" "(c, g) \<in> set (wo_adjacent ord)"
    using assms(4) by (auto simp: offers_def split: if_splits)
  then show ?thesis
  proof cases
    case 1
    then have "pos g < pos c" using behind_in_later [OF sorted(1)] behind_in_later [OF sorted(2)] by blast
    then show ?thesis using le by simp
  next
    case 2
    then have "pos g < pos c" using assms(1) by (auto simp: agrees_def)
    then show ?thesis using le by simp
  next
    case 3
    then have "pos g = Suc (pos c)" using assms(1) by (auto simp: agrees_def)
    then have "pos a \<le> pos c" using 3 assms(3) by auto
    moreover have "pos a \<noteq> pos c" using assms(2,5) by (metis injD)
    ultimately show ?thesis by simp
  qed
qed

lemma fold_found_later:
  "\<forall>c\<in>set cs. c \<noteq> a \<longrightarrow> Q c \<Longrightarrow> \<forall>c\<in>set later. Q c \<Longrightarrow> \<forall>c\<in>set frontier. Q c \<or> c = a \<Longrightarrow>
     (\<forall>c\<in>set (fst (fold (found a) cs (later, frontier))). Q c)
     \<and> (\<forall>c\<in>set (snd (fold (found a) cs (later, frontier))). Q c \<or> c = a)"
proof (induction cs arbitrary: later frontier)
  case (Cons c cs)
  show ?case
  proof (cases "c \<noteq> a \<and> c \<notin> set later")
    case True
    then show ?thesis using Cons.IH [of "later @ [c]" "c # frontier"] Cons.prems by (auto simp: found_def)
  next
    case False
    then show ?thesis using Cons.IH [of later frontier] Cons.prems by (auto simp: found_def)
  qed
qed simp

lemma after_loop_later:
  assumes "agrees pos ord" "inj pos"
  shows "\<forall>c\<in>set later. pos a < pos c \<Longrightarrow> \<forall>c\<in>set frontier. pos a < pos c \<or> c = a \<Longrightarrow> b \<in> set (after_loop ord a later frontier) \<Longrightarrow> pos a < pos b"
  using assms
proof (induction ord a later frontier rule: after_loop.induct)
  case (2 ord a later g frontier)
  obtain later' frontier' where f: "fold (found a) (offers ord a g) (later, frontier) = (later', frontier')" by fastforce
  have "\<forall>c\<in>set (offers ord a g). c \<noteq> a \<longrightarrow> pos a < pos c"
    using offers_later [OF 2(5,6)] 2(3) by auto
  then have "(\<forall>c\<in>set later'. pos a < pos c) \<and> (\<forall>c\<in>set frontier'. pos a < pos c \<or> c = a)"
    using fold_found_later [of "offers ord a g" a "\<lambda>c. pos a < pos c" later frontier] 2(2,3) f by simp
  then show ?case using 2(1) [OF f [symmetric] refl] 2(4-6) f by simp
qed simp

lemma after_loop_grows: "set later \<subseteq> set (after_loop ord a later frontier)"
proof (induction ord a later frontier rule: after_loop.induct)
  case (2 ord a later g frontier)
  obtain later' frontier' where f: "fold (found a) (offers ord a g) (later, frontier) = (later', frontier')" by fastforce
  have "set later \<subseteq> set later'" using fold_found [OF offers_universe [of ord a g], of a later frontier] f by simp
  then show ?case using 2 [OF f [symmetric] refl] f by auto
qed simp

text \<open>A generation the observations do not mention is followed by nothing.\<close>

lemma after_generation_known:
  assumes "b \<in> set (after_generation ord a)"
  shows "a \<in> set (wo_captured ord) \<union> known ord"
proof (rule ccontr)
  assume a: "\<not> ?thesis"
  have none: "behind_in chain a = []" if "a \<notin> set chain" for chain
    using that by (simp add: behind_in_def) (metis (mono_tags) dropWhile_eq_Nil_conv tl_Nil)
  have "offers ord a a = []" using a none by (force simp: offers_def known_def filter_empty_conv)
  then show False using assms by (simp add: after_generation_def)
qed

lemma earlier_sound:
  assumes "agrees pos ord" "inj pos" "earlier ord a b"
  shows "pos a < pos b"
proof -
  have later: "pos a < pos c" if "c \<in> set (after_generation ord a)" for c
    using after_loop_later [OF assms(1,2), of "[]" a "[a]" c] that by (simp add: after_generation_def)
  consider "b \<in> set (after_generation ord a)"
    | c where "a \<notin> set (wo_captured ord)" "b \<in> set (wo_captured ord)" "c \<in> set (after_generation ord a)" "c \<in> set (wo_captured ord)"
    using assms(3) by (auto simp: earlier_def Let_def list_ex_iff)
  then show ?thesis
  proof cases
    case (2 c)
    have "apart pos (set (wo_captured ord)) a"
      using after_generation_known [OF 2(3)] 2(1) assms(1) by (auto simp: agrees_def)
    then show ?thesis using 2 later [OF 2(3)] by (auto simp: apart_def)
  qed (rule later)
qed

lemma apart_subset: "apart pos cs a \<Longrightarrow> cs' \<subseteq> cs \<Longrightarrow> (a \<in> cs \<Longrightarrow> a \<in> cs' \<or> (\<forall>c\<in>cs'. pos a < pos c)) \<Longrightarrow> apart pos cs' a"
  by (auto simp: apart_def)

lemma committed_agrees:
  assumes "agrees pos ord" "inj pos" "\<forall>c\<in>set (wo_committed ord). pos c \<le> pos g" "apart pos (set (wo_captured ord)) g"
  shows "agrees pos (order_committed g ord)"
  using assms push_distinct_sorted [of pos "wo_committed ord" g]
  by (auto simp: agrees_def order_committed_def known_def)

lemma captured_agrees:
  assumes "agrees pos ord" "inj pos" "\<forall>c\<in>set (wo_captured ord). pos c \<le> pos g"
    "\<forall>p. predecessor = Some p \<longrightarrow> pos g = Suc (pos p)" "\<forall>l. last_commit = Some l \<longrightarrow> pos l \<le> pos g"
    "\<forall>a\<in>known ord \<union> set_option last_commit. apart pos (insert g (set (wo_captured ord))) a"
  shows "agrees pos (order_captured g predecessor last_commit ord)"
proof -
  let ?cap = "push_distinct (wo_captured ord) g"
  let ?before = "case last_commit of None \<Rightarrow> wo_before ord
      | Some l \<Rightarrow> if l \<noteq> g \<and> (l, g) \<notin> set (wo_before ord) then wo_before ord @ [(l, g)] else wo_before ord"
  have cap: "sorted_wrt (\<lambda>x y. pos x < pos y) ?cap" using push_distinct_sorted [of pos "wo_captured ord" g] assms(1-3) by (simp add: agrees_def)
  have first: "a \<in> set (drop_oldest ?cap) \<or> (\<forall>c\<in>set (drop_oldest ?cap). pos a < pos c)" if "a \<in> set ?cap" for a
    using that cap by (cases ?cap) (auto simp: drop_oldest_def)
  have "pos l < pos g" if "last_commit = Some l" "l \<noteq> g" for l
    using that assms(2,5) by (metis injD le_neq_implies_less)
  then have before: "\<forall>(a, b)\<in>set ?before. pos a < pos b" using assms(1) by (auto simp: agrees_def split: option.splits)
  have firsts: "fst ` set ?before \<subseteq> fst ` set (wo_before ord) \<union> set_option last_commit" by (auto split: option.splits)
  have "apart pos (set (drop_oldest ?cap)) a" if "a \<in> known (order_captured g predecessor last_commit ord)" for a
  proof -
    have "a \<in> known ord \<union> set_option last_commit"
      using that firsts drop_oldest_sublist(1) [of ?before] drop_oldest_sublist(1) [of "wo_committed ord"]
      by (auto simp: known_def order_captured_def Let_def)
    then have "apart pos (set ?cap) a" using assms(6) by simp
    then show ?thesis using apart_subset [of pos "set ?cap" a] drop_oldest_sublist(1) [of ?cap] first [of a] by blast
  qed
  moreover have "\<forall>(p, s)\<in>set (wo_adjacent ord @ (case predecessor of None \<Rightarrow> [] | Some p \<Rightarrow> [(p, g)])). pos s = Suc (pos p)"
    using assms(1,4) by (auto simp: agrees_def split: option.splits)
  ultimately show ?thesis
    using assms(1) cap before drop_oldest_sublist(2) drop_oldest_sublist(1) [of ?before]
      drop_oldest_sublist(1) [of "wo_adjacent ord @ (case predecessor of None \<Rightarrow> [] | Some p \<Rightarrow> [(p, g)])"]
    unfolding agrees_def order_captured_def Let_def by fastforce
qed

lemma forget_agrees:
  assumes "agrees pos ord"
  shows "agrees pos (forget_before lowest keep ord)"
proof -
  define gone where "gone = filter (\<lambda>g. g \<notin> set keep \<and> earlier ord g lowest) (wo_captured ord @ wo_committed ord)"
  let ?ord = "\<lparr>wo_captured = filter (\<lambda>g. g \<notin> set gone) (wo_captured ord), wo_committed = filter (\<lambda>g. g \<notin> set gone) (wo_committed ord),
      wo_before = filter (\<lambda>(a, b). a \<notin> set gone \<and> b \<notin> set gone) (wo_before ord),
      wo_adjacent = filter (\<lambda>(a, b). a \<notin> set gone \<and> b \<notin> set gone) (wo_adjacent ord)\<rparr>"
  have e: "forget_before lowest keep ord = (if gone = [] then ord else ?ord)"
    by (simp add: forget_before_def gone_def Let_def)
  have "apart pos (set (wo_captured ?ord)) a" if "a \<in> known ?ord" for a
  proof -
    have "a \<notin> set gone" "a \<in> known ord" using that by (auto simp: known_def)
    moreover from this have "apart pos (set (wo_captured ord)) a" using assms by (simp add: agrees_def)
    ultimately show ?thesis by (auto simp: apart_def)
  qed
  then have "agrees pos ?ord" using assms by (auto simp: agrees_def sorted_wrt_filter)
  then show ?thesis using assms by (simp add: e)
qed

section \<open>Properties\<close>

text \<open>
  C15. The export state never orders two WAL generations wrongly. In every state the two streams bring about while
  the capture loop keeps its promises, whatever was forgotten or dropped at a cap meanwhile, a generation
  reported earlier than another is earlier in the true order of the WAL.
\<close>

theorem observed_order_is_sound:
  assumes "order_reachable pos ord" "inj pos" "earlier ord a b"
  shows "pos a < pos b"
proof -
  have "agrees pos ord"
    using assms(1)
  proof induction
    case start
    then show ?case by (simp add: agrees_def wal_order_default_def known_def)
  next
    case (commit ord g)
    then show ?case using committed_agrees [OF _ assms(2)] by blast
  next
    case (capture ord g predecessor last_commit)
    then show ?case using captured_agrees [OF _ assms(2)] by blast
  next
    case (forget ord lowest keep)
    then show ?case using forget_agrees by blast
  qed
  then show ?thesis using earlier_sound assms(2,3) by blast
qed

theorem observed_order_is_sound_witness:
  "let ord = order_captured (WalGeneration 9 0) None (Some (WalGeneration 2 0)) (order_committed (WalGeneration 2 0) wal_order_default) in
   order_reachable sample_pos ord \<and> earlier ord (WalGeneration 2 0) (WalGeneration 9 0)
     \<and> sample_pos (WalGeneration 2 0) < sample_pos (WalGeneration 9 0)"
proof -
  let ?ord = "order_committed (WalGeneration 2 0) wal_order_default"
  let ?ord' = "order_captured (WalGeneration 9 0) None (Some (WalGeneration 2 0)) ?ord"
  have inj: "inj sample_pos" by (auto simp: inj_def sample_pos_def split: wal_generation.splits)
  have "order_reachable sample_pos ?ord"
    by (intro order_reachable.intros) (simp_all add: wal_order_default_def apart_def)
  then have r: "order_reachable sample_pos ?ord'"
    by (rule order_reachable.capture)
      (simp_all add: wal_order_default_def apart_def order_committed_def known_def sample_pos_def prod_encode_def triangle_def push_distinct_def)
  have e: "earlier ?ord' (WalGeneration 2 0) (WalGeneration 9 0)" by code_simp
  show ?thesis unfolding Let_def using r e observed_order_is_sound [OF r inj e] by blast
qed

end
