(* ===== verification/ExportGate.thy ===== *)
theory ExportGate
  imports ExportOrder
begin

text \<open>
  Change export, \<open>crates/logic/export.rs\<close>: every captured commit of a cell is labelled with the file that holds it
  and released, in commit order, once a proof covers its label. A commit that cannot be labelled becomes a gap.

  \<open>attribution\<close> is the state of one residency of a cell and the operations are those of \<open>Attribution\<close>. The
  loops over the queue of pending entries keep the index of the code. \<open>u64\<close> values are \<open>nat\<close>; the theory
  shows that the subtractions on \<open>pending_bytes\<close> never go below zero.
\<close>

section \<open>Definitions\<close>

definition WAL_HEADER_BYTES :: nat where
  "WAL_HEADER_BYTES = 32"

definition WAL_FRAME_HEADER_BYTES :: nat where
  "WAL_FRAME_HEADER_BYTES = 24"

definition frames_through :: "nat \<Rightarrow> nat \<Rightarrow> nat" where
  "frames_through offset page_size = (offset - WAL_HEADER_BYTES) div (page_size + WAL_FRAME_HEADER_BYTES)"

record wal_point =
  wp_generation :: wal_generation
  wp_frames :: nat

record captured_wal =
  cw_generation :: wal_generation
  cw_offset :: nat
  cw_size :: nat

record capture =
  ca_txid :: nat
  ca_page_size :: nat
  ca_full_image :: bool
  ca_wal :: "captured_wal option"

datatype 'a released =
    ReleasedCommit nat 'a
  | ReleasedGap nat nat nat nat

record shed_plan =
  sh_buffered :: nat
  sh_pending_limit :: nat

definition shed :: "nat \<Rightarrow> nat \<Rightarrow> nat \<Rightarrow> shed_plan" where
  "shed budget pending buffered =
     (let over = sat_add pending buffered - budget;
          from_buffer = min over buffered in
      \<lparr>sh_buffered = from_buffer, sh_pending_limit = pending - (over - from_buffer)\<rparr>)"

record span =
  sp_generation :: wal_generation
  sp_after :: nat
  sp_through :: nat
  sp_full_image :: bool

record retained =
  re_txid :: nat
  re_span :: "span option"

datatype 'a entry =
    CommitEntry wal_point "nat option" nat 'a
  | GapEntry "nat option" "wal_point option" nat nat

datatype export_verdict = Label nat | Wait | Unmatched

record 'a attribution =
  ex_pending :: "'a entry list"
  ex_pending_bytes :: nat
  ex_retained :: "retained list"
  ex_head :: "span option"
  ex_forgotten :: "span option"
  ex_order :: wal_order
  ex_last_commit :: "wal_point option"
  ex_captured_txid :: nat
  ex_settled_txid :: nat
  ex_proven_txid :: nat
  ex_released_position :: nat
  ex_unmatched_total :: nat
  ex_released :: "'a released list"

definition attribution_new :: "'a attribution" where
  "attribution_new = \<lparr>ex_pending = [], ex_pending_bytes = 0, ex_retained = [], ex_head = None, ex_forgotten = None,
     ex_order = wal_order_default, ex_last_commit = None, ex_captured_txid = 0, ex_settled_txid = 0, ex_proven_txid = 0,
     ex_released_position = 0, ex_unmatched_total = 0, ex_released = []\<rparr>"

fun unlabeled_point :: "'a entry \<Rightarrow> wal_point option" where
  "unlabeled_point (CommitEntry at None _ _) = Some at"
| "unlabeled_point (CommitEntry _ (Some _) _ _) = None"
| "unlabeled_point (GapEntry None unlabeled _ _) = unlabeled"
| "unlabeled_point (GapEntry (Some _) _ _ _) = None"

definition unlabeled_points :: "'a attribution \<Rightarrow> wal_point list" where
  "unlabeled_points s = List.map_filter unlabeled_point (ex_pending s)"

definition forget_generations :: "'a attribution \<Rightarrow> 'a attribution" where
  "forget_generations s =
     (case (case unlabeled_points s of at # _ \<Rightarrow> Some at | [] \<Rightarrow> ex_last_commit s) of
        None \<Rightarrow> s
      | Some at \<Rightarrow>
          let keep = List.map_filter (\<lambda>k. map_option sp_generation (re_span k)) (ex_retained s)
                     @ (case ex_head s of None \<Rightarrow> [] | Some sp \<Rightarrow> [sp_generation sp])
                     @ (case ex_forgotten s of None \<Rightarrow> [] | Some sp \<Rightarrow> [sp_generation sp]) in
          s\<lparr>ex_order := forget_before (wp_generation at) keep (ex_order s)\<rparr>)"

definition span_covers :: "wal_order \<Rightarrow> span \<Rightarrow> wal_point \<Rightarrow> bool" where
  "span_covers ord sp at \<longleftrightarrow>
     (if sp_generation sp = wp_generation at
      then wp_frames at \<le> sp_through sp \<and> (sp_full_image sp \<or> sp_after sp < wp_frames at)
      else sp_full_image sp \<and> earlier ord (wp_generation at) (sp_generation sp))"

definition span_passes :: "wal_order \<Rightarrow> span \<Rightarrow> wal_point \<Rightarrow> bool" where
  "span_passes ord sp at \<longleftrightarrow>
     \<not> sp_full_image sp
     \<and> (if sp_generation sp = wp_generation at then wp_frames at \<le> sp_after sp
        else earlier ord (wp_generation at) (sp_generation sp))"

fun scan_retained :: "wal_order \<Rightarrow> wal_point \<Rightarrow> bool \<Rightarrow> retained list \<Rightarrow> export_verdict option" where
  "scan_retained ord at unordered_image [] = None"
| "scan_retained ord at unordered_image (k # ks) =
     (case re_span k of
        None \<Rightarrow> scan_retained ord at unordered_image ks
      | Some sp \<Rightarrow>
          if span_covers ord sp at then Some (if unordered_image then Unmatched else Label (re_txid k))
          else if span_passes ord sp at then Some Unmatched
          else
            scan_retained ord at
              (unordered_image
               \<or> (sp_full_image sp \<and> sp_generation sp \<noteq> wp_generation at
                  \<and> \<not> earlier ord (sp_generation sp) (wp_generation at))) ks)"

definition span_behind :: "wal_order \<Rightarrow> wal_point \<Rightarrow> span option \<Rightarrow> bool" where
  "span_behind ord at o_span \<longleftrightarrow>
     (case o_span of
        None \<Rightarrow> False
      | Some sp \<Rightarrow>
          (sp_generation sp = wp_generation at \<and> wp_frames at \<le> sp_through sp)
          \<or> earlier ord (wp_generation at) (sp_generation sp))"

definition export_verdict_of :: "'a attribution \<Rightarrow> wal_point \<Rightarrow> export_verdict" where
  "export_verdict_of s at =
     (case scan_retained (ex_order s) at False (ex_retained s) of
        Some v \<Rightarrow> v
      | None \<Rightarrow>
          if span_behind (ex_order s) at (ex_head s) \<or> span_behind (ex_order s) at (ex_forgotten s)
          then Unmatched else Wait)"

fun later_bound :: "nat option \<Rightarrow> nat option \<Rightarrow> nat option" where
  "later_bound (Some later) (Some prior) = Some (max later prior)"
| "later_bound later _ = later"

definition drop_commit :: "nat \<Rightarrow> bool \<Rightarrow> 'a attribution \<Rightarrow> 'a attribution \<times> bool" where
  "drop_commit index unmatched s =
     (case ex_pending s ! index of
        GapEntry _ _ _ _ \<Rightarrow> (s, False)
      | CommitEntry at label0 bs _ \<Rightarrow>
          let s = s\<lparr>ex_pending_bytes := ex_pending_bytes s - bs\<rparr>;
              through = (if unmatched then Some (ex_captured_txid s) else label0);
              unlabeled = (case through of Some _ \<Rightarrow> None | None \<Rightarrow> Some at);
              gap = GapEntry through unlabeled (if unmatched then 1 else 0) (if unmatched then 0 else 1);
              alone = (s\<lparr>ex_pending := (ex_pending s)[index := gap]\<rparr>, False) in
          if index = 0 then alone
          else
            (case ex_pending s ! (index - 1) of
               CommitEntry _ _ _ _ \<Rightarrow> alone
             | GapEntry prior _ prior_unmatched prior_overflowed \<Rightarrow>
                 let merged = GapEntry (later_bound through prior) unlabeled
                       (prior_unmatched + (if unmatched then 1 else 0)) (prior_overflowed + (if unmatched then 0 else 1)) in
                 (s\<lparr>ex_pending := take (index - 1) (ex_pending s) @ merged # drop (index + 1) (ex_pending s)\<rparr>, True)))"

fun set_label :: "nat \<Rightarrow> 'a entry \<Rightarrow> 'a entry" where
  "set_label txid (CommitEntry at _ bs p) = CommitEntry at (Some txid) bs p"
| "set_label txid (GapEntry _ unlabeled unmatched overflowed) = GapEntry (Some txid) unlabeled unmatched overflowed"

fun is_commit_entry :: "'a entry \<Rightarrow> bool" where
  "is_commit_entry (CommitEntry _ _ _ _) = True"
| "is_commit_entry (GapEntry _ _ _ _) = False"

definition relabel :: "nat \<Rightarrow> nat \<Rightarrow> 'a attribution \<Rightarrow> 'a attribution" where
  "relabel index txid s = s\<lparr>ex_pending := (ex_pending s)[index := set_label txid (ex_pending s ! index)]\<rparr>"

definition count_unmatched :: "'a attribution \<Rightarrow> 'a attribution" where
  "count_unmatched s = s\<lparr>ex_unmatched_total := ex_unmatched_total s + 1\<rparr>"

text \<open>One turn of the loop of \<open>resolve\<close>: the new state, and whether the index stays.\<close>

definition resolve_at :: "nat \<Rightarrow> 'a attribution \<Rightarrow> 'a attribution \<times> bool" where
  "resolve_at index s =
     (case unlabeled_point (ex_pending s ! index) of
        None \<Rightarrow> (s, False)
      | Some at \<Rightarrow>
          (case export_verdict_of s at of
             Wait \<Rightarrow> (s, False)
           | Label txid \<Rightarrow> (relabel index txid s, False)
           | Unmatched \<Rightarrow>
               if is_commit_entry (ex_pending s ! index) then drop_commit index True (count_unmatched s)
               else (relabel index (ex_captured_txid s) s, False)))"

lemma drop_commit_length:
  assumes "drop_commit index unmatched s = (s', merged)" "index < length (ex_pending s)"
  shows "length (ex_pending s') = (if merged then length (ex_pending s) - 1 else length (ex_pending s))"
  using assms by (auto simp: drop_commit_def Let_def split: entry.splits option.splits if_splits)

lemma resolve_at_length:
  assumes "resolve_at index s = (s', stay)" "index < length (ex_pending s)"
  shows "length (ex_pending s') = (if stay then length (ex_pending s) - 1 else length (ex_pending s))"
  using assms drop_commit_length [of index True "count_unmatched s" s' stay]
  by (auto simp: resolve_at_def relabel_def count_unmatched_def split: option.splits export_verdict.splits if_splits)

function resolve_from :: "nat \<Rightarrow> 'a attribution \<Rightarrow> 'a attribution" where
  "resolve_from index s =
     (if index < length (ex_pending s) then
        let (s', stay) = resolve_at index s in resolve_from (if stay then index else index + 1) s'
      else s)"
  by pat_completeness auto
termination
  by (relation "measure (\<lambda>(index, s). length (ex_pending s) - index)") (auto dest!: sym [of "(_, _)"] dest: resolve_at_length)

declare resolve_from.simps [simp del]

definition resolve_pending :: "'a attribution \<Rightarrow> 'a attribution" where
  "resolve_pending s = resolve_from 0 s"

definition settle_keeps :: "'a attribution \<Rightarrow> retained \<Rightarrow> bool" where
  "settle_keeps s k \<longleftrightarrow>
     ex_settled_txid s < re_txid k
     \<or> (case re_span k of
          None \<Rightarrow> False
        | Some sp \<Rightarrow>
            sp_full_image sp
            \<and> list_ex (\<lambda>at. wp_generation at \<noteq> sp_generation sp
                  \<and> \<not> earlier (ex_order s) (wp_generation at) (sp_generation sp)
                  \<and> \<not> earlier (ex_order s) (sp_generation sp) (wp_generation at)) (unlabeled_points s))"

definition prune_settled :: "'a attribution \<Rightarrow> 'a attribution" where
  "prune_settled s = s\<lparr>ex_retained := filter (settle_keeps s) (ex_retained s)\<rparr>"

definition settles :: "wal_order \<Rightarrow> wal_point \<Rightarrow> retained \<Rightarrow> bool" where
  "settles ord at k \<longleftrightarrow>
     (case re_span k of
        None \<Rightarrow> True
      | Some sp \<Rightarrow>
          (sp_generation sp = wp_generation at \<and> sp_through sp \<le> wp_frames at)
          \<or> earlier ord (sp_generation sp) (wp_generation at))"

definition settle_passed :: "wal_point \<Rightarrow> 'a attribution \<Rightarrow> 'a attribution" where
  "settle_passed at s =
     (let passed = takeWhile (settles (ex_order s) at) (ex_retained s) in
      s\<lparr>ex_settled_txid := fold (\<lambda>k t. max t (re_txid k)) passed (ex_settled_txid s),
        ex_retained := dropWhile (settles (ex_order s) at) (ex_retained s)\<rparr>)"

text \<open>The loop of \<open>release\<close>: the entries that leave the queue, in order, and the rest.\<close>

fun release_loop :: "nat \<Rightarrow> nat \<Rightarrow> 'a entry list \<Rightarrow> nat \<Rightarrow> 'a released list \<times> 'a entry list \<times> nat" where
  "release_loop proven position [] bs = ([], [], bs)"
| "release_loop proven position (CommitEntry at (Some l) b p # es) bs =
     (if l \<le> proven then
        let (out, rest, bs') = release_loop proven position es (bs - b) in (ReleasedCommit l p # out, rest, bs')
      else ([], CommitEntry at (Some l) b p # es, bs))"
| "release_loop proven position (GapEntry (Some t) u unmatched overflowed # es) bs =
     (if t \<le> proven then
        let (out, rest, bs') = release_loop proven position es bs in
        (ReleasedGap position t unmatched overflowed # out, rest, bs')
      else ([], GapEntry (Some t) u unmatched overflowed # es, bs))"
| "release_loop proven position (e # es) bs = ([], e # es, bs)"

definition release_reach :: "'a attribution \<Rightarrow> nat" where
  "release_reach s =
     (let unassigned = (case ex_retained s of
                          [] \<Rightarrow> ex_settled_txid s
                        | k # _ \<Rightarrow> min (ex_settled_txid s) (re_txid k - 1)) in
      case ex_pending s of
        [] \<Rightarrow> unassigned
      | CommitEntry _ None _ _ # _ \<Rightarrow> unassigned
      | CommitEntry _ (Some l) _ _ # _ \<Rightarrow> min unassigned (l - 1)
      | GapEntry _ _ _ _ # _ \<Rightarrow> ex_released_position s)"

definition release_pending :: "'a attribution \<Rightarrow> 'a attribution" where
  "release_pending s =
     (let (out, rest, bs) = release_loop (ex_proven_txid s) (ex_released_position s) (ex_pending s) (ex_pending_bytes s);
          s = s\<lparr>ex_pending := rest, ex_pending_bytes := bs, ex_released := ex_released s @ out\<rparr> in
      s\<lparr>ex_released_position := max (ex_released_position s) (min (release_reach s) (ex_proven_txid s))\<rparr>)"

definition after_commit :: "wal_point \<Rightarrow> 'a attribution \<Rightarrow> 'a attribution" where
  "after_commit at s = release_pending (forget_generations (prune_settled (settle_passed at (resolve_pending s))))"

definition export_commit :: "wal_point \<Rightarrow> nat \<Rightarrow> 'a \<Rightarrow> 'a attribution \<Rightarrow> 'a attribution" where
  "export_commit at bs payload s =
     after_commit at
       (s\<lparr>ex_order := order_committed (wp_generation at) (ex_order s), ex_last_commit := Some at,
          ex_pending := ex_pending s @ [CommitEntry at None bs payload],
          ex_pending_bytes := sat_add (ex_pending_bytes s) bs\<rparr>)"

definition push_dropped :: "wal_point \<Rightarrow> 'a entry list \<Rightarrow> 'a entry list" where
  "push_dropped at es =
     (case rev es of
        GapEntry _ _ unmatched overflowed # _ \<Rightarrow> butlast es @ [GapEntry None (Some at) unmatched (overflowed + 1)]
      | _ \<Rightarrow> es @ [GapEntry None (Some at) 0 1])"

definition export_dropped :: "wal_point \<Rightarrow> 'a attribution \<Rightarrow> 'a attribution" where
  "export_dropped at s =
     after_commit at
       (s\<lparr>ex_order := order_committed (wp_generation at) (ex_order s), ex_last_commit := Some at,
          ex_pending := push_dropped at (ex_pending s)\<rparr>)"

definition export_unplaced :: "nat \<Rightarrow> 'a \<Rightarrow> 'a attribution \<Rightarrow> 'a attribution" where
  "export_unplaced bs payload s =
     (let at = (case ex_last_commit s of
                  None \<Rightarrow> \<lparr>wp_generation = WalGeneration 0 0, wp_frames = 0\<rparr>
                | Some at \<Rightarrow> at);
          s = s\<lparr>ex_pending := ex_pending s @ [CommitEntry at None bs payload],
                ex_pending_bytes := sat_add (ex_pending_bytes s) bs,
                ex_unmatched_total := ex_unmatched_total s + 1\<rparr> in
      release_pending (fst (drop_commit (length (ex_pending s) - 1) True s)))"

definition span_of :: "capture \<Rightarrow> span option" where
  "span_of c =
     map_option (\<lambda>w. \<lparr>sp_generation = cw_generation w,
                      sp_after = frames_through (cw_offset w) (ca_page_size c),
                      sp_through = frames_through (sat_add (cw_offset w) (cw_size w)) (ca_page_size c),
                      sp_full_image = ca_full_image c\<rparr>) (ca_wal c)"

definition note_span :: "span \<Rightarrow> 'a attribution \<Rightarrow> 'a attribution" where
  "note_span sp s =
     (let predecessor = (case ex_head s of
                           None \<Rightarrow> None
                         | Some previous \<Rightarrow>
                             if \<not> sp_full_image sp \<and> sp_after sp = 0 \<and> sp_generation previous \<noteq> sp_generation sp
                             then Some (sp_generation previous) else None) in
      s\<lparr>ex_order := order_captured (sp_generation sp) predecessor (map_option wp_generation (ex_last_commit s)) (ex_order s),
        ex_head := Some sp\<rparr>)"

fun forget_over_cap :: "retained list \<Rightarrow> span option \<Rightarrow> retained list \<times> span option" where
  "forget_over_cap [] lost = ([], lost)"
| "forget_over_cap (k # ks) lost =
     (if MAX_RETAINED_CAPTURES < length (k # ks)
      then forget_over_cap ks (case re_span k of None \<Rightarrow> lost | Some sp \<Rightarrow> Some sp)
      else (k # ks, lost))"

definition export_captured :: "capture \<Rightarrow> 'a attribution \<Rightarrow> 'a attribution" where
  "export_captured c s =
     (if ca_txid c \<le> ex_captured_txid s then s
      else
        let s = s\<lparr>ex_captured_txid := ca_txid c\<rparr>;
            s = (case span_of c of None \<Rightarrow> s | Some sp \<Rightarrow> note_span sp s);
            s = resolve_pending (s\<lparr>ex_retained := ex_retained s @ [\<lparr>re_txid = ca_txid c, re_span = span_of c\<rparr>]\<rparr>);
            s = (case ex_last_commit s of None \<Rightarrow> s | Some at \<Rightarrow> settle_passed at s);
            s = prune_settled s;
            (kept, lost) = forget_over_cap (ex_retained s) (ex_forgotten s) in
        release_pending (s\<lparr>ex_retained := kept, ex_forgotten := lost\<rparr>))"

definition export_caught_up :: "'a attribution \<Rightarrow> 'a attribution" where
  "export_caught_up s = release_pending (prune_settled (s\<lparr>ex_settled_txid := ex_captured_txid s\<rparr>))"

definition export_proven :: "nat \<Rightarrow> 'a attribution \<Rightarrow> 'a attribution" where
  "export_proven txid s = release_pending (s\<lparr>ex_proven_txid := max (ex_proven_txid s) txid\<rparr>)"

definition shed_at :: "nat \<Rightarrow> 'a attribution \<Rightarrow> 'a attribution \<times> bool" where
  "shed_at index s = (if is_commit_entry (ex_pending s ! index) then drop_commit index False s else (s, False))"

lemma shed_at_length:
  assumes "shed_at index s = (s', stay)" "index < length (ex_pending s)"
  shows "length (ex_pending s') = (if stay then length (ex_pending s) - 1 else length (ex_pending s))"
  using assms drop_commit_length [of index False s s' stay] by (auto simp: shed_at_def split: if_splits)

function shed_from :: "nat \<Rightarrow> nat \<Rightarrow> 'a attribution \<Rightarrow> 'a attribution" where
  "shed_from limit index s =
     (if limit < ex_pending_bytes s \<and> index < length (ex_pending s) then
        let (s', stay) = shed_at index s in shed_from limit (if stay then index else index + 1) s'
      else s)"
  by pat_completeness auto
termination
  by (relation "measure (\<lambda>(limit, index, s). length (ex_pending s) - index)") (auto dest!: sym [of "(_, _)"] dest: shed_at_length)

declare shed_from.simps [simp del]

definition shed_to :: "nat \<Rightarrow> 'a attribution \<Rightarrow> 'a attribution" where
  "shed_to limit s = release_pending (shed_from limit 0 s)"

definition take_released :: "'a attribution \<Rightarrow> 'a attribution \<times> 'a released list" where
  "take_released s = (s\<lparr>ex_released := []\<rparr>, ex_released s)"

subsection \<open>Runs\<close>

datatype 'a export_op =
    ExCommit wal_point nat 'a
  | ExDropped wal_point
  | ExUnplaced nat 'a
  | ExCaptured capture
  | ExCaughtUp
  | ExProven nat
  | ExShedTo nat

definition export_step :: "'a attribution \<Rightarrow> 'a export_op \<Rightarrow> 'a attribution" where
  "export_step s op =
     (case op of
        ExCommit at bs p \<Rightarrow> export_commit at bs p s
      | ExDropped at \<Rightarrow> export_dropped at s
      | ExUnplaced bs p \<Rightarrow> export_unplaced bs p s
      | ExCaptured c \<Rightarrow> export_captured c s
      | ExCaughtUp \<Rightarrow> export_caught_up s
      | ExProven txid \<Rightarrow> export_proven txid s
      | ExShedTo limit \<Rightarrow> shed_to limit s)"

text \<open>What an operation brings: a payload, a commit whose payload was shed before, or nothing.\<close>

fun arrival :: "'a export_op \<Rightarrow> 'a option list" where
  "arrival (ExCommit _ _ p) = [Some p]"
| "arrival (ExDropped _) = [None]"
| "arrival (ExUnplaced _ p) = [Some p]"
| "arrival _ = []"

definition arrivals :: "'a export_op list \<Rightarrow> 'a option list" where
  "arrivals ops = concat (map arrival ops)"

fun arrival_bytes :: "'a export_op \<Rightarrow> nat" where
  "arrival_bytes (ExCommit _ bs _) = bs"
| "arrival_bytes (ExUnplaced bs _) = bs"
| "arrival_bytes _ = 0"

text \<open>
  The commits an entry or a released item stands for: one payload, or as many anonymous commits as a gap counts.
\<close>

fun entry_slots :: "'a entry \<Rightarrow> 'a option list" where
  "entry_slots (CommitEntry _ _ _ p) = [Some p]"
| "entry_slots (GapEntry _ _ unmatched overflowed) = replicate (unmatched + overflowed) None"

fun released_slots :: "'a released \<Rightarrow> 'a option list" where
  "released_slots (ReleasedCommit _ p) = [Some p]"
| "released_slots (ReleasedGap _ _ unmatched overflowed) = replicate (unmatched + overflowed) None"

definition slots_of :: "'a attribution \<Rightarrow> 'a option list" where
  "slots_of s = concat (map released_slots (ex_released s)) @ concat (map entry_slots (ex_pending s))"

fun entry_bytes :: "'a entry \<Rightarrow> nat" where
  "entry_bytes (CommitEntry _ _ bs _) = bs"
| "entry_bytes (GapEntry _ _ _ _) = 0"

definition queue_bytes :: "'a attribution \<Rightarrow> nat" where
  "queue_bytes s = sum_list (map entry_bytes (ex_pending s))"

text \<open>\<open>ys\<close> is \<open>xs\<close> with some of its payloads blanked out.\<close>

definition blanked :: "'a option list \<Rightarrow> 'a option list \<Rightarrow> bool" where
  "blanked xs ys \<longleftrightarrow> list_all2 (\<lambda>x y. y = x \<or> y = None) xs ys"

fun released_bound :: "'a released \<Rightarrow> nat" where
  "released_bound (ReleasedCommit l _) = l"
| "released_bound (ReleasedGap _ t _ _) = t"

text \<open>
  The step relation of the internal operations: released items stay, the pending slots are only blanked, and the
  byte count keeps being that of the queue.
\<close>

definition same_queue :: "'a attribution \<Rightarrow> 'a attribution \<Rightarrow> bool" where
  "same_queue s s' \<longleftrightarrow>
     ex_released s' = ex_released s \<and> ex_proven_txid s' = ex_proven_txid s \<and> ex_released_position s' = ex_released_position s
     \<and> blanked (concat (map entry_slots (ex_pending s))) (concat (map entry_slots (ex_pending s')))
     \<and> (ex_pending_bytes s = queue_bytes s \<longrightarrow> ex_pending_bytes s' = queue_bytes s')
     \<and> queue_bytes s' \<le> queue_bytes s"

text \<open>Nothing was released past its proof, and the released position is covered by it.\<close>

definition gate_ok :: "'a attribution \<Rightarrow> bool" where
  "gate_ok s \<longleftrightarrow>
     (\<forall>r\<in>set (ex_released s). released_bound r \<le> ex_proven_txid s) \<and> ex_released_position s \<le> ex_proven_txid s"

definition export_flow :: "'a attribution \<Rightarrow> 'a attribution \<Rightarrow> bool" where
  "export_flow s s' \<longleftrightarrow>
     blanked (slots_of s) (slots_of s') \<and> (gate_ok s \<longrightarrow> gate_ok s')
     \<and> (ex_pending_bytes s = queue_bytes s \<longrightarrow> ex_pending_bytes s' = queue_bytes s') \<and> queue_bytes s' \<le> queue_bytes s
     \<and> ex_proven_txid s \<le> ex_proven_txid s' \<and> ex_released_position s \<le> ex_released_position s'"

section \<open>Nothing is lost or reordered\<close>

lemma blanked_refl: "blanked xs xs"
  by (simp add: blanked_def list.rel_refl)

lemma blanked_trans: "blanked xs ys \<Longrightarrow> blanked ys zs \<Longrightarrow> blanked xs zs"
  unfolding blanked_def by (rule list_all2_trans) auto

lemma blanked_append: "blanked xs ys \<Longrightarrow> blanked xs' ys' \<Longrightarrow> blanked (xs @ xs') (ys @ ys')"
  by (simp add: blanked_def list_all2_appendI)

lemma same_queue_refl: "same_queue s s"
  by (simp add: same_queue_def blanked_refl)

lemma same_queue_trans: "same_queue s t \<Longrightarrow> same_queue t u \<Longrightarrow> same_queue s u"
  unfolding same_queue_def by (auto intro: blanked_trans order_trans)

lemma same_queue_fields:
  assumes "ex_released s' = ex_released s" "ex_proven_txid s' = ex_proven_txid s" "ex_released_position s' = ex_released_position s"
    "ex_pending s' = ex_pending s" "ex_pending_bytes s' = ex_pending_bytes s"
  shows "same_queue s s'"
  using assms by (simp add: same_queue_def queue_bytes_def blanked_refl)

lemma set_label_slots: "entry_slots (set_label t e) = entry_slots e" "entry_bytes (set_label t e) = entry_bytes e"
  by (cases e; simp)+

lemma relabel_same_queue:
  assumes "index < length (ex_pending s)"
  shows "same_queue s (relabel index t s)"
proof -
  have "map entry_slots ((ex_pending s)[index := set_label t (ex_pending s ! index)]) = map entry_slots (ex_pending s)"
    "map entry_bytes ((ex_pending s)[index := set_label t (ex_pending s ! index)]) = map entry_bytes (ex_pending s)"
    using assms by (simp_all add: map_update set_label_slots list_update_same_conv)
  then show ?thesis by (simp add: same_queue_def relabel_def queue_bytes_def blanked_refl)
qed

lemma blanked_one: "blanked [Some p] [None]"
  by (simp add: blanked_def)

text \<open>Turning a commit into a gap, alone or merged into the gap before it.\<close>

lemma drop_commit_alone:
  assumes "ex_pending s = xs @ CommitEntry at l bs p # ys" "index = length xs" "xs = [] \<or> is_commit_entry (List.last xs)"
  shows "\<exists>t u. drop_commit index unmatched s =
    (s\<lparr>ex_pending_bytes := ex_pending_bytes s - bs,
       ex_pending := xs @ GapEntry t u (if unmatched then 1 else 0) (if unmatched then 0 else 1) # ys\<rparr>, False)"
proof (cases "xs = []")
  case True
  then show ?thesis using assms by (auto simp: drop_commit_def Let_def)
next
  case False
  then have "ex_pending s ! (index - 1) = List.last xs"
    using assms(1,2) by (simp add: nth_append last_conv_nth)
  moreover have "is_commit_entry (List.last xs)" "0 < index" using assms(2,3) False by auto
  ultimately show ?thesis using assms(1,2) by (cases "List.last xs") (auto simp: drop_commit_def Let_def)
qed

lemma drop_commit_merged:
  assumes "ex_pending s = xs @ GapEntry t0 u0 m n # CommitEntry at l bs p # ys" "index = Suc (length xs)"
  shows "\<exists>t u. drop_commit index unmatched s =
    (s\<lparr>ex_pending_bytes := ex_pending_bytes s - bs,
       ex_pending := xs @ GapEntry t u (m + (if unmatched then 1 else 0)) (n + (if unmatched then 0 else 1)) # ys\<rparr>, True)"
  using assms by (auto simp: drop_commit_def Let_def nth_append)

lemma drop_commit_cases:
  assumes "index < length (ex_pending s)" "is_commit_entry (ex_pending s ! index)" "drop_commit index unmatched s = (s', merged)"
  obtains (alone) xs at l bs p ys t u m n where "ex_pending s = xs @ CommitEntry at l bs p # ys" "length xs = index"
      "\<not> merged" "m + n = 1" "s' = s\<lparr>ex_pending_bytes := ex_pending_bytes s - bs,
       ex_pending := xs @ GapEntry t u m n # ys\<rparr>"
  | (merged) xs at l bs p ys t0 u0 m n t u m' n' where "ex_pending s = xs @ GapEntry t0 u0 m n # CommitEntry at l bs p # ys"
      "Suc (length xs) = index" "merged" "m' + n' = Suc (m + n)"
      "s' = s\<lparr>ex_pending_bytes := ex_pending_bytes s - bs,
       ex_pending := xs @ GapEntry t u m' n' # ys\<rparr>"
proof -
  define xs where "xs = take index (ex_pending s)"
  obtain at l bs p where e: "ex_pending s ! index = CommitEntry at l bs p" using assms(2) by (cases "ex_pending s ! index") auto
  then have split: "ex_pending s = xs @ CommitEntry at l bs p # drop (Suc index) (ex_pending s)" and len: "index = length xs"
    using id_take_nth_drop [OF assms(1)] assms(1) by (simp_all add: xs_def)
  show ?thesis
  proof (cases "xs = [] \<or> is_commit_entry (List.last xs)")
    case True
    obtain t u where "drop_commit index unmatched s =
        (s\<lparr>ex_pending_bytes := ex_pending_bytes s - bs,
       ex_pending := xs @ GapEntry t u (if unmatched then 1 else 0) (if unmatched then 0 else 1) # drop (Suc index) (ex_pending s)\<rparr>, False)"
      using drop_commit_alone [OF split len True] by blast
    then show ?thesis using assms(3)
      by (intro alone [OF split len [symmetric], of "if unmatched then 1 else 0" "if unmatched then 0 else 1" t u]) auto
  next
    case False
    then obtain zs t0 u0 m n where z: "xs = zs @ [GapEntry t0 u0 m n]"
      by (cases xs rule: rev_cases) (auto elim: is_commit_entry.elims)
    then have split': "ex_pending s = zs @ GapEntry t0 u0 m n # CommitEntry at l bs p # drop (Suc index) (ex_pending s)"
      and len': "index = Suc (length zs)" using split len by simp_all
    obtain t u where "drop_commit index unmatched s =
        (s\<lparr>ex_pending_bytes := ex_pending_bytes s - bs,
       ex_pending := zs @ GapEntry t u (m + (if unmatched then 1 else 0)) (n + (if unmatched then 0 else 1)) # drop (Suc index) (ex_pending s)\<rparr>, True)"
      using drop_commit_merged [OF split' len'] by blast
    then show ?thesis using assms(3)
      by (intro merged [OF split' len' [symmetric], of "m + (if unmatched then 1 else 0)" "n + (if unmatched then 0 else 1)" t u]) auto
  qed
qed

lemma drop_commit_same_queue:
  assumes "index < length (ex_pending s)" "is_commit_entry (ex_pending s ! index)" "drop_commit index unmatched s = (s', merged)"
  shows "same_queue s s'"
  using assms
proof (cases rule: drop_commit_cases)
  case (alone xs at l bs p ys t u m n)
  have "replicate (m + n) None = [None :: 'a option]" using alone(4) by simp
  then have "blanked (concat (map entry_slots (ex_pending s))) (concat (map entry_slots (ex_pending s')))"
    using blanked_append [OF blanked_refl blanked_append [OF blanked_one blanked_refl]] by (simp add: alone(1,5))
  then show ?thesis by (simp add: same_queue_def alone(1,5) queue_bytes_def)
next
  case (merged xs at l bs p ys t0 u0 m n t u m' n')
  have "replicate (m' + n') (None :: 'a option) = replicate (m + n) None @ [None]"
    using merged(4) by (simp add: replicate_append_same)
  then have "blanked (concat (map entry_slots (ex_pending s))) (concat (map entry_slots (ex_pending s')))"
    using blanked_append [OF blanked_refl blanked_append [OF blanked_refl blanked_append [OF blanked_one blanked_refl]]]
    by (simp add: merged(1,5))
  then show ?thesis by (simp add: same_queue_def merged(1,5) queue_bytes_def)
qed

lemma resolve_at_same_queue:
  assumes "index < length (ex_pending s)" "resolve_at index s = (s', stay)"
  shows "same_queue s s'"
proof -
  have c: "same_queue s (count_unmatched s)" by (rule same_queue_fields) (simp_all add: count_unmatched_def)
  have "same_queue s s'" if "drop_commit index True (count_unmatched s) = (s', stay)" "is_commit_entry (ex_pending s ! index)"
    using same_queue_trans [OF c drop_commit_same_queue [OF _ _ that(1)]] assms(1) that(2) by (simp add: count_unmatched_def)
  then show ?thesis
    using assms relabel_same_queue [OF assms(1)] same_queue_refl [of s]
    by (auto simp: resolve_at_def split: option.splits export_verdict.splits if_splits)
qed

lemma resolve_from_same_queue: "same_queue s (resolve_from index s)"
proof (induction index s rule: resolve_from.induct)
  case (1 index s)
  show ?case
  proof (cases "index < length (ex_pending s)")
    case True
    obtain s' stay where r: "resolve_at index s = (s', stay)" by fastforce
    show ?thesis
      using 1 [OF True r [symmetric] refl] resolve_at_same_queue [OF True r] same_queue_trans True r
      by (auto simp: resolve_from.simps [of index s])
  qed (simp add: resolve_from.simps [of index s] same_queue_refl)
qed

lemma shed_from_same_queue: "same_queue s (shed_from limit index s)"
proof (induction limit index s rule: shed_from.induct)
  case (1 limit index s)
  show ?case
  proof (cases "limit < ex_pending_bytes s \<and> index < length (ex_pending s)")
    case True
    obtain s' stay where r: "shed_at index s = (s', stay)" by fastforce
    have "same_queue s s'"
      using r True drop_commit_same_queue [of index s False s' stay] same_queue_refl
      by (auto simp: shed_at_def split: if_splits)
    then show ?thesis
      using 1 [OF True r [symmetric] refl] same_queue_trans True r by (auto simp: shed_from.simps [of limit index s])
  qed (auto simp: shed_from.simps [of limit index s] same_queue_refl)
qed

lemma bookkeeping_same_queue:
  "same_queue s (settle_passed at s)" "same_queue s (prune_settled s)" "same_queue s (forget_generations s)" "same_queue s (note_span sp s)"
  by (intro same_queue_fields;
      simp add: settle_passed_def prune_settled_def forget_generations_def note_span_def Let_def split: option.split list.split)+

section \<open>The gate\<close>

lemma flow_trans: "export_flow s t \<Longrightarrow> export_flow t u \<Longrightarrow> export_flow s u"
  unfolding export_flow_def by (auto intro: blanked_trans order_trans)

lemma same_queue_flow: "same_queue s s' \<Longrightarrow> export_flow s s'"
  unfolding same_queue_def export_flow_def slots_of_def gate_ok_def by (auto intro: blanked_append blanked_refl)

lemma release_loop_exact:
  assumes "release_loop proven position es bs = (out, rest, bs')"
  shows "concat (map released_slots out) @ concat (map entry_slots rest) = concat (map entry_slots es)
    \<and> (\<forall>r\<in>set out. released_bound r \<le> proven)
    \<and> (bs = sum_list (map entry_bytes es) \<longrightarrow> bs' = sum_list (map entry_bytes rest))
    \<and> sum_list (map entry_bytes rest) \<le> sum_list (map entry_bytes es)"
  using assms
  by (induction proven position es bs arbitrary: out rest bs' rule: release_loop.induct)
    (auto simp: Let_def split: if_splits prod.splits)

lemma release_flow: "export_flow s (release_pending s)"
proof -
  obtain out rest bs where r: "release_loop (ex_proven_txid s) (ex_released_position s) (ex_pending s) (ex_pending_bytes s) = (out, rest, bs)"
    by (metis prod_cases3)
  note x = release_loop_exact [OF r]
  let ?s = "s\<lparr>ex_pending := rest, ex_pending_bytes := bs, ex_released := ex_released s @ out\<rparr>"
  have e: "release_pending s = ?s\<lparr>ex_released_position := max (ex_released_position ?s) (min (release_reach ?s) (ex_proven_txid ?s))\<rparr>"
    by (simp add: release_pending_def r Let_def)
  have "slots_of (release_pending s) = slots_of s"
    using x by (simp add: e slots_of_def)
  moreover have "queue_bytes (release_pending s) = sum_list (map entry_bytes rest)" "ex_pending_bytes (release_pending s) = bs"
    "ex_proven_txid (release_pending s) = ex_proven_txid s" "ex_released (release_pending s) = ex_released s @ out"
    by (simp_all add: e queue_bytes_def)
  moreover have "ex_released_position s \<le> ex_released_position (release_pending s)"
    "ex_released_position s \<le> ex_proven_txid s \<longrightarrow> ex_released_position (release_pending s) \<le> ex_proven_txid s"
    by (simp_all add: e)
  ultimately show ?thesis using x by (auto simp: export_flow_def gate_ok_def queue_bytes_def blanked_refl)
qed

lemma after_commit_flow: "export_flow s (after_commit at s)"
  unfolding after_commit_def resolve_pending_def
  by (intro flow_trans [OF _ release_flow] same_queue_flow same_queue_trans [OF _ bookkeeping_same_queue(3)]
      same_queue_trans [OF _ bookkeeping_same_queue(2)] same_queue_trans [OF _ bookkeeping_same_queue(1)] resolve_from_same_queue)

lemma shed_flow: "export_flow s (shed_to limit s)"
  unfolding shed_to_def by (intro flow_trans [OF _ release_flow] same_queue_flow shed_from_same_queue)

lemma caught_up_flow: "export_flow s (export_caught_up s)"
  unfolding export_caught_up_def
  by (intro flow_trans [OF _ release_flow] same_queue_flow same_queue_trans [OF _ bookkeeping_same_queue(2)] same_queue_fields) simp_all

lemma proven_flow: "export_flow s (export_proven txid s)"
proof -
  have "export_flow s (s\<lparr>ex_proven_txid := max (ex_proven_txid s) txid\<rparr>)"
    by (auto simp: export_flow_def slots_of_def queue_bytes_def gate_ok_def blanked_refl le_max_iff_disj)
  then show ?thesis unfolding export_proven_def by (rule flow_trans [OF _ release_flow])
qed

lemma captured_flow: "export_flow s (export_captured c s)"
proof (cases "ca_txid c \<le> ex_captured_txid s")
  case True
  then show ?thesis by (simp add: export_captured_def same_queue_flow same_queue_refl)
next
  case False
  define s1 where "s1 = (case span_of c of None \<Rightarrow> s\<lparr>ex_captured_txid := ca_txid c\<rparr>
      | Some sp \<Rightarrow> note_span sp (s\<lparr>ex_captured_txid := ca_txid c\<rparr>))"
  define s2 where "s2 = s1\<lparr>ex_retained := ex_retained s1 @ [\<lparr>re_txid = ca_txid c, re_span = span_of c\<rparr>]\<rparr>"
  define s3 where "s3 = resolve_pending s2"
  define s4 where "s4 = prune_settled (case ex_last_commit s3 of None \<Rightarrow> s3 | Some at \<Rightarrow> settle_passed at s3)"
  obtain kept lost where k: "forget_over_cap (ex_retained s4) (ex_forgotten s4) = (kept, lost)" by fastforce
  have "same_queue s s1"
    by (simp add: s1_def same_queue_fields split: option.split)
      (intro allI impI same_queue_trans [OF _ bookkeeping_same_queue(4)] same_queue_fields; simp)
  moreover have "same_queue s1 s2" by (rule same_queue_fields) (simp_all add: s2_def)
  moreover have "same_queue s2 s3" by (simp add: s3_def resolve_pending_def resolve_from_same_queue)
  moreover have "same_queue s3 s4"
    by (auto simp: s4_def split: option.split intro: same_queue_trans [OF _ bookkeeping_same_queue(2)] bookkeeping_same_queue same_queue_refl)
  moreover have "same_queue s4 (s4\<lparr>ex_retained := kept, ex_forgotten := lost\<rparr>)" by (rule same_queue_fields) simp_all
  ultimately have "same_queue s (s4\<lparr>ex_retained := kept, ex_forgotten := lost\<rparr>)" by (blast intro: same_queue_trans)
  moreover have "export_captured c s = release_pending (s4\<lparr>ex_retained := kept, ex_forgotten := lost\<rparr>)"
    unfolding export_captured_def Let_def s1_def [symmetric] s2_def [symmetric] s3_def [symmetric] s4_def [symmetric]
    using False k by simp
  ultimately show ?thesis using flow_trans [OF same_queue_flow release_flow] by metis
qed

lemma push_commit:
  fixes s s' :: "'a attribution"
  assumes "ex_pending s' = ex_pending s @ [CommitEntry at None bs p]" "ex_pending_bytes s' = sat_add (ex_pending_bytes s) bs"
    "ex_released s' = ex_released s" "ex_proven_txid s' = ex_proven_txid s" "ex_released_position s' = ex_released_position s"
  shows "slots_of s' = slots_of s @ [Some p]" "gate_ok s' = gate_ok s" "queue_bytes s' = queue_bytes s + bs"
    "ex_pending_bytes s = queue_bytes s \<Longrightarrow> queue_bytes s + bs \<le> u64_max \<Longrightarrow> ex_pending_bytes s' = queue_bytes s'"
  using assms by (simp_all add: slots_of_def gate_ok_def queue_bytes_def sat_add_def)

lemma push_dropped_exact:
  "concat (map entry_slots (push_dropped at es)) = concat (map entry_slots es) @ [None]"
  "sum_list (map entry_bytes (push_dropped at es)) = sum_list (map entry_bytes es)"
  by (cases es rule: rev_cases; cases "List.last es"; simp add: push_dropped_def replicate_append_same)+

text \<open>One operation: its commits join the end of the stream, and the byte count stays exact while it fits.\<close>

definition export_grows :: "'a attribution \<Rightarrow> 'a option list \<Rightarrow> nat \<Rightarrow> 'a attribution \<Rightarrow> bool" where
  "export_grows s new bs s' \<longleftrightarrow>
     blanked (slots_of s @ new) (slots_of s') \<and> (gate_ok s \<longrightarrow> gate_ok s') \<and> queue_bytes s' \<le> queue_bytes s + bs
     \<and> (ex_pending_bytes s = queue_bytes s \<and> queue_bytes s + bs \<le> u64_max \<longrightarrow> ex_pending_bytes s' = queue_bytes s')"

lemma flow_grows: "export_flow s s' \<Longrightarrow> export_grows s [] 0 s'"
  by (simp add: export_flow_def export_grows_def)

lemma grows_flow: "export_grows s new bs s1 \<Longrightarrow> export_flow s1 s' \<Longrightarrow> export_grows s new bs s'"
  unfolding export_flow_def export_grows_def by (auto intro: blanked_trans order_trans)

lemma unplaced_grows: "export_grows s [Some p] bs (export_unplaced bs p s)"
proof -
  define at where "at = (case ex_last_commit s of None \<Rightarrow> \<lparr>wp_generation = WalGeneration 0 0, wp_frames = 0\<rparr> | Some at \<Rightarrow> at)"
  define s1 where "s1 = s\<lparr>ex_pending := ex_pending s @ [CommitEntry at None bs p],
      ex_pending_bytes := sat_add (ex_pending_bytes s) bs, ex_unmatched_total := ex_unmatched_total s + 1\<rparr>"
  obtain s2 m where d: "drop_commit (length (ex_pending s1) - 1) True s1 = (s2, m)" by fastforce
  have "same_queue s1 s2" by (rule drop_commit_same_queue [OF _ _ d]) (simp_all add: s1_def)
  then have "export_flow s1 (export_unplaced bs p s)"
    using d flow_trans [OF same_queue_flow release_flow] by (simp add: export_unplaced_def Let_def s1_def at_def)
  moreover have "export_grows s [Some p] bs s1"
    using push_commit [of s1 s at bs p] by (simp add: s1_def export_grows_def blanked_refl)
  ultimately show ?thesis by (rule grows_flow [rotated])
qed

lemma step_grows: "export_grows s (arrival op) (arrival_bytes op) (export_step s op)"
proof (cases op)
  case (ExCommit at bs p)
  show ?thesis
    unfolding ExCommit export_step_def export_op.case export_commit_def
    by (rule grows_flow [OF _ after_commit_flow])
      (use push_commit [of "s\<lparr>ex_order := order_committed (wp_generation at) (ex_order s), ex_last_commit := Some at,
          ex_pending := ex_pending s @ [CommitEntry at None bs p], ex_pending_bytes := sat_add (ex_pending_bytes s) bs\<rparr>" s at bs p]
        in \<open>simp add: export_grows_def blanked_refl\<close>)
next
  case (ExDropped at)
  show ?thesis
    unfolding ExDropped export_step_def export_op.case export_dropped_def
    by (rule grows_flow [OF _ after_commit_flow])
      (simp add: export_grows_def slots_of_def gate_ok_def queue_bytes_def push_dropped_exact blanked_refl)
qed (simp_all add: export_step_def unplaced_grows flow_grows captured_flow caught_up_flow proven_flow shed_flow)

lemma run_grows:
  "export_grows s (arrivals ops) (sum_list (map arrival_bytes ops)) (run_steps export_step s ops)"
proof (induction ops arbitrary: s)
  case Nil
  show ?case by (simp add: arrivals_def export_grows_def blanked_refl)
next
  case (Cons op ops)
  note st = step_grows [of s op] and rest = Cons.IH [of "export_step s op"]
  have "blanked (slots_of s @ arrivals (op # ops)) (slots_of (export_step s op) @ arrivals ops)"
    using st blanked_append [OF _ blanked_refl] by (fastforce simp: export_grows_def arrivals_def)
  then show ?case using st rest by (auto simp: export_grows_def intro: blanked_trans)
qed

lemma new_state: "slots_of attribution_new = []" "gate_ok attribution_new" "queue_bytes attribution_new = 0" "ex_pending_bytes attribution_new = 0"
  by (simp_all add: slots_of_def gate_ok_def queue_bytes_def attribution_new_def)

section \<open>The byte budget\<close>

lemma shed_plan_fits:
  assumes "pending + buffered \<le> u64_max"
  shows "sh_pending_limit (shed budget pending buffered) + (buffered - sh_buffered (shed budget pending buffered)) \<le> budget"
  using assms by (simp add: shed_def Let_def sat_add_def)

lemma shed_at_keeps_prefix:
  assumes "shed_at index s = (s', stay)" "index < length (ex_pending s)"
    and gaps: "\<forall>i<index. entry_bytes (ex_pending s ! i) = 0"
  shows "\<forall>i<(if stay then index else index + 1). entry_bytes (ex_pending s' ! i) = 0"
proof (cases "is_commit_entry (ex_pending s ! index)")
  case False
  then have "s' = s" "\<not> stay" "entry_bytes (ex_pending s ! index) = 0"
    using assms(1) by (cases "ex_pending s ! index"; simp add: shed_at_def)+
  then show ?thesis using gaps by (auto simp: less_Suc_eq)
next
  case True
  then have "drop_commit index False s = (s', stay)" using assms(1) by (simp add: shed_at_def)
  with assms(2) True show ?thesis
  proof (cases rule: drop_commit_cases)
    case (alone xs at l bs p ys t u m n)
    then show ?thesis using gaps by (auto simp: nth_append less_Suc_eq)
  next
    case (merged xs at l bs p ys t0 u0 m n t u m' n')
    have "entry_bytes ((xs @ GapEntry t u m' n' # ys) ! i) = 0" if "i < index" for i
      using gaps that merged(1,2) by (cases "i < length xs") (auto simp: nth_append split: if_splits)
    then show ?thesis using merged(3,5) by simp
  qed
qed

lemma shed_from_fits:
  assumes "ex_pending_bytes s = queue_bytes s" "index \<le> length (ex_pending s)"
    "\<forall>i<index. entry_bytes (ex_pending s ! i) = 0"
  shows "ex_pending_bytes (shed_from limit index s) \<le> limit"
  using assms
proof (induction limit index s rule: shed_from.induct)
  case (1 limit index s)
  show ?case
  proof (cases "limit < ex_pending_bytes s \<and> index < length (ex_pending s)")
    case False
    have "ex_pending_bytes s = 0" if "length (ex_pending s) \<le> index"
      using that "1.prems" by (auto simp: queue_bytes_def in_set_conv_nth)
    then show ?thesis using False by (auto simp: shed_from.simps [of limit index s] not_less)
  next
    case True
    obtain s' stay where st: "shed_at index s = (s', stay)" by fastforce
    have "same_queue s s'"
      using st True drop_commit_same_queue [of index s False s' stay] by (auto simp: shed_at_def same_queue_refl split: if_splits)
    then have "ex_pending_bytes s' = queue_bytes s'" using "1.prems"(1) by (simp add: same_queue_def)
    moreover have "(if stay then index else index + 1) \<le> length (ex_pending s')"
      using shed_at_length [OF st] True by auto
    ultimately show ?thesis
      using "1.IH" [OF True, of "(s', stay)" s' stay] st shed_at_keeps_prefix [OF st] True "1.prems"(3)
      by (simp add: shed_from.simps [of limit index s])
  qed
qed

lemma release_keeps_bytes_down:
  assumes "ex_pending_bytes s = queue_bytes s"
  shows "ex_pending_bytes (release_pending s) \<le> ex_pending_bytes s"
  using assms release_flow [of s] by (simp add: export_flow_def)

lemma shed_to_fits:
  assumes "ex_pending_bytes s = queue_bytes s"
  shows "ex_pending_bytes (shed_to limit s) \<le> limit"
proof -
  have "ex_pending_bytes (shed_from limit 0 s) \<le> limit" by (rule shed_from_fits) (use assms in simp_all)
  moreover have "ex_pending_bytes (shed_from limit 0 s) = queue_bytes (shed_from limit 0 s)"
    using shed_from_same_queue [of s limit 0] assms by (simp add: same_queue_def)
  ultimately show ?thesis unfolding shed_to_def using release_keeps_bytes_down by (meson order_trans)
qed

section \<open>Properties\<close>

text \<open>
  C13. The export gate never loses, duplicates, reorders or leaks a commit. After any sequence of operations from the
  empty gate, the released items followed by the pending ones are exactly the commits that were handed in, in commit
  order, where a commit may only have been replaced by one count of a gap (\<open>slots_of\<close>, \<open>blanked\<close>); and every item
  released so far, as well as the released position, is covered by the proven TXID (\<open>gate_ok\<close>).
\<close>

theorem export_is_lossless_and_gated:
  "blanked (arrivals ops) (slots_of (run_steps export_step attribution_new ops))
   \<and> gate_ok (run_steps export_step attribution_new ops)"
  using run_grows [of attribution_new ops] by (simp add: export_grows_def new_state)

text \<open>
  C14. The byte budget holds. In any reachable gate whose commits were handed in with fewer than \<open>2^64\<close> bytes, the
  pending byte count is the exact sum over the queue, and shedding to the plan \<open>shed\<close> makes for it and the driver's
  buffer leaves at most the budget, whatever the queue held; the plan takes from the queue only after it took the whole
  buffer.
\<close>

theorem export_budget_holds:
  assumes s: "s = run_steps export_step attribution_new ops"
    and fits: "sum_list (map arrival_bytes ops) + buffered \<le> u64_max"
    and plan: "plan = shed budget (ex_pending_bytes s) buffered"
  shows "ex_pending_bytes s = queue_bytes s
    \<and> ex_pending_bytes (shed_to (sh_pending_limit plan) s) + (buffered - sh_buffered plan) \<le> budget
    \<and> (sh_pending_limit plan < ex_pending_bytes s \<longrightarrow> sh_buffered plan = buffered)"
proof -
  have "ex_pending_bytes s = queue_bytes s" "queue_bytes s \<le> sum_list (map arrival_bytes ops)"
    using run_grows [of attribution_new ops] fits by (simp_all add: export_grows_def new_state s)
  moreover have "sh_pending_limit plan + (buffered - sh_buffered plan) \<le> budget"
    unfolding plan by (rule shed_plan_fits) (use calculation fits in linarith)
  moreover have "sh_pending_limit plan < ex_pending_bytes s \<longrightarrow> sh_buffered plan = buffered"
    by (auto simp: plan shed_def Let_def)
  ultimately show ?thesis using shed_to_fits [of s "sh_pending_limit plan"] by linarith
qed

definition sample_export :: "nat export_op list" where
  "sample_export =
     [ExCommit \<lparr>wp_generation = WalGeneration 1 2, wp_frames = 2\<rparr> 10 7, ExDropped \<lparr>wp_generation = WalGeneration 1 2, wp_frames = 3\<rparr>,
      ExCommit \<lparr>wp_generation = WalGeneration 1 2, wp_frames = 4\<rparr> 20 8]"

theorem export_budget_holds_witness:
  "ex_pending_bytes (run_steps export_step attribution_new sample_export) = 30
   \<and> ex_pending_bytes (shed_to 15 (run_steps export_step attribution_new sample_export)) \<le> 15"
proof -
  define s where "s = run_steps export_step attribution_new sample_export"
  have b: "ex_pending_bytes s = 30" unfolding s_def by code_simp
  have "sum_list (map arrival_bytes sample_export) + 5 \<le> u64_max" by (simp add: sample_export_def u64_max_def)
  from export_budget_holds [OF s_def this refl, of 15] show ?thesis
    using b by (simp add: s_def [symmetric] shed_def sat_add_def u64_max_def)
qed

end
