(* ===== verification/CoreState.thy ===== *)
theory CoreState
  imports Types
begin

text \<open>
  The state of the decision core (\<open>lib.rs\<close>): the phases of a cell, the cell record, the barriers of
  the output gate, the node authority, and \<open>State\<close> itself as \<open>core_state\<close>, with the pure observers and
  the phase classification at the end of the file. Fields carry the prefix of their record
  (\<open>c_\<close> for \<open>Cell\<close>, \<open>st_\<close> for \<open>State\<close>).

  A computation of the core has type \<open>'a core\<close>: it threads the state and appends the effects it
  decides. \<open>set_phase\<close> is the one gate every phase change passes through. A handler of the source that
  takes a cell out of the map, changes it and puts it back threads the cell value in
  the same way, so that what it calls meanwhile does not see the cell in the map.
\<close>

section \<open>Phases\<close>

record claim =
  cl_guard :: cas_guard
  cl_epoch :: epoch
  cl_takeover :: bool
  cl_prior :: "node_id option"
  cl_reconciles :: nat

datatype activation = Claim claim | Restore restore_spec

datatype cold_start = ReadOwner | Restore restore_spec

datatype when_full = ShedToAdmit | HoldResidents

definition MAX_ACQUIRE_RECONCILES :: nat where
  "MAX_ACQUIRE_RECONCILES = 3"

record remote_lease_deadline =
  rd_expires_ms :: nat
  rd_expires_mono_ms :: nat

definition deadline_observed :: "nat \<Rightarrow> nat \<Rightarrow> nat \<Rightarrow> remote_lease_deadline" where
  "deadline_observed expires_ms issued_mono_ms received_ms =
     \<lparr>rd_expires_ms = expires_ms,
      rd_expires_mono_ms = sat_add issued_mono_ms (expires_ms - received_ms)\<rparr>"

definition deadline_live :: "remote_lease_deadline \<Rightarrow> nat \<Rightarrow> nat \<Rightarrow> bool" where
  "deadline_live d now_ms now_mono_ms =
     (now_ms < rd_expires_ms d \<and> now_mono_ms < rd_expires_mono_ms d)"

datatype remote_cache =
    OwnerLease remote_lease_deadline
  | CapacitySample nat remote_lease_deadline
  | Uncached

fun reusable :: "remote_cache \<Rightarrow> nat \<Rightarrow> nat \<Rightarrow> bool" where
  "reusable (OwnerLease deadline) now_ms now_mono_ms = deadline_live deadline now_ms now_mono_ms"
| "reusable (CapacitySample _ deadline) now_ms now_mono_ms =
     deadline_live deadline now_ms now_mono_ms"
| "reusable Uncached _ _ = False"

record cached_node_lease =
  cn_record :: node_lease_record
  cn_deadline :: remote_lease_deadline

datatype (plugins only: code size) phase =
    Inactive
  | WaitingActivation
  | ReadingOwner op_id
  | ReadingNodeLease op_id owner_record nat nat
  | RecoveringOwnerLog op_id owner_record
  | WaitingOwnerLogRecovery nat
  | ReadingCapacity op_id claim nat
  | WaitingCapacity
  | Acquiring op_id claim bool
  | ReconcilingAcquire op_id claim bool
  | Restoring op_id restore_spec
  | Starting op_id epoch
  | Publishing op_id epoch
  | EnsuringDurability op_id epoch
  | Cleaning op_id epoch stop_cause
  | Dormant epoch
  | Adopting op_id epoch
  | Resident epoch
  | Remote node_id string epoch nat remote_cache
  | Fenced

fun phase_name :: "phase \<Rightarrow> string" where
  "phase_name Inactive = ''inactive''"
| "phase_name WaitingActivation = ''waiting_activation''"
| "phase_name (ReadingOwner _) = ''reading_owner''"
| "phase_name (ReadingNodeLease _ _ _ _) = ''reading_node_lease''"
| "phase_name (RecoveringOwnerLog _ _) = ''recovering_owner_log''"
| "phase_name (WaitingOwnerLogRecovery _) = ''waiting_owner_log_recovery''"
| "phase_name (ReadingCapacity _ _ _) = ''reading_capacity''"
| "phase_name WaitingCapacity = ''waiting_capacity''"
| "phase_name (Acquiring _ _ _) = ''acquiring''"
| "phase_name (ReconcilingAcquire _ _ _) = ''reconciling_acquire''"
| "phase_name (Restoring _ _) = ''restoring''"
| "phase_name (Starting _ _) = ''starting''"
| "phase_name (Publishing _ _) = ''publishing''"
| "phase_name (EnsuringDurability _ _) = ''ensuring_durability''"
| "phase_name (Cleaning _ _ cause) = (if cause = Swap then ''swapping'' else ''cleaning'')"
| "phase_name (Dormant _) = ''dormant''"
| "phase_name (Adopting _ _) = ''adopting''"
| "phase_name (Resident _) = ''resident''"
| "phase_name (Remote _ _ _ _ _) = ''remote''"
| "phase_name Fenced = ''fenced''"

definition phase_occupies_capacity :: "phase \<Rightarrow> bool" where
  "phase_occupies_capacity p =
     (case p of
        Acquiring _ _ dormant \<Rightarrow> \<not> dormant
      | ReconcilingAcquire _ _ dormant \<Rightarrow> \<not> dormant
      | Restoring _ _ \<Rightarrow> True
      | Starting _ _ \<Rightarrow> True
      | Publishing _ _ \<Rightarrow> True
      | EnsuringDurability _ _ \<Rightarrow> True
      | Cleaning _ _ _ \<Rightarrow> True
      | Resident _ \<Rightarrow> True
      | _ \<Rightarrow> False)"

definition phase_holds_activation :: "phase \<Rightarrow> bool" where
  "phase_holds_activation p =
     (case p of
        ReadingOwner _ \<Rightarrow> True
      | ReadingNodeLease _ _ _ _ \<Rightarrow> True
      | RecoveringOwnerLog _ _ \<Rightarrow> True
      | ReadingCapacity _ _ _ \<Rightarrow> True
      | WaitingCapacity \<Rightarrow> True
      | Acquiring _ _ _ \<Rightarrow> True
      | ReconcilingAcquire _ _ _ \<Rightarrow> True
      | Restoring _ _ \<Rightarrow> True
      | Starting _ _ \<Rightarrow> True
      | Publishing _ _ \<Rightarrow> True
      | Cleaning _ _ _ \<Rightarrow> True
      | _ \<Rightarrow> False)"

definition phase_requires_activation_permit :: "phase \<Rightarrow> bool \<Rightarrow> bool" where
  "phase_requires_activation_permit p swapping =
     (case p of
        ReadingOwner _ \<Rightarrow> True
      | ReadingNodeLease _ _ _ _ \<Rightarrow> True
      | RecoveringOwnerLog _ _ \<Rightarrow> True
      | ReadingCapacity _ _ _ \<Rightarrow> True
      | WaitingCapacity \<Rightarrow> True
      | Acquiring _ _ _ \<Rightarrow> True
      | ReconcilingAcquire _ _ _ \<Rightarrow> True
      | Restoring _ _ \<Rightarrow> True
      | Starting _ _ \<Rightarrow> \<not> swapping
      | Publishing _ _ \<Rightarrow> \<not> swapping
      | _ \<Rightarrow> False)"

definition phase_op :: "phase \<Rightarrow> op_id option" where
  "phase_op p =
     (case p of
        ReadingOwner op \<Rightarrow> Some op
      | ReadingNodeLease op _ _ _ \<Rightarrow> Some op
      | RecoveringOwnerLog op _ \<Rightarrow> Some op
      | ReadingCapacity op _ _ \<Rightarrow> Some op
      | Acquiring op _ _ \<Rightarrow> Some op
      | ReconcilingAcquire op _ _ \<Rightarrow> Some op
      | Restoring op _ \<Rightarrow> Some op
      | Starting op _ \<Rightarrow> Some op
      | Publishing op _ \<Rightarrow> Some op
      | EnsuringDurability op _ \<Rightarrow> Some op
      | Cleaning op _ _ \<Rightarrow> Some op
      | Adopting op _ \<Rightarrow> Some op
      | _ \<Rightarrow> None)"

definition phase_owned_epoch :: "phase \<Rightarrow> epoch option" where
  "phase_owned_epoch p =
     (case p of
        Restoring _ spec \<Rightarrow> Some (rs_epoch spec)
      | Starting _ epoch \<Rightarrow> Some epoch
      | Publishing _ epoch \<Rightarrow> Some epoch
      | EnsuringDurability _ epoch \<Rightarrow> Some epoch
      | Cleaning _ epoch _ \<Rightarrow> Some epoch
      | Dormant epoch \<Rightarrow> Some epoch
      | Resident epoch \<Rightarrow> Some epoch
      | _ \<Rightarrow> None)"

definition runtime_epoch :: "phase \<Rightarrow> epoch option" where
  "runtime_epoch p =
     (case p of
        Publishing _ epoch \<Rightarrow> Some epoch
      | EnsuringDurability _ epoch \<Rightarrow> Some epoch
      | Cleaning _ epoch _ \<Rightarrow> Some epoch
      | Resident epoch \<Rightarrow> Some epoch
      | _ \<Rightarrow> None)"

section \<open>Barriers and cells\<close>

record held =
  hd_request :: request_id
  hd_channel :: channel

datatype gate_owner =
    Output held
  | Alarm op_id alarm_snapshot bool
  | Export nat

record rider =
  rd_ticket :: nat
  rd_position :: nat

record barrier =
  b_owner :: gate_owner
  b_cell :: cell_id
  b_epoch :: epoch
  b_position :: nat
  b_followers :: "held list"
  b_verifying :: bool
  b_riders :: "rider list"

definition trailable :: "barrier \<Rightarrow> bool" where
  "trailable b = (case b_owner b of Export _ \<Rightarrow> False | _ \<Rightarrow> True)"

record drain_pin =
  dp_cell :: cell_id
  dp_request :: "request_id option"
  dp_active_request_count :: nat
  dp_output_gate_count :: nat
  dp_regular_websocket_count :: nat
  dp_outbound_websocket_count :: nat

datatype alarm_state =
    Armed int nat bool
  | Firing op_id int nat bool "(alarm_snapshot \<times> bool) option"

record alarm_observation =
  ao_alarm :: alarm_snapshot
  ao_covered :: bool
  ao_firing_settled :: bool

record cell =
  c_phase :: phase
  c_proven_position :: "(epoch \<times> nat) option"
  c_owner_log_recovery_attempts :: nat
  c_quiescing :: bool
  c_requests :: "request_id set"
  c_websockets :: "(web_socket_id, web_socket_kind) bmap"
  c_waiting_for :: "activation option"
  c_waiting_activation :: "cold_start option"
  c_releasing :: "op_id option"
  c_evict_rebalance :: bool
  c_held_epoch :: "epoch option"
  c_handoff :: bool
  c_alarm :: "alarm_state option"
  c_alarm_source :: "publication_id option"
  c_alarm_wake :: bool
  c_resume_demand :: bool
  c_confirming :: bool
  c_eviction_refused_mono_ms :: "nat option"
  c_isolate :: "nat option"
  c_generation :: nat
  c_swapping :: bool
  c_swap_cancelled :: bool
  c_queued_generation :: "nat option"
  c_last_used_mono_ms :: nat
  c_last_used_request :: request_id
  c_local_request_count :: nat

definition cell_default :: cell where
  "cell_default =
     \<lparr>c_phase = Inactive, c_proven_position = None, c_owner_log_recovery_attempts = 0,
      c_quiescing = False, c_requests = {}, c_websockets = [], c_waiting_for = None,
      c_waiting_activation = None, c_releasing = None, c_evict_rebalance = False,
      c_held_epoch = None, c_handoff = False, c_alarm = None, c_alarm_source = None,
      c_alarm_wake = False, c_resume_demand = False, c_confirming = False,
      c_eviction_refused_mono_ms = None, c_isolate = None, c_generation = 0,
      c_swapping = False, c_swap_cancelled = False, c_queued_generation = None,
      c_last_used_mono_ms = 0, c_last_used_request = 0, c_local_request_count = 0\<rparr>"

section \<open>Node authority\<close>

record held_node_lease =
  hl_spec :: node_lease_spec
  hl_record :: node_lease_record
  hl_last_ok_mono_ms :: nat
  hl_last_attempt_mono_ms :: nat
  hl_timer_generation :: nat

record pending_node_lease =
  pl_spec :: node_lease_spec
  pl_desired :: node_lease_record
  pl_prior :: "held_node_lease option"
  pl_readback_only :: bool
  pl_anchor_mono_ms :: nat
  pl_resume_local :: bool

datatype node_authority =
    Unstarted
  | Reading op_id pending_node_lease
  | Writing op_id pending_node_lease
  | Held held_node_lease
  | Retrying node_lease_spec nat
  | Failed
  | Fenced

record shed_cut =
  sc_metric :: metric
  sc_bytes :: nat
  sc_cells :: nat

section \<open>The state\<close>

record core_state =
  st_node :: node_id
  st_config :: config
  st_fenced :: bool
  st_draining :: bool
  st_quiescing_cells :: "cell_id set"
  st_releasing_cells :: "cell_id set"
  st_adopting_cells :: "cell_id set"
  st_resuming :: bool
  st_resuming_cells :: "cell_id set"
  st_confirming :: bool
  st_confirming_cells :: "cell_id set"
  st_next_op :: op_id
  st_next_timer_generation :: nat
  st_cells :: "(cell_id, cell) bmap"
  st_request_cells :: "(request_id, cell_id) bmap"
  st_active_requests :: "(request_id, cell_id) bmap"
  st_active_cells :: "(cell_id, nat) bmap"
  st_admitted_gates :: "request_id set"
  st_admitted_gate_cells :: "(cell_id, nat) bmap"
  st_barriers :: "(op_id, barrier) bmap"
  st_gate_pinned :: "request_id set"
  st_worker_cursor :: "cell_id option"
  st_activity :: activity_snapshot
  st_activation_waiters :: "cell_id list"
  st_activation_permits :: "cell_id set"
  st_eviction_permits :: "cell_id set"
  st_eviction_notifications :: "(op_id, request_id set) bmap"
  st_capacity_waiters :: "cell_id list"
  st_capacity_requests :: "request_id set"
  st_handoff_requests :: "request_id set"
  st_capacity_reservations :: "(node_id, nat) bmap"
  st_capacity_samples :: "(node_id, nat) bmap"
  st_capacity_rejections :: "(node_id, nat) bmap"
  st_node_lease_cache :: "(node_id, cached_node_lease) bmap"
  st_retired_runtime_ops :: "(op_id, cell_id \<times> epoch) bmap"
  st_timed_out_runtime_starts :: "op_id set"
  st_cell_ops :: "(op_id, cell_id) bmap"
  st_occupied :: nat
  st_node_authority :: node_authority
  st_nudge_pending :: bool
  st_now_ms :: nat
  st_now_mono_ms :: nat
  st_shed_floor :: nat
  st_shed_cut :: "shed_cut option"
  st_latches :: latches
  st_current_generation :: nat
  st_generation_changed_mono_ms :: nat
  st_swap_max_age_ms :: nat
  st_swap_eager_classes :: "string set"
  st_shedding :: bool
  st_memory_headroom :: bool
  st_shed_reason :: "string option"

text \<open>\<open>State::new\<close>; its three assertions on the configuration are \<open>config_ok\<close>.\<close>

definition config_ok :: "config \<Rightarrow> bool" where
  "config_ok c = (0 < cf_max_evictions c \<and> 0 < cf_max_releases c \<and> 0 < cf_max_activations c)"

definition state_new :: "node_id \<Rightarrow> config \<Rightarrow> core_state" where
  "state_new node config =
     \<lparr>st_node = node, st_config = config, st_fenced = False, st_draining = False,
      st_quiescing_cells = {}, st_releasing_cells = {}, st_adopting_cells = {},
      st_resuming = False, st_resuming_cells = {}, st_confirming = False,
      st_confirming_cells = {}, st_next_op = 1, st_next_timer_generation = 1, st_cells = [],
      st_request_cells = [], st_active_requests = [], st_active_cells = [],
      st_admitted_gates = {}, st_admitted_gate_cells = [], st_barriers = [],
      st_gate_pinned = {}, st_worker_cursor = None, st_activity = activity_snapshot_default,
      st_activation_waiters = [], st_activation_permits = {}, st_eviction_permits = {},
      st_eviction_notifications = [], st_capacity_waiters = [], st_capacity_requests = {},
      st_handoff_requests = {}, st_capacity_reservations = [], st_capacity_samples = [],
      st_capacity_rejections = [], st_node_lease_cache = [], st_retired_runtime_ops = [],
      st_timed_out_runtime_starts = {}, st_cell_ops = [], st_occupied = 0,
      st_node_authority = Unstarted, st_nudge_pending = False, st_now_ms = 0,
      st_now_mono_ms = 0, st_shed_floor = 0, st_shed_cut = None, st_latches = latches_default,
      st_current_generation = 0, st_generation_changed_mono_ms = 0, st_swap_max_age_ms = 0,
      st_swap_eager_classes = {}, st_shedding = False, st_memory_headroom = False,
      st_shed_reason = None\<rparr>"

type_synonym 'a core = "(core_state, effect, 'a) act"

end
