(* ===== verification/CoreOps.thy ===== *)
theory CoreOps
  imports CoreState
begin

text \<open>
  The primitive operations of the core's state (\<open>lib.rs\<close>): reading and writing the cell map, operation
  ids and their index, active requests with their reverse indexes, the observers a handler
  decides with, phase changes through \<open>set_phase\<close>, request completion, and \<open>validate\<close>, the
  consistency gate both executors run after every event.

  The counters \<open>next_op\<close>, \<open>next_timer_generation\<close> and \<open>local_request_count\<close> are unbounded: the
  source panics when \<open>2 ^ 64\<close> of them are used up.
\<close>

section \<open>Cells\<close>

definition get_cell :: "cell_id \<Rightarrow> cell option core" where
  "get_cell i = look (\<lambda>s. bm_get (st_cells s) i)"

definition put_cell :: "cell_id \<Rightarrow> cell \<Rightarrow> unit core" where
  "put_cell i c = upd (\<lambda>s. s\<lparr>st_cells := bm_insert i c (st_cells s)\<rparr>)"

definition modify_cell :: "cell_id \<Rightarrow> (cell \<Rightarrow> cell) \<Rightarrow> unit core" where
  "modify_cell i f = upd (\<lambda>s. s\<lparr>st_cells := bm_modify i f (st_cells s)\<rparr>)"

text \<open>\<open>cells.remove\<close>: the cell is out of the map until \<open>put_cell\<close> returns it.\<close>

definition take_cell :: "cell_id \<Rightarrow> cell option core" where
  "take_cell i = do {
     c \<leftarrow> get_cell i;
     upd (\<lambda>s. s\<lparr>st_cells := bm_remove i (st_cells s)\<rparr>);
     ret c
   }"

section \<open>Phase patterns\<close>

definition as_resident :: "phase \<Rightarrow> epoch option" where
  "as_resident p = (case p of Resident epoch \<Rightarrow> Some epoch | _ \<Rightarrow> None)"

definition as_ensuring :: "phase \<Rightarrow> (op_id \<times> epoch) option" where
  "as_ensuring p = (case p of EnsuringDurability op epoch \<Rightarrow> Some (op, epoch) | _ \<Rightarrow> None)"

definition as_cleaning :: "phase \<Rightarrow> (op_id \<times> epoch \<times> stop_cause) option" where
  "as_cleaning p = (case p of Cleaning op epoch cause \<Rightarrow> Some (op, epoch, cause) | _ \<Rightarrow> None)"

definition as_dormant :: "phase \<Rightarrow> epoch option" where
  "as_dormant p = (case p of Dormant epoch \<Rightarrow> Some epoch | _ \<Rightarrow> None)"

definition as_published :: "phase \<Rightarrow> epoch option" where
  "as_published p =
     (case p of Resident epoch \<Rightarrow> Some epoch | EnsuringDurability _ epoch \<Rightarrow> Some epoch | _ \<Rightarrow> None)"

definition is_resident :: "phase \<Rightarrow> bool" where
  "is_resident p = (case p of Resident _ \<Rightarrow> True | _ \<Rightarrow> False)"

definition is_dormant :: "phase \<Rightarrow> bool" where
  "is_dormant p = (case p of Dormant _ \<Rightarrow> True | _ \<Rightarrow> False)"

definition is_adopting :: "phase \<Rightarrow> bool" where
  "is_adopting p = (case p of Adopting _ _ \<Rightarrow> True | _ \<Rightarrow> False)"

definition is_firing :: "alarm_state option \<Rightarrow> bool" where
  "is_firing a = (case a of Some (Firing _ _ _ _ _) \<Rightarrow> True | _ \<Rightarrow> False)"

definition firing_op :: "alarm_state option \<Rightarrow> op_id option" where
  "firing_op a = (case a of Some (Firing op _ _ _ _) \<Rightarrow> Some op | _ \<Rightarrow> None)"

text \<open>No alarm, or one that a durable wake entry covers: the alarm survives an eviction.\<close>

definition alarm_evictable :: "alarm_state option \<Rightarrow> bool" where
  "alarm_evictable a =
     (case a of None \<Rightarrow> True | Some (Armed _ _ covered) \<Rightarrow> covered | Some (Firing _ _ _ _ _) \<Rightarrow> False)"

definition pins_cell :: "web_socket_kind \<Rightarrow> bool" where
  "pins_cell k = (k = Regular \<or> k = Outbound)"

section \<open>Observers\<close>

definition node_authoritative :: "core_state \<Rightarrow> bool" where
  "node_authoritative s =
     (if \<not> cf_require_node_lease (st_config s) then \<not> st_fenced s
      else
        let fresh = (\<lambda>h. st_now_mono_ms s - hl_last_ok_mono_ms h < sp_ttl_ms (hl_spec h)) in
        case st_node_authority s of
          Held h \<Rightarrow> fresh h
        | Reading _ pending \<Rightarrow> (case pl_prior pending of None \<Rightarrow> False | Some h \<Rightarrow> fresh h)
        | Writing _ pending \<Rightarrow> (case pl_prior pending of None \<Rightarrow> False | Some h \<Rightarrow> fresh h)
        | _ \<Rightarrow> False)"

definition ready_to_serve :: "core_state \<Rightarrow> bool" where
  "ready_to_serve s = (if st_fenced s \<or> st_resuming s then False else node_authoritative s)"

definition host_websockets :: "core_state \<Rightarrow> nat" where
  "host_websockets s = sum_list (map (\<lambda>c. length (c_websockets c)) (bm_values (st_cells s)))"

definition holds_websocket :: "core_state \<Rightarrow> cell_id \<Rightarrow> web_socket_id \<Rightarrow> bool" where
  "holds_websocket s i websocket =
     (case bm_get (st_cells s) i of None \<Rightarrow> False | Some c \<Rightarrow> bm_has (c_websockets c) websocket)"

definition owned_cells :: "core_state \<Rightarrow> nat" where
  "owned_cells s = length (filter (\<lambda>c. c_held_epoch c \<noteq> None) (bm_values (st_cells s)))"

definition residents :: "core_state \<Rightarrow> cell_id list" where
  "residents s = map fst (filter (\<lambda>(_, c). as_published (c_phase c) \<noteq> None) (st_cells s))"

definition presence_snapshot_of :: "core_state \<Rightarrow> presence_snapshot" where
  "presence_snapshot_of s =
     \<lparr>ps_serving = ready_to_serve s,
      ps_cells =
        List.map_filter
          (\<lambda>(i, c). map_option (\<lambda>epoch. \<lparr>pc_id = i, pc_epoch = epoch\<rparr>) (as_published (c_phase c)))
          (st_cells s),
      ps_activity = st_activity s\<rparr>"

definition drain_pins :: "core_state \<Rightarrow> drain_pin list" where
  "drain_pins s =
     concat (map (\<lambda>(i, c).
       let active = map fst (filter (\<lambda>(_, request_cell). request_cell = i) (st_active_requests s));
           regular = length (filter (\<lambda>k. k = Regular) (bm_values (c_websockets c)));
           outbound = length (filter (\<lambda>k. k = Outbound) (bm_values (c_websockets c)))
       in if active = [] then
            [\<lparr>dp_cell = i, dp_request = None, dp_active_request_count = 0,
              dp_output_gate_count = 0, dp_regular_websocket_count = regular,
              dp_outbound_websocket_count = outbound\<rparr>]
          else
            map (\<lambda>request.
              \<lparr>dp_cell = i, dp_request = Some request, dp_active_request_count = length active,
               dp_output_gate_count =
                 length (filter (\<lambda>b.
                   (case b_owner b of Output h \<Rightarrow> hd_request h = request | _ \<Rightarrow> False)
                   \<or> list_ex (\<lambda>h. hd_request h = request) (b_followers b))
                   (bm_values (st_barriers s))),
               dp_regular_websocket_count = regular,
               dp_outbound_websocket_count = outbound\<rparr>) active)
       (filter (\<lambda>(_, c). c_quiescing c) (st_cells s)))"

definition phase_census :: "core_state \<Rightarrow> (string, nat) bmap" where
  "phase_census s =
     fold (\<lambda>c counts.
       let name = phase_name (c_phase c) in
       bm_insert name ((case bm_get counts name of None \<Rightarrow> 0 | Some n \<Rightarrow> n) + 1) counts)
       (bm_values (st_cells s)) []"

definition activation_backlog :: "core_state \<Rightarrow> nat" where
  "activation_backlog s = card (st_activation_permits s) + length (st_activation_waiters s)"

definition handoffs_in_flight :: "core_state \<Rightarrow> nat" where
  "handoffs_in_flight s =
     sat_add (sat_add (sat_add (card (st_quiescing_cells s)) (card (st_eviction_permits s)))
       (card (st_releasing_cells s))) (card (st_adopting_cells s))"

definition accepted_epoch :: "core_state \<Rightarrow> cell_id \<Rightarrow> epoch option" where
  "accepted_epoch s i =
     Option.bind (bm_get (st_cells s) i) (\<lambda>c. phase_owned_epoch (c_phase c))"

definition has_capacity :: "core_state \<Rightarrow> bool" where
  "has_capacity s = (st_occupied s < cf_max_resident (st_config s) \<and> \<not> st_shedding s)"

definition is_active :: "core_state \<Rightarrow> cell_id \<Rightarrow> bool" where
  "is_active s i =
     (bm_has (st_active_cells s) i \<or>
      (case bm_get (st_cells s) i of
         None \<Rightarrow> False
       | Some c \<Rightarrow> list_ex pins_cell (bm_values (c_websockets c))))"

definition runs_gate_source :: "core_state \<Rightarrow> cell_id \<Rightarrow> bool" where
  "runs_gate_source s i =
     (let active = (case bm_get (st_active_cells s) i of None \<Rightarrow> 0 | Some n \<Rightarrow> n);
          gates = (case bm_get (st_admitted_gate_cells s) i of None \<Rightarrow> 0 | Some n \<Rightarrow> n)
      in gates < active)"

definition is_hibernated :: "core_state \<Rightarrow> cell_id \<Rightarrow> bool" where
  "is_hibernated s i =
     (case bm_get (st_cells s) i of
        None \<Rightarrow> False
      | Some c \<Rightarrow>
          is_dormant (c_phase c)
          \<and> list_ex (\<lambda>k. k = Hibernatable) (bm_values (c_websockets c)))"

definition is_hibernatable :: "core_state \<Rightarrow> cell_id \<Rightarrow> bool" where
  "is_hibernatable s i =
     ((case bm_get (st_cells s) i of None \<Rightarrow> False | Some c \<Rightarrow> is_resident (c_phase c))
      \<and> \<not> is_active s i)"

definition hands_off :: "core_state \<Rightarrow> cell \<Rightarrow> bool" where
  "hands_off s c = (st_draining s \<or> c_handoff c)"

definition rebalances :: "core_state \<Rightarrow> bool" where
  "rebalances s = (cf_ownership_on_evict (st_config s) = ownership_on_evict.Release)"

definition eviction_ceiling :: "core_state \<Rightarrow> nat" where
  "eviction_ceiling s =
     (if st_draining s then max (cf_max_releases (st_config s)) (cf_max_evictions (st_config s))
      else cf_max_evictions (st_config s))"

definition alarm_is_imminent :: "core_state \<Rightarrow> cell \<Rightarrow> bool" where
  "alarm_is_imminent s c =
     (let imminent = (\<lambda>at_ms.
            0 \<le> at_ms \<and> nat at_ms - st_now_ms s \<le> cf_alarm_resident_ms (st_config s)) in
      case c_alarm c of
        Some (Armed at_ms _ _) \<Rightarrow> imminent at_ms
      | Some (Firing _ at_ms _ _ _) \<Rightarrow> imminent at_ms
      | None \<Rightarrow> False)"

definition QUEUE_RESERVED_CLASS :: string where
  "QUEUE_RESERVED_CLASS = ''__Queue''"

definition is_queue_broker :: "cell_id \<Rightarrow> bool" where
  "is_queue_broker i =
     (case split_once CHR '':'' i of None \<Rightarrow> False | Some (klass, _) \<Rightarrow> klass = QUEUE_RESERVED_CLASS)"

definition same_node_lease :: "node_lease_record \<Rightarrow> node_lease_record \<Rightarrow> bool" where
  "same_node_lease l r =
     (nl_node l = nl_node r \<and> nl_addr l = nl_addr r \<and> nl_expires_ms l = nl_expires_ms r
      \<and> nl_peer_protocol l = nl_peer_protocol r \<and> nl_generation l = nl_generation r
      \<and> nl_log_state l = nl_log_state r)"

section \<open>State changes\<close>

definition ends_ownership :: "phase \<Rightarrow> bool" where
  "ends_ownership p =
     (case p of
        Inactive \<Rightarrow> True
      | Remote _ _ _ _ _ \<Rightarrow> True
      | phase.Fenced \<Rightarrow> True
      | Adopting _ _ \<Rightarrow> True
      | _ \<Rightarrow> False)"

definition on_swap_path :: "phase \<Rightarrow> bool" where
  "on_swap_path p =
     (case p of
        Resident _ \<Rightarrow> True
      | Cleaning _ _ cause \<Rightarrow> cause = Swap
      | Starting _ _ \<Rightarrow> True
      | Publishing _ _ \<Rightarrow> True
      | _ \<Rightarrow> False)"

definition cell_with_phase :: "cell \<Rightarrow> phase \<Rightarrow> cell" where
  "cell_with_phase c p =
     (let c = (if is_resident p then c else c\<lparr>c_quiescing := False\<rparr>);
          c = (case phase_owned_epoch p of
                 Some epoch \<Rightarrow> c\<lparr>c_held_epoch := Some epoch\<rparr>
               | None \<Rightarrow> if ends_ownership p then c\<lparr>c_held_epoch := None\<rparr> else c);
          c = (if is_resident p then c\<lparr>c_proven_position := None\<rparr> else c);
          c = (if on_swap_path p then c else c\<lparr>c_swapping := False, c_swap_cancelled := False\<rparr>)
      in c\<lparr>c_phase := p\<rparr>)"

definition set_phase :: "cell \<Rightarrow> phase \<Rightarrow> cell core" where
  "set_phase c p = do {
     (if \<not> phase_occupies_capacity (c_phase c) \<and> phase_occupies_capacity p
      then upd (\<lambda>s. s\<lparr>st_occupied := st_occupied s + 1\<rparr>)
      else if phase_occupies_capacity (c_phase c) \<and> \<not> phase_occupies_capacity p
      then upd (\<lambda>s. s\<lparr>st_occupied := st_occupied s - 1\<rparr>)
      else skip);
     ret (cell_with_phase c p)
   }"

text \<open>The same on a cell that stays in the map (\<open>get_mut\<close>).\<close>

definition set_phase_of :: "cell_id \<Rightarrow> phase \<Rightarrow> unit core" where
  "set_phase_of i p = do {
     found \<leftarrow> get_cell i;
     case found of
       None \<Rightarrow> skip
     | Some c \<Rightarrow> do { c \<leftarrow> set_phase c p; put_cell i c }
   }"

definition fresh_op :: "op_id core" where
  "fresh_op = do {
     op \<leftarrow> look st_next_op;
     upd (\<lambda>s. s\<lparr>st_next_op := st_next_op s + 1\<rparr>);
     ret op
   }"

definition fresh_timer_generation :: "nat core" where
  "fresh_timer_generation = do {
     generation \<leftarrow> look st_next_timer_generation;
     upd (\<lambda>s. s\<lparr>st_next_timer_generation := st_next_timer_generation s + 1\<rparr>);
     ret generation
   }"

definition cell_op :: "cell_id \<Rightarrow> op_id core" where
  "cell_op i = do {
     op \<leftarrow> fresh_op;
     upd (\<lambda>s. s\<lparr>st_cell_ops := bm_insert op i (st_cell_ops s)\<rparr>);
     ret op
   }"

definition take_cell_op :: "op_id \<Rightarrow> (cell \<Rightarrow> bool) \<Rightarrow> cell_id option core" where
  "take_cell_op op p = do {
     found \<leftarrow> look (\<lambda>s.
       Option.bind (bm_get (st_cell_ops s) op) (\<lambda>i.
         Option.bind (bm_get (st_cells s) i) (\<lambda>c. if p c then Some i else None)));
     (case found of
        None \<Rightarrow> ret None
      | Some i \<Rightarrow> do {
          upd (\<lambda>s. s\<lparr>st_cell_ops := bm_remove op (st_cell_ops s)\<rparr>);
          ret (Some i)
        })
   }"

definition remove_cell_op :: "op_id \<Rightarrow> unit core" where
  "remove_cell_op op = upd (\<lambda>s. s\<lparr>st_cell_ops := bm_remove op (st_cell_ops s)\<rparr>)"

definition increment :: "'k::linorder \<Rightarrow> ('k, nat) bmap \<Rightarrow> ('k, nat) bmap" where
  "increment k m = bm_insert k ((case bm_get m k of None \<Rightarrow> 0 | Some n \<Rightarrow> n) + 1) m"

definition decrement :: "'k::linorder \<Rightarrow> ('k, nat) bmap \<Rightarrow> ('k, nat) bmap" where
  "decrement k m =
     (case bm_get m k of
        None \<Rightarrow> m
      | Some n \<Rightarrow> if n - 1 = 0 then bm_remove k m else bm_insert k (n - 1) m)"

definition activate_request :: "request_id \<Rightarrow> cell_id \<Rightarrow> unit core" where
  "activate_request request i =
     upd (\<lambda>s. s\<lparr>st_active_cells := increment i (st_active_cells s),
                st_active_requests := bm_insert request i (st_active_requests s)\<rparr>)"

definition deactivate_request :: "request_id \<Rightarrow> cell_id option core" where
  "deactivate_request request = do {
     found \<leftarrow> look (\<lambda>s. bm_get (st_active_requests s) request);
     (case found of
        None \<Rightarrow> ret None
      | Some i \<Rightarrow> do {
          upd (\<lambda>s. s\<lparr>st_active_requests := bm_remove request (st_active_requests s),
                     st_active_cells := decrement i (st_active_cells s)\<rparr>);
          gate \<leftarrow> look (\<lambda>s. request \<in> st_admitted_gates s);
          onlyif gate
            (upd (\<lambda>s. s\<lparr>st_admitted_gates := st_admitted_gates s - {request},
                        st_admitted_gate_cells := decrement i (st_admitted_gate_cells s)\<rparr>));
          ret (Some i)
        })
   }"

definition record_local_request :: "cell \<Rightarrow> request_id \<Rightarrow> nat \<Rightarrow> cell" where
  "record_local_request c request now_mono_ms =
     c\<lparr>c_last_used_mono_ms := now_mono_ms,
       c_last_used_request := max (c_last_used_request c) request,
       c_local_request_count := c_local_request_count c + 1\<rparr>"

definition modify_activity :: "(activity_snapshot \<Rightarrow> activity_snapshot) \<Rightarrow> unit core" where
  "modify_activity f = upd (\<lambda>s. s\<lparr>st_activity := f (st_activity s)\<rparr>)"

definition complete_request ::
  "cell_id \<Rightarrow> request_id \<Rightarrow> (route, request_error) result \<Rightarrow> unit core" where
  "complete_request i request result = do {
     upd (\<lambda>s. s\<lparr>st_capacity_requests := st_capacity_requests s - {request},
                st_handoff_requests := st_handoff_requests s - {request}\<rparr>);
     (case result of
        Ok Local \<Rightarrow> do {
          activate_request request i;
          now \<leftarrow> look st_now_mono_ms;
          modify_cell i (\<lambda>c. record_local_request c request now)
        }
      | Ok (route.Remote _ _ _ _) \<Rightarrow>
          modify_activity (\<lambda>a. a\<lparr>ac_proxied := sat_add (ac_proxied a) 1\<rparr>)
      | Err _ \<Rightarrow> skip);
     emit (Complete request result)
   }"

definition finish_requests ::
  "cell_id \<Rightarrow> cell \<Rightarrow> (route, request_error) result \<Rightarrow> cell core" where
  "finish_requests i c result =
     fold_act (\<lambda>request c. do {
       upd (\<lambda>s. s\<lparr>st_request_cells := bm_remove request (st_request_cells s)\<rparr>);
       now \<leftarrow> look st_now_mono_ms;
       complete_request i request result;
       ret (if result = Ok Local then record_local_request c request now else c)
     }) (sorted_list_of_set (c_requests c)) (c\<lparr>c_requests := {}\<rparr>)"

definition next_writer_epoch :: "cell_id \<Rightarrow> cell \<Rightarrow> epoch \<Rightarrow> (epoch option \<times> cell) core" where
  "next_writer_epoch i c previous =
     (case checked_add previous 1 of
        Some epoch \<Rightarrow> ret (Some epoch, c)
      | None \<Rightarrow> do {
          c \<leftarrow> set_phase c Inactive;
          c \<leftarrow> finish_requests i c (Err ResolveFailed);
          ret (None, c)
        })"

definition record_acquisition :: "restore_spec \<Rightarrow> unit core" where
  "record_acquisition spec = do {
     modify_activity (\<lambda>a. a\<lparr>ac_acquired := sat_add (ac_acquired a) 1\<rparr>);
     onlyif (rs_took_over spec)
       (modify_activity (\<lambda>a. a\<lparr>ac_expired_owner_leases := sat_add (ac_expired_owner_leases a) 1\<rparr>));
     onlyif (1 < rs_epoch spec)
       (modify_activity (\<lambda>a. a\<lparr>ac_advanced_epochs := sat_add (ac_advanced_epochs a) 1\<rparr>))
   }"

definition settle_confirmation :: "cell_id \<Rightarrow> unit core" where
  "settle_confirmation i = do {
     removed \<leftarrow> look (\<lambda>s. i \<in> st_confirming_cells s);
     upd (\<lambda>s. s\<lparr>st_confirming_cells := st_confirming_cells s - {i}\<rparr>);
     empty \<leftarrow> look (\<lambda>s. st_confirming_cells s = {});
     onlyif (removed \<and> empty) (upd (\<lambda>s. s\<lparr>st_confirming := False\<rparr>))
   }"

definition settle_local_resume :: "cell_id \<Rightarrow> unit core" where
  "settle_local_resume i = do {
     removed \<leftarrow> look (\<lambda>s. i \<in> st_resuming_cells s);
     upd (\<lambda>s. s\<lparr>st_resuming_cells := st_resuming_cells s - {i}\<rparr>);
     empty \<leftarrow> look (\<lambda>s. st_resuming_cells s = {});
     onlyif (removed \<and> empty) (upd (\<lambda>s. s\<lparr>st_resuming := False\<rparr>));
     modify_cell i (\<lambda>c. c\<lparr>c_resume_demand := False\<rparr>)
   }"

definition watch_queued :: "cell_id \<Rightarrow> cell \<Rightarrow> cell core" where
  "watch_queued i c = do {
     deadline \<leftarrow> look (\<lambda>s. cf_operation_deadline_ms (st_config s));
     (case deadline of
        None \<Rightarrow> ret c
      | Some deadline_ms \<Rightarrow> do {
          generation \<leftarrow> fresh_timer_generation;
          now \<leftarrow> look st_now_mono_ms;
          emit (ScheduleTimer (QueuedActivation i generation) (sat_add now deadline_ms));
          ret (c\<lparr>c_queued_generation := Some generation\<rparr>)
        })
   }"

end
