(* ===== verification/Validate.thy ===== *)
theory Validate
  imports CoreOps
begin

text \<open>
  \<open>State::validate\<close> (\<open>lib.rs\<close>), the consistency gate that a debug build runs after every event, one
  predicate per group of its checks. The source reports the first check that fails; \<open>validate\<close> is true
  exactly when none does.
\<close>

section \<open>Definitions\<close>

definition cell_satisfies :: "core_state \<Rightarrow> cell_id \<Rightarrow> (cell \<Rightarrow> bool) \<Rightarrow> bool" where
  "cell_satisfies s i p = (case bm_get (st_cells s) i of None \<Rightarrow> False | Some c \<Rightarrow> p c)"

definition waits_on_eviction :: "op_id \<Rightarrow> phase \<Rightarrow> bool" where
  "waits_on_eviction op p =
     (case p of
        EnsuringDurability current _ \<Rightarrow> current = op
      | Cleaning current _ cause \<Rightarrow>
          (case cause of stop_cause.Evict _ \<Rightarrow> current = op | _ \<Rightarrow> False)
      | _ \<Rightarrow> False)"

definition valid_ceilings :: "core_state \<Rightarrow> bool" where
  "valid_ceilings s =
     (st_occupied s \<le> cf_max_resident (st_config s)
      \<and> list_all (\<lambda>op. case bm_get (st_cell_ops s) op of
           None \<Rightarrow> False
         | Some i \<Rightarrow> cell_satisfies s i (\<lambda>c. waits_on_eviction op (c_phase c)))
         (bm_keys (st_eviction_notifications s))
      \<and> card (st_eviction_permits s) \<le> eviction_ceiling s
      \<and> (st_draining s \<longrightarrow> handoffs_in_flight s \<le> cf_max_releases (st_config s))
      \<and> card (st_activation_permits s) \<le> cf_max_activations (st_config s))"

definition valid_activation_queue :: "core_state \<Rightarrow> bool" where
  "valid_activation_queue s =
     (distinct (st_activation_waiters s)
      \<and> list_all (\<lambda>i.
           cell_satisfies s i (\<lambda>c.
             c_phase c = WaitingActivation \<and> c_waiting_activation c \<noteq> None)
           \<and> i \<notin> st_activation_permits s) (st_activation_waiters s)
      \<and> (\<forall>i\<in>st_activation_permits s.
           cell_satisfies s i (\<lambda>c. phase_holds_activation (c_phase c))))"

definition in_pipeline :: "cell \<Rightarrow> bool" where
  "in_pipeline c =
     (case c_phase c of
        Dormant _ \<Rightarrow> c_releasing c \<noteq> None
      | Adopting _ _ \<Rightarrow> True
      | _ \<Rightarrow> False)"

definition cells_where :: "core_state \<Rightarrow> (cell \<Rightarrow> bool) \<Rightarrow> cell_id set" where
  "cells_where s p = set (map fst (filter (\<lambda>(_, c). p c) (st_cells s)))"

definition owner_read_or_queued :: "phase \<Rightarrow> bool" where
  "owner_read_or_queued p =
     (case p of ReadingOwner _ \<Rightarrow> True | WaitingActivation \<Rightarrow> True | _ \<Rightarrow> False)"

definition valid_indexes :: "core_state \<Rightarrow> bool" where
  "valid_indexes s =
     (list_all (\<lambda>c. c_handoff c \<longrightarrow> in_pipeline c) (bm_values (st_cells s))
      \<and> cells_where s c_quiescing = st_quiescing_cells s
      \<and> cells_where s (\<lambda>c. c_releasing c \<noteq> None) = st_releasing_cells s
      \<and> cells_where s (\<lambda>c. is_adopting (c_phase c)) = st_adopting_cells s
      \<and> cells_where s c_confirming = st_confirming_cells s
      \<and> (\<forall>i\<in>st_confirming_cells s. cell_satisfies s i (\<lambda>c. owner_read_or_queued (c_phase c)))
      \<and> (\<not> st_confirming s \<longrightarrow> st_confirming_cells s = {})
      \<and> cells_where s c_resume_demand = st_resuming_cells s
      \<and> (\<not> st_resuming s \<longrightarrow> cells_where s c_resume_demand = {}))"

definition valid_capacity_queue :: "core_state \<Rightarrow> bool" where
  "valid_capacity_queue s =
     (distinct (st_capacity_waiters s)
      \<and> list_all (\<lambda>i.
           cell_satisfies s i (\<lambda>c. c_phase c = WaitingCapacity \<and> c_waiting_for c \<noteq> None))
         (st_capacity_waiters s))"

definition resume_phase :: "phase \<Rightarrow> bool" where
  "resume_phase p =
     (case p of
        WaitingActivation \<Rightarrow> True
      | WaitingCapacity \<Rightarrow> True
      | Restoring _ _ \<Rightarrow> True
      | Starting _ _ \<Rightarrow> True
      | Publishing _ _ \<Rightarrow> True
      | phase.Fenced \<Rightarrow> True
      | _ \<Rightarrow> False)"

definition valid_cell :: "core_state \<Rightarrow> cell_id \<times> cell \<Rightarrow> bool" where
  "valid_cell s = (\<lambda>(i, c).
     (c_resume_demand c \<longrightarrow> resume_phase (c_phase c))
     \<and> (c_quiescing c \<longrightarrow> is_resident (c_phase c))
     \<and> (c_swapping c \<longrightarrow> on_swap_path (c_phase c))
     \<and> (c_swap_cancelled c \<longrightarrow> c_swapping c)
     \<and> (c_phase c = WaitingActivation) = (i \<in> set (st_activation_waiters s))
     \<and> (phase_requires_activation_permit (c_phase c) (c_swapping c) \<longrightarrow> i \<in> st_activation_permits s)
     \<and> (c_phase c = WaitingCapacity) = (i \<in> set (st_capacity_waiters s))
     \<and> (\<forall>request\<in>c_requests c. bm_get (st_request_cells s) request = Some i)
     \<and> (case phase_op (c_phase c) of None \<Rightarrow> True | Some op \<Rightarrow> bm_get (st_cell_ops s) op = Some i)
     \<and> (case firing_op (c_alarm c) of None \<Rightarrow> True | Some op \<Rightarrow> bm_get (st_cell_ops s) op = Some i)
     \<and> (case c_releasing c of None \<Rightarrow> True | Some op \<Rightarrow> bm_get (st_cell_ops s) op = Some i))"

definition walked :: "core_state \<Rightarrow> nat" where
  "walked s = length (filter (\<lambda>c. phase_occupies_capacity (c_phase c)) (bm_values (st_cells s)))"

definition valid_operations :: "core_state \<Rightarrow> bool" where
  "valid_operations s =
     (list_all (\<lambda>(request, i). cell_satisfies s i (\<lambda>c. request \<in> c_requests c)) (st_request_cells s)
      \<and> list_all (\<lambda>(op, i). cell_satisfies s i (\<lambda>c.
           phase_op (c_phase c) = Some op \<or> c_releasing c = Some op
           \<or> firing_op (c_alarm c) = Some op)) (st_cell_ops s)
      \<and> (\<forall>op\<in>st_timed_out_runtime_starts s.
           case bm_get (st_cell_ops s) op of
             None \<Rightarrow> False
           | Some i \<Rightarrow> cell_satisfies s i (\<lambda>c.
               case c_phase c of Starting current _ \<Rightarrow> current = op | _ \<Rightarrow> False)))"

definition recount :: "cell_id list \<Rightarrow> (cell_id, nat) bmap" where
  "recount ids = fold increment ids []"

definition valid_activity :: "core_state \<Rightarrow> bool" where
  "valid_activity s =
     (recount (bm_values (st_active_requests s)) = st_active_cells s
      \<and> (\<forall>request\<in>st_admitted_gates s. bm_has (st_active_requests s) request)
      \<and> recount (List.map_filter (bm_get (st_active_requests s))
           (sorted_list_of_set (st_admitted_gates s))) = st_admitted_gate_cells s
      \<and> list_all (\<lambda>(request, i).
           \<not> bm_has (st_request_cells s) request
           \<and> cell_satisfies s i (\<lambda>c. as_published (c_phase c) \<noteq> None)) (st_active_requests s))"

definition held_outputs :: "barrier \<Rightarrow> held list" where
  "held_outputs b =
     (case b_owner b of gate_owner.Output h \<Rightarrow> h # b_followers b | _ \<Rightarrow> b_followers b)"

definition validate_held :: "core_state \<Rightarrow> barrier \<Rightarrow> held \<Rightarrow> bool" where
  "validate_held s b h = (bm_get (st_active_requests s) (hd_request h) = Some (b_cell b))"

text \<open>
  Every withheld output is pinned on its barrier's cell, and no pair of request and channel is withheld
  twice. \<open>Channel::as_str\<close> is injective, so the channel stands for its name.
\<close>

definition valid_barriers :: "core_state \<Rightarrow> bool" where
  "valid_barriers s =
     (list_all (\<lambda>b. list_all (validate_held s b) (held_outputs b)
        \<and> (case b_owner b of gate_owner.Alarm _ _ _ \<Rightarrow> bm_has (st_cells s) (b_cell b) | _ \<Rightarrow> True))
        (bm_values (st_barriers s))
      \<and> distinct (map (\<lambda>h. (hd_request h, hd_channel h))
          (concat (map held_outputs (bm_values (st_barriers s))))))"

definition valid_transport :: "cell \<Rightarrow> bool" where
  "valid_transport c =
     ((is_firing (c_alarm c) \<longrightarrow> is_resident (c_phase c))
      \<and> (list_ex pins_cell (bm_values (c_websockets c)) \<longrightarrow> as_published (c_phase c) \<noteq> None))"

definition validate :: "core_state \<Rightarrow> bool" where
  "validate s =
     (valid_ceilings s \<and> valid_activation_queue s \<and> valid_indexes s \<and> valid_capacity_queue s
      \<and> list_all (valid_cell s) (st_cells s) \<and> walked s = st_occupied s \<and> valid_operations s
      \<and> valid_activity s \<and> valid_barriers s \<and> list_all valid_transport (bm_values (st_cells s)))"

end
