(* ===== verification/CoreLogic.thy ===== *)
theory CoreLogic
  imports Validate
begin

text \<open>
  The proof calculus of the core. A triple \<open>tri P I m Q\<close> says that the computation \<open>m\<close>, run in a state
  that satisfies \<open>I\<close>, ends with a result and a state that satisfy \<open>Q\<close>, only moves the state forward
  (\<open>core_le\<close>), and appends only effects that satisfy \<open>P\<close>.

  \<open>core_inv\<close> is the invariant of the state between and inside events: the cell map is ordered, the
  occupancy counter is exact and within the residency ceiling, and both permit sets are within their
  ceilings. Its first argument names the cells that are out of the map and the weight the handler holds
  for them: a handler that has taken a cell out must account for it until it puts it back.

  The locale \<open>core_proof\<close> fixes the effects a handler may emit. Every handler is verified once inside it,
  in the theory that defines the handler.
\<close>

named_theorems core_ok \<open>triples of the handlers\<close>

section \<open>Definitions\<close>

definition occ :: "cell \<Rightarrow> nat" where
  "occ c = (if phase_occupies_capacity (c_phase c) then 1 else 0)"

definition occupancy :: "(cell_id, cell) bmap \<Rightarrow> nat" where
  "occupancy m = sum_list (map (\<lambda>(_, c). occ c) m)"

text \<open>
  The effects that acknowledge, an output released or an export proven, and the ownership read that
  lets a bucket proof acknowledge.
\<close>

definition acked :: "effect \<Rightarrow> bool" where
  "acked e =
     (case e of
        effect.Release _ _ result \<Rightarrow> is_ok result
      | ExportProven _ _ _ result \<Rightarrow> is_ok result
      | VerifyOwnership _ _ _ \<Rightarrow> True
      | _ \<Rightarrow> False)"

text \<open>
  What a computation may do beside the invariant: the effects it may emit, and how it may move the
  authority of the node.
\<close>

type_synonym permission = "(effect \<Rightarrow> bool) \<times> (node_authority \<Rightarrow> node_authority \<Rightarrow> bool)"

abbreviation emits :: "permission \<Rightarrow> effect \<Rightarrow> bool" where
  "emits \<equiv> fst"

abbreviation moves :: "permission \<Rightarrow> node_authority \<Rightarrow> node_authority \<Rightarrow> bool" where
  "moves \<equiv> snd"

abbreviation anything :: permission where
  "anything \<equiv> (\<lambda>_. True, \<lambda>_ _. True)"

definition core_le :: "permission \<Rightarrow> core_state \<times> effect list \<Rightarrow> core_state \<times> effect list \<Rightarrow> bool" where
  "core_le P a b =
     (st_node (fst b) = st_node (fst a) \<and> st_config (fst b) = st_config (fst a)
      \<and> (st_fenced (fst a) \<longrightarrow> st_fenced (fst b)) \<and> (st_draining (fst a) \<longrightarrow> st_draining (fst b))
      \<and> st_next_op (fst a) \<le> st_next_op (fst b)
      \<and> st_next_timer_generation (fst a) \<le> st_next_timer_generation (fst b)
      \<and> st_now_ms (fst a) \<le> st_now_ms (fst b) \<and> st_now_mono_ms (fst a) \<le> st_now_mono_ms (fst b)
      \<and> st_current_generation (fst a) \<le> st_current_generation (fst b)
      \<and> (moves P)\<^sup>*\<^sup>* (st_node_authority (fst a)) (st_node_authority (fst b))
      \<and> emits_only (emits P) a b)"

type_synonym held_cell = "cell_id set \<times> nat"

abbreviation none_held :: held_cell where
  "none_held \<equiv> ({}, 0)"

definition held_weight :: "held_cell \<Rightarrow> nat" where
  "held_weight h = snd h"

definition held_absent :: "held_cell \<Rightarrow> (cell_id, cell) bmap \<Rightarrow> bool" where
  "held_absent h m = (\<forall>i\<in>fst h. bm_get m i = None)"

definition core_inv :: "held_cell \<Rightarrow> core_state \<Rightarrow> bool" where
  "core_inv h s =
     (bm_ok (st_cells s) \<and> held_absent h (st_cells s)
      \<and> st_occupied s = walked s + held_weight h
      \<and> st_occupied s \<le> cf_max_resident (st_config s)
      \<and> finite (st_activation_permits s)
      \<and> card (st_activation_permits s) \<le> cf_max_activations (st_config s)
      \<and> finite (st_eviction_permits s) \<and> card (st_eviction_permits s) \<le> eviction_ceiling s)"

definition tri ::
  "permission \<Rightarrow> (core_state \<Rightarrow> bool) \<Rightarrow> 'a core \<Rightarrow> ('a \<Rightarrow> core_state \<Rightarrow> bool) \<Rightarrow> bool" where
  "tri P I m Q =
     (\<forall>s es. I s \<longrightarrow>
        (case run_state m (s, es) of
           (x, c) \<Rightarrow> Q x (fst c) \<and> core_le P (s, es) c))"

section \<open>Occupancy\<close>

lemma occupancy_simps [simp]:
  "occupancy [] = 0" "occupancy ((i, c) # m) = occ c + occupancy m"
  by (simp_all add: occupancy_def)

lemma occupancy_filter:
  "length (filter (\<lambda>c. phase_occupies_capacity (c_phase c)) (map snd m)) = occupancy m"
  by (induction m) (auto simp: occ_def)

lemma walked_occupancy: "walked s = occupancy (st_cells s)"
  unfolding walked_def bm_values_def by (rule occupancy_filter)

lemma bm_get_less: "bm_ok ((k, v) # m) \<Longrightarrow> i \<le> k \<Longrightarrow> bm_get m i = None"
  by (force simp: bm_ok_Cons map_of_eq_None_iff)

lemma occupancy_insert:
  "bm_ok m \<Longrightarrow>
   occupancy (bm_insert i c m) + (case bm_get m i of None \<Rightarrow> 0 | Some c0 \<Rightarrow> occ c0) =
   occupancy m + occ c"
proof (induction m)
  case (Cons kv m)
  obtain k v where kv: "kv = (k, v)" by (cases kv)
  have "bm_ok m" using Cons.prems by (simp add: kv bm_ok_Cons)
  then show ?case
    using Cons.IH Cons.prems bm_get_less [of k v m i]
    by (auto simp: kv split: if_splits)
qed simp

lemma occupancy_remove:
  "bm_ok m \<Longrightarrow>
   occupancy (bm_remove i m) + (case bm_get m i of None \<Rightarrow> 0 | Some c0 \<Rightarrow> occ c0) = occupancy m"
proof (induction m)
  case (Cons kv m)
  obtain k v where kv: "kv = (k, v)" by (cases kv)
  have "bm_ok m" using Cons.prems by (simp add: kv bm_ok_Cons)
  then show ?case
    using Cons.IH Cons.prems bm_get_less [of k v m i]
    by (auto simp: kv bm_remove_def split: if_splits)
qed (simp add: bm_remove_def)

lemma occupancy_modify:
  assumes "bm_ok m" and "\<And>c. occ (f c) = occ c"
  shows "occupancy (bm_modify i f m) = occupancy m"
  using occupancy_insert [OF assms(1), of i] assms(2)
  by (simp add: bm_modify_def split: option.split) (metis add_right_cancel option.simps(5))

lemma held_absent_insert:
  "held_absent h m \<Longrightarrow> bm_get m i \<noteq> None \<Longrightarrow> held_absent h (bm_insert i c m)"
  by (auto simp: held_absent_def bm.lookup_insert split: option.splits)

lemma held_absent_modify: "held_absent h m \<Longrightarrow> held_absent h (bm_modify i f m)"
  by (auto simp: held_absent_def bm_get_modify split: option.splits)

lemma held_simps [simp]:
  "held_weight (A, n) = n" "held_absent (A, n) m = (\<forall>i\<in>A. bm_get m i = None)"
  by (simp_all add: held_weight_def held_absent_def)

section \<open>Triples\<close>

lemma core_le_refl [simp]: "core_le P a a"
  by (simp add: core_le_def emits_only_def)

lemma core_le_trans: "core_le P a b \<Longrightarrow> core_le P b c \<Longrightarrow> core_le P a c"
  using em.trans [of "emits P" a b c] by (auto simp: core_le_def)

lemma tri_bind:
  assumes "tri P I m Q" and "\<And>x. tri P (Q x) (f x) R"
  shows "tri P I (State_Monad.bind m f) R"
  unfolding tri_def
proof (intro allI impI)
  fix s es
  assume "I s"
  obtain x s' es' where m: "run_state m (s, es) = (x, (s', es'))" by (metis prod.collapse)
  have "Q x s' \<and> core_le P (s, es) (s', es')"
    using assms(1) \<open>I s\<close> m unfolding tri_def by (metis (no_types, lifting) fst_conv prod.simps(2))
  moreover obtain y c where f: "run_state (f x) (s', es') = (y, c)" by (metis prod.collapse)
  ultimately have "R y (fst c) \<and> core_le P (s', es') c"
    using assms(2) [of x] unfolding tri_def by (metis (no_types, lifting) prod.simps(2))
  with \<open>Q x s' \<and> _\<close> have "R y (fst c) \<and> core_le P (s, es) c" using core_le_trans by blast
  then show "case run_state (State_Monad.bind m f) (s, es) of
      (x, c) \<Rightarrow> R x (fst c) \<and> core_le P (s, es) c"
    using m f by simp
qed

lemma tri_pre: "tri P I m Q \<Longrightarrow> (\<And>s. I' s \<Longrightarrow> I s) \<Longrightarrow> tri P I' m Q"
  by (auto simp: tri_def)

lemma tri_post: "tri P I m Q \<Longrightarrow> (\<And>x s. Q x s \<Longrightarrow> Q' x s) \<Longrightarrow> tri P I m Q'"
  unfolding tri_def by (fastforce split: prod.splits)

lemma tri_pure: "(A \<Longrightarrow> tri P I m Q) \<Longrightarrow> tri P (\<lambda>s. A \<and> I s) m Q"
  by (simp add: tri_def)

lemma tri_absurd: "(\<And>s. \<not> I s) \<Longrightarrow> tri P I m Q"
  by (simp add: tri_def)

lemma tri_look: "tri P I (look f) (\<lambda>x s. I s \<and> x = f s)"
  by (simp add: tri_def)

lemma tri_same_look: "tri P I (look f) (\<lambda>_. I)"
  by (simp add: tri_def)

lemma tri_same_bind:
  "tri P I m (\<lambda>_. I) \<Longrightarrow> (\<And>x. tri P I (f x) Q) \<Longrightarrow> tri P I (State_Monad.bind m f) Q"
  by (rule tri_bind)

lemma tri_ret: "(\<And>s. I s \<Longrightarrow> Q x s) \<Longrightarrow> tri P I (ret x) Q"
  by (simp add: tri_def)

lemma tri_skip: "(\<And>s. I s \<Longrightarrow> Q () s) \<Longrightarrow> tri P I skip Q"
  by (simp add: tri_def)

lemma tri_if: "(b \<Longrightarrow> tri P I m Q) \<Longrightarrow> (\<not> b \<Longrightarrow> tri P I m' Q) \<Longrightarrow> tri P I (if b then m else m') Q"
  by simp

lemma tri_onlyif:
  "(b \<Longrightarrow> tri P I m Q) \<Longrightarrow> (\<And>s. \<not> b \<Longrightarrow> I s \<Longrightarrow> Q () s) \<Longrightarrow> tri P I (onlyif b m) Q"
  by (simp add: onlyif_def tri_skip)

lemma tri_option:
  "(x = None \<Longrightarrow> tri P I m Q) \<Longrightarrow> (\<And>y. x = Some y \<Longrightarrow> tri P I (f y) Q) \<Longrightarrow>
   tri P I (case x of None \<Rightarrow> m | Some y \<Rightarrow> f y) Q"
  by (simp split: option.split)

lemma tri_result:
  "(\<And>y. x = Ok y \<Longrightarrow> tri P I (f y) Q) \<Longrightarrow> (\<And>y. x = Err y \<Longrightarrow> tri P I (g y) Q) \<Longrightarrow>
   tri P I (case x of Ok y \<Rightarrow> f y | Err y \<Rightarrow> g y) Q"
  by (simp split: result.split)

lemma tri_route:
  "(x = Local \<Longrightarrow> tri P I m Q) \<Longrightarrow>
   (\<And>node addr epoch protocol. x = route.Remote node addr epoch protocol \<Longrightarrow>
     tri P I (f node addr epoch protocol) Q) \<Longrightarrow>
   tri P I (case x of Local \<Rightarrow> m | route.Remote node addr epoch protocol \<Rightarrow> f node addr epoch protocol) Q"
  by (simp split: route.split)

lemma tri_owner:
  "(\<And>h. x = gate_owner.Output h \<Longrightarrow> tri P I (f h) Q) \<Longrightarrow>
   (\<And>op snapshot covered. x = gate_owner.Alarm op snapshot covered \<Longrightarrow> tri P I (g op snapshot covered) Q) \<Longrightarrow>
   (\<And>ticket. x = Export ticket \<Longrightarrow> tri P I (k ticket) Q) \<Longrightarrow>
   tri P I
     (case x of
        gate_owner.Output h \<Rightarrow> f h
      | gate_owner.Alarm op snapshot covered \<Rightarrow> g op snapshot covered
      | Export ticket \<Rightarrow> k ticket) Q"
  by (simp split: gate_owner.split)

lemma tri_prod: "(\<And>y z. x = (y, z) \<Longrightarrow> tri P I (f y z) Q) \<Longrightarrow> tri P I (case x of (y, z) \<Rightarrow> f y z) Q"
  by (simp split: prod.split)

lemma tri_let: "(\<And>y. y = x \<Longrightarrow> tri P I (f y) Q) \<Longrightarrow> tri P I (Let x f) Q"
  by simp

lemma tri_for_each: "(\<And>x. x \<in> set xs \<Longrightarrow> tri P I (f x) (\<lambda>_. I)) \<Longrightarrow> tri P I (for_each xs f) (\<lambda>_. I)"
  by (induction xs) (auto intro: tri_bind tri_skip)

lemma tri_upd:
  assumes "\<And>s. I s \<Longrightarrow> Q () (f s)" and "\<And>s. I s \<Longrightarrow> core_le P (s, []) (f s, [])"
  shows "tri P I (upd f) Q"
  using assms by (simp add: tri_def core_le_def emits_only_def)

lemma tri_emit: "emits P e \<Longrightarrow> (\<And>s. I s \<Longrightarrow> Q () s) \<Longrightarrow> tri P I (emit e) Q"
  by (simp add: tri_def core_le_def emits_only_def)

lemma tri_bind_captured:
  assumes "tri P I m R" and "\<And>x new. (\<And>e. e \<in> set new \<Longrightarrow> emits P e) \<Longrightarrow> tri P (R x) (f x new) Q"
  shows "tri P I (State_Monad.bind (captured m) (\<lambda>(x, new). f x new)) Q"
proof -
  have m: "R x s' \<and> core_le P (s, es) (s', es) \<and> (\<forall>e\<in>set new. emits P e)"
    if "I s" "run_state m (s, []) = (x, (s', new))" for s es x s' new
    using assms(1) that unfolding tri_def
    by (fastforce simp: core_le_def emits_only_def split: prod.splits)
  show ?thesis
    unfolding tri_def
  proof (intro allI impI)
    fix s es
    assume "I s"
    obtain x s' new where r: "run_state m (s, []) = (x, (s', new))" by (metis prod.collapse)
    obtain y c where f: "run_state (f x new) (s', es) = (y, c)" by (metis prod.collapse)
    have "Q y (fst c) \<and> core_le P (s', es) c"
      using assms(2) [of new x] m [OF \<open>I s\<close> r] f unfolding tri_def
      by (metis (no_types, lifting) prod.simps(2))
    then show "case run_state (State_Monad.bind (captured m) (\<lambda>(x, new). f x new)) (s, es) of
        (x, c) \<Rightarrow> Q x (fst c) \<and> core_le P (s, es) c"
      using m [OF \<open>I s\<close> r, of es] r f core_le_trans [of P "(s, es)" "(s', es)" c] by simp
  qed
qed

lemma tri_emit_all: "(\<And>e. e \<in> set new \<Longrightarrow> emits P e) \<Longrightarrow> (\<And>s. I s \<Longrightarrow> Q () s) \<Longrightarrow> tri P I (emit_all new) Q"
  by (simp add: tri_def core_le_def emits_only_def)

lemma tri_fold_act:
  "(\<And>x c. x \<in> set xs \<Longrightarrow> tri P (J c) (f x c) J) \<Longrightarrow> tri P (J c) (fold_act f xs c) J"
  by (induction xs arbitrary: c) (auto intro: tri_bind tri_ret)

lemma tri_conj:
  assumes "tri P I m Q" and "tri anything J m R"
  shows "tri P (\<lambda>s. I s \<and> J s) m (\<lambda>x s. Q x s \<and> R x s)"
  using assms unfolding tri_def by (fastforce split: prod.splits)

section \<open>Steps that touch neither a cell nor a ceiling\<close>

definition benign :: "core_state \<Rightarrow> core_state \<Rightarrow> bool" where
  "benign s s' =
     (st_cells s' = st_cells s \<and> st_occupied s' = st_occupied s
      \<and> st_node s' = st_node s \<and> st_config s' = st_config s
      \<and> (st_fenced s \<longrightarrow> st_fenced s') \<and> (st_draining s \<longrightarrow> st_draining s')
      \<and> st_next_op s \<le> st_next_op s' \<and> st_next_timer_generation s \<le> st_next_timer_generation s'
      \<and> st_now_ms s \<le> st_now_ms s' \<and> st_now_mono_ms s \<le> st_now_mono_ms s'
      \<and> st_current_generation s \<le> st_current_generation s'
      \<and> st_node_authority s' = st_node_authority s
      \<and> st_activation_permits s' \<subseteq> st_activation_permits s
      \<and> st_eviction_permits s' \<subseteq> st_eviction_permits s)"

lemma eviction_ceiling_mono:
  "st_config s' = st_config s \<Longrightarrow> (st_draining s \<longrightarrow> st_draining s') \<Longrightarrow>
   eviction_ceiling s \<le> eviction_ceiling s'"
  by (simp add: eviction_ceiling_def)

lemma eviction_ceiling_cells [simp]:
  "eviction_ceiling (s\<lparr>st_cells := m\<rparr>) = eviction_ceiling s"
  "eviction_ceiling (s\<lparr>st_occupied := n\<rparr>) = eviction_ceiling s"
  by (simp_all add: eviction_ceiling_def)

lemma benign_inv:
  assumes "benign s s'" and "core_inv h s"
  shows "core_inv h s'"
proof -
  have "card (st_activation_permits s') \<le> card (st_activation_permits s)"
    and "card (st_eviction_permits s') \<le> card (st_eviction_permits s)"
    and "finite (st_activation_permits s')" and "finite (st_eviction_permits s')"
    using assms by (auto simp: benign_def core_inv_def intro: card_mono finite_subset)
  then show ?thesis
    using assms eviction_ceiling_mono [of s' s]
    by (auto simp: benign_def core_inv_def walked_occupancy)
qed

lemma benign_le: "benign s s' \<Longrightarrow> core_le P (s, []) (s', [])"
  by (auto simp: benign_def core_le_def emits_only_def)

section \<open>The calculus on the invariant\<close>

lemma inv_bind_cell:
  fixes m :: "cell core"
  assumes "tri P (core_inv (A, n)) m (\<lambda>c. core_inv (A, occ c))"
    and "\<And>c. tri P (core_inv (A, occ c)) (f c) Q"
  shows "tri P (core_inv (A, n)) (State_Monad.bind m f) Q"
  using assms by (rule tri_bind)

lemma inv_bind_pair:
  fixes m :: "('a \<times> cell) core"
  assumes "tri P (core_inv (A, n)) m (\<lambda>x. core_inv (A, occ (snd x)))"
    and "\<And>y c. tri P (core_inv (A, occ c)) (f y c) Q"
  shows "tri P (core_inv (A, n)) (State_Monad.bind m (\<lambda>(y, c). f y c)) Q"
  using assms(1) by (rule tri_bind) (auto split: prod.split intro: assms(2))

lemma inv_bind:
  assumes "tri P (core_inv h) m (\<lambda>_. core_inv h)" and "\<And>x. tri P (core_inv h) (f x) Q"
  shows "tri P (core_inv h) (State_Monad.bind m f) Q"
  using assms by (rule tri_bind)

lemma inv_look: "tri P (core_inv h) (look f) (\<lambda>_. core_inv h)"
  by (simp add: tri_def)

lemma inv_skip: "tri P (core_inv h) skip (\<lambda>_. core_inv h)"
  by (simp add: tri_def)

lemma inv_weaken: "core_inv (A, 0) s \<Longrightarrow> core_inv none_held s"
  by (simp add: core_inv_def held_weight_def held_absent_def)

lemma inv_skip_none: "tri P (core_inv (A, 0)) skip (\<lambda>_. core_inv none_held)"
  by (rule tri_skip) (rule inv_weaken)

lemma inv_ret_cell:
  "n = occ c \<Longrightarrow> tri P (core_inv (A, n)) (ret c) (\<lambda>c. core_inv (A, occ c))"
  by (simp add: tri_def)

lemma inv_ret_pair:
  "n = occ c \<Longrightarrow> tri P (core_inv (A, n)) (ret (y, c)) (\<lambda>x. core_inv (A, occ (snd x)))"
  by (simp add: tri_def)

lemma inv_ret: "tri P (core_inv h) (ret x) (\<lambda>_. core_inv h)"
  by (simp add: tri_def)

lemma inv_onlyif:
  "(b \<Longrightarrow> tri P (core_inv h) m (\<lambda>_. core_inv h)) \<Longrightarrow>
   tri P (core_inv h) (onlyif b m) (\<lambda>_. core_inv h)"
  by (rule tri_onlyif)

lemma inv_upd: "(\<And>s. benign s (f s)) \<Longrightarrow> tri P (core_inv h) (upd f) (\<lambda>_. core_inv h)"
  by (rule tri_upd) (blast intro: benign_inv benign_le)+

lemma inv_emit: "emits P e \<Longrightarrow> tri P (core_inv h) (emit e) (\<lambda>_. core_inv h)"
  by (rule tri_emit)

lemma inv_emit_all:
  "(\<And>e. e \<in> set new \<Longrightarrow> emits P e) \<Longrightarrow> tri P (core_inv h) (emit_all new) (\<lambda>_. core_inv h)"
  by (rule tri_emit_all)

lemma inv_for_each:
  "(\<And>x. x \<in> set xs \<Longrightarrow> tri P (core_inv h) (f x) (\<lambda>_. core_inv h)) \<Longrightarrow>
   tri P (core_inv h) (for_each xs f) (\<lambda>_. core_inv h)"
  by (rule tri_for_each)

lemma inv_fold_cell:
  fixes c :: cell
  assumes "n = occ c"
    and "\<And>x c. x \<in> set xs \<Longrightarrow>
      tri P (core_inv (A, occ c)) (f x c) (\<lambda>c. core_inv (A, occ c))"
  shows "tri P (core_inv (A, n)) (fold_act f xs c) (\<lambda>c. core_inv (A, occ c))"
  unfolding assms(1) by (rule tri_fold_act) (rule assms(2))

subsection \<open>Cells\<close>

lemma inv_modify_cell:
  assumes "\<And>c. occ (f c) = occ c"
  shows "tri P (core_inv h) (modify_cell i f) (\<lambda>_. core_inv h)"
  unfolding modify_cell_def
proof (rule tri_upd)
  fix s
  assume "core_inv h s"
  then show "core_inv h (s\<lparr>st_cells := bm_modify i f (st_cells s)\<rparr>)"
    by (simp add: core_inv_def walked_occupancy occupancy_modify assms held_absent_modify)
qed (simp add: core_le_def emits_only_def)

lemma inv_get_cell: "tri P (core_inv h) (get_cell i) (\<lambda>_. core_inv h)"
  by (simp add: get_cell_def inv_look)

lemma inv_put_held:
  assumes "n = occ c" and "i \<in> A"
  shows "tri P (core_inv (A, n)) (put_cell i c) (\<lambda>_. core_inv (A - {i}, 0))"
  unfolding put_cell_def
proof (rule tri_upd)
  fix s
  assume inv: "core_inv (A, n) s"
  then have "occupancy (bm_insert i c (st_cells s)) = occupancy (st_cells s) + n"
    using occupancy_insert [of "st_cells s" i c] assms by (simp add: core_inv_def)
  with inv show "core_inv (A - {i}, 0) (s\<lparr>st_cells := bm_insert i c (st_cells s)\<rparr>)"
    by (simp add: core_inv_def walked_occupancy bm.lookup_insert)
qed (simp add: core_le_def emits_only_def)

lemma inv_put_cell: "n = occ c \<Longrightarrow> tri P (core_inv ({i}, n)) (put_cell i c) (\<lambda>_. core_inv none_held)"
  using inv_put_held [of n c i "{i}"] by simp

lemma inv_hold: "core_inv none_held s \<Longrightarrow> bm_get (st_cells s) i = None \<Longrightarrow> core_inv ({i}, 0) s"
  by (simp add: core_inv_def)

lemma inv_bind_put:
  assumes "n = occ c" and "tri P (core_inv none_held) (f ()) Q"
  shows "tri P (core_inv ({i}, n)) (State_Monad.bind (put_cell i c) f) Q"
  by (rule tri_bind [OF inv_put_cell [OF assms(1)]]) (simp add: assms(2))

lemma inv_take_cell:
  "tri P (core_inv none_held) (take_cell i)
     (\<lambda>r. core_inv ({i}, case r of None \<Rightarrow> 0 | Some c \<Rightarrow> occ c))"
proof -
  have "core_inv ({i}, case bm_get (st_cells s) i of None \<Rightarrow> 0 | Some c \<Rightarrow> occ c)
          (s\<lparr>st_cells := bm_remove i (st_cells s)\<rparr>)" if "core_inv none_held s" for s
    using that occupancy_remove [of "st_cells s" i]
    by (simp add: core_inv_def walked_occupancy held_weight_def held_absent_def)
  then show ?thesis
    by (simp add: tri_def take_cell_def get_cell_def core_le_def emits_only_def)
qed

lemma inv_bind_take:
  assumes "\<And>r. tri P (core_inv ({i}, case r of None \<Rightarrow> 0 | Some c \<Rightarrow> occ c)) (f r) Q"
  shows "tri P (core_inv none_held) (State_Monad.bind (take_cell i) f) Q"
  by (rule tri_bind [OF inv_take_cell]) (rule assms)

lemma inv_bind_take_case:
  assumes "tri P (core_inv ({i}, 0)) m Q" and "\<And>c. tri P (core_inv ({i}, occ c)) (g c) Q"
  shows "tri P (core_inv none_held)
    (State_Monad.bind (take_cell i) (\<lambda>r. case r of None \<Rightarrow> m | Some c \<Rightarrow> g c)) Q"
  by (rule inv_bind_take) (auto split: option.split intro: assms)

lemma inv_bind_take_default:
  assumes "\<And>r. tri P (core_inv ({i}, occ (case r of None \<Rightarrow> cell_default | Some c \<Rightarrow> c))) (f r) Q"
  shows "tri P (core_inv none_held) (State_Monad.bind (take_cell i) f) Q"
proof (rule inv_bind_take)
  have "occ cell_default = 0" by (simp add: occ_def cell_default_def phase_occupies_capacity_def)
  then show "tri P (core_inv ({i}, case r of None \<Rightarrow> 0 | Some c \<Rightarrow> occ c)) (f r) Q" for r
    using assms [of r] by (cases r) simp_all
qed

lemma inv_bind_take_then:
  assumes "tri P (core_inv ({i}, 0)) m (\<lambda>_. core_inv none_held)"
    and "\<And>c. tri P (core_inv ({i}, occ c)) (g c) (\<lambda>_. core_inv none_held)"
    and "\<And>x. tri P (core_inv none_held) (f x) Q"
  shows "tri P (core_inv none_held)
    (State_Monad.bind (take_cell i)
      (\<lambda>r. State_Monad.bind (case r of None \<Rightarrow> m | Some c \<Rightarrow> g c) f)) Q"
  by (rule inv_bind_take, rule tri_bind) (auto split: option.split intro: assms)

subsection \<open>Phases\<close>

lemma phase_of_cell_with_phase [simp]: "c_phase (cell_with_phase c p) = p"
  by (simp add: cell_with_phase_def Let_def)

lemma occ_cell_with_phase [simp]:
  "occ (cell_with_phase c p) = (if phase_occupies_capacity p then 1 else 0)"
  by (simp add: occ_def)

lemma inv_set_phase:
  assumes "n = occ c" and "phase_occupies_capacity p \<Longrightarrow> phase_occupies_capacity (c_phase c)"
  shows "tri P (core_inv (A, n)) (set_phase c p) (\<lambda>c. core_inv (A, occ c))"
proof -
  have "core_inv (A, 0) (s\<lparr>st_occupied := st_occupied s - Suc 0\<rparr>)"
    if "core_inv (A, Suc 0) s" for s
    using that by (simp add: core_inv_def walked_occupancy held_weight_def)
  then show ?thesis
    using assms by (auto simp: tri_def set_phase_def occ_def core_le_def emits_only_def)
qed

text \<open>The phase change that needs room: the caller knows that the ceiling is not reached.\<close>

lemma inv_set_phase_room:
  assumes "n = occ c"
  shows "tri P (\<lambda>s. core_inv (A, n) s \<and> st_occupied s < cf_max_resident (st_config s))
    (set_phase c p) (\<lambda>c. core_inv (A, occ c))"
proof -
  have "core_inv (A, 0) (s\<lparr>st_occupied := st_occupied s - Suc 0\<rparr>)"
    if "core_inv (A, Suc 0) s" for s
    using that by (simp add: core_inv_def walked_occupancy held_weight_def)
  moreover have "core_inv (A, Suc 0) (s\<lparr>st_occupied := Suc (st_occupied s)\<rparr>)"
    if "core_inv (A, 0) s" and "st_occupied s < cf_max_resident (st_config s)" for s
    using that by (simp add: core_inv_def walked_occupancy held_weight_def)
  ultimately show ?thesis
    using assms by (auto simp: tri_def set_phase_def occ_def core_le_def emits_only_def)
qed

text \<open>A phase change of a cell that stays in the map.\<close>

lemma inv_replace:
  assumes inv: "core_inv h s" and c0: "bm_get (st_cells s) i = Some c0"
    and occupied: "n + occ c0 = st_occupied s + occ c" and room: "n \<le> cf_max_resident (st_config s)"
  shows "core_inv h (s\<lparr>st_occupied := n, st_cells := bm_insert i c (st_cells s)\<rparr>)"
proof -
  have "occupancy (bm_insert i c (st_cells s)) + occ c0 = occupancy (st_cells s) + occ c"
    using occupancy_insert [of "st_cells s" i c] inv c0 by (simp add: core_inv_def)
  then show ?thesis
    using inv c0 occupied room held_absent_insert [of h "st_cells s" i c]
    by (auto simp: core_inv_def walked_occupancy)
qed

lemma inv_put_present:
  assumes "core_inv h s" and "bm_get (st_cells s) i = Some c0" and "occ c = occ c0"
    and "st_cells s' = bm_insert i c (st_cells s)" and "st_occupied s' = st_occupied s"
    and "st_config s' = st_config s" and "st_draining s' = st_draining s"
    and "st_activation_permits s' = st_activation_permits s"
    and "finite (st_eviction_permits s')" and "card (st_eviction_permits s') \<le> eviction_ceiling s"
  shows "core_inv h s'"
proof -
  have "eviction_ceiling s' = eviction_ceiling s" using assms by (simp add: eviction_ceiling_def)
  moreover have "core_inv h (s\<lparr>st_occupied := st_occupied s, st_cells := bm_insert i c (st_cells s)\<rparr>)"
    using assms by (intro inv_replace) (auto simp: core_inv_def)
  ultimately show ?thesis using assms by (simp add: core_inv_def walked_occupancy)
qed

text \<open>A cell that is looked up, changed and written back while it stays in the map.\<close>

definition with_cell :: "held_cell \<Rightarrow> cell_id \<Rightarrow> cell \<Rightarrow> core_state \<Rightarrow> bool" where
  "with_cell h i c s = (core_inv h s \<and> bm_get (st_cells s) i = Some c)"

lemma with_bind_get_case:
  assumes "tri P (core_inv h) m Q" and "\<And>c. tri P (with_cell h i c) (g c) Q"
  shows "tri P (core_inv h)
    (State_Monad.bind (get_cell i) (\<lambda>r. case r of None \<Rightarrow> m | Some c \<Rightarrow> g c)) Q"
  unfolding get_cell_def
proof (rule tri_bind [OF tri_look])
  show "tri P (\<lambda>s. core_inv h s \<and> r = bm_get (st_cells s) i) (case r of None \<Rightarrow> m | Some c \<Rightarrow> g c) Q" for r
    using assms(1) assms(2) [of "the r"]
    by (auto split: option.split intro: tri_pre simp: with_cell_def)
qed

lemma with_put:
  assumes "occ c' = occ c"
  shows "tri P (with_cell h i c) (put_cell i c') (\<lambda>_. core_inv h)"
proof -
  have "core_inv h (s\<lparr>st_cells := bm_insert i c' (st_cells s)\<rparr>)" if "with_cell h i c s" for s
    by (rule inv_put_present [of h s i c c']) (use that assms(1) in \<open>simp_all add: with_cell_def core_inv_def\<close>)
  then show ?thesis
    unfolding put_cell_def by (rule tri_upd) (simp_all add: core_le_def emits_only_def)
qed

lemma with_bind_put:
  assumes "occ c' = occ c" and "tri P (core_inv h) (f ()) Q"
  shows "tri P (with_cell h i c) (State_Monad.bind (put_cell i c') f) Q"
  by (rule tri_bind [OF with_put [OF assms(1)]]) (simp add: assms(2))

lemma with_upd: "(\<And>s. benign s (f s)) \<Longrightarrow> tri P (with_cell h i c) (upd f) (\<lambda>_. with_cell h i c)"
proof (rule tri_upd)
  assume f: "\<And>s. benign s (f s)"
  have "st_cells (f s) = st_cells s" for s using f [of s] by (simp add: benign_def)
  then show "with_cell h i c (f s)" if "with_cell h i c s" for s
    using that benign_inv [OF f [of s], of h] by (simp add: with_cell_def)
  show "core_le P (s, []) (f s, [])" for s by (rule benign_le) (rule f)
qed

lemma with_bind:
  assumes "tri P (with_cell h i c) m (\<lambda>_. with_cell h i c)" and "\<And>x. tri P (with_cell h i c) (f x) Q"
  shows "tri P (with_cell h i c) (State_Monad.bind m f) Q"
  using assms by (rule tri_bind)

lemma with_drop: "tri P (core_inv h) m Q \<Longrightarrow> tri P (with_cell h i c) m Q"
  by (erule tri_pre) (simp add: with_cell_def)

lemma with_look: "tri P (with_cell h i c) (look f) (\<lambda>_. with_cell h i c)"
  by (simp add: tri_def)

lemma with_skip: "tri P (with_cell h i c) skip (\<lambda>_. with_cell h i c)"
  by (simp add: tri_def)

lemma set_phase_same:
  "phase_occupies_capacity p = phase_occupies_capacity (c_phase c) \<Longrightarrow>
   set_phase c p = ret (cell_with_phase c p)"
  unfolding set_phase_def by (simp add: skip_def State_Monad.bind_def ret_def)

lemma bind_ret [simp]: "State_Monad.bind (ret x) f = f x"
  by (simp add: ret_def State_Monad.bind_def)

lemma with_bind_set_phase:
  "phase_occupies_capacity p = phase_occupies_capacity (c_phase c) \<Longrightarrow>
   tri P (with_cell h i c') (f (cell_with_phase c p)) Q \<Longrightarrow>
   tri P (with_cell h i c') (State_Monad.bind (set_phase c p) f) Q"
  by (simp add: set_phase_same)

lemmas with_struct =
  with_bind_get_case with_bind_put with_bind_set_phase with_bind tri_if tri_option tri_result tri_prod
  tri_let with_upd with_look with_skip with_put

lemma inv_set_phase_of_occupied:
  "tri P (\<lambda>s. core_inv h s \<and> (\<forall>c. bm_get (st_cells s) i = Some c \<longrightarrow> phase_occupies_capacity p \<longrightarrow>
        phase_occupies_capacity (c_phase c)))
     (set_phase_of i p) (\<lambda>_. core_inv h)"
proof -
  have "core_inv h (s\<lparr>st_occupied := st_occupied s - Suc 0,
      st_cells := bm_insert i (cell_with_phase c p) (st_cells s)\<rparr>)"
    if "core_inv h s" "bm_get (st_cells s) i = Some c" "phase_occupies_capacity (c_phase c)"
      "\<not> phase_occupies_capacity p" for s c
  proof (rule inv_replace [OF that(1,2)])
    have "0 < occupancy (st_cells s)"
      using occupancy_remove [of "st_cells s" i] that by (auto simp: core_inv_def occ_def)
    then show "st_occupied s - Suc 0 + occ c = st_occupied s + occ (cell_with_phase c p)"
      using that by (simp add: core_inv_def walked_occupancy occ_def)
    show "st_occupied s - Suc 0 \<le> cf_max_resident (st_config s)"
      using that(1) unfolding core_inv_def by linarith
  qed
  moreover have "core_inv h (s\<lparr>st_cells := bm_insert i (cell_with_phase c p) (st_cells s)\<rparr>)"
    if "core_inv h s" "bm_get (st_cells s) i = Some c"
      "phase_occupies_capacity (c_phase c) = phase_occupies_capacity p" for s c
    using inv_replace [OF that(1,2), of "st_occupied s" "cell_with_phase c p"] that
    by (simp add: occ_def core_inv_def)
  ultimately show ?thesis
    by (auto simp: tri_def set_phase_of_def get_cell_def put_cell_def set_phase_def core_le_def
        emits_only_def split: option.split)
qed

lemma inv_set_phase_of:
  "\<not> phase_occupies_capacity p \<Longrightarrow> tri P (core_inv h) (set_phase_of i p) (\<lambda>_. core_inv h)"
  by (rule tri_pre [OF inv_set_phase_of_occupied]) simp

text \<open>The phase of a cell, carried through the steps that leave it alone.\<close>

definition phase_at :: "cell_id \<Rightarrow> core_state \<Rightarrow> phase option" where
  "phase_at i s = map_option c_phase (bm_get (st_cells s) i)"

lemma phase_upd:
  assumes "\<And>s. benign s (f s)"
  shows "tri P (\<lambda>s. phase_at i s = p) (upd f) (\<lambda>_ s. phase_at i s = p)"
proof (rule tri_upd)
  show "core_le P (s, []) (f s, [])" for s by (rule benign_le) (rule assms)
qed (use assms in \<open>simp add: benign_def phase_at_def\<close>)

lemma phase_emit: "tri anything (\<lambda>s. phase_at i s = p) (emit e) (\<lambda>_ s. phase_at i s = p)"
  by (rule tri_emit) simp_all

lemma phase_skip: "tri P (\<lambda>s. phase_at i s = p) skip (\<lambda>_ s. phase_at i s = p)"
  by (simp add: tri_skip)

lemma phase_ret: "tri P (\<lambda>s. phase_at i s = p) (ret x) (\<lambda>_ s. phase_at i s = p)"
  by (simp add: tri_ret)

lemma phase_onlyif:
  "tri P (\<lambda>s. phase_at i s = p) m (\<lambda>_ s. phase_at i s = p) \<Longrightarrow>
   tri P (\<lambda>s. phase_at i s = p) (onlyif b m) (\<lambda>_ s. phase_at i s = p)"
  by (simp add: onlyif_def tri_skip)

lemmas phase_struct =
  tri_same_bind [where I = "\<lambda>s. phase_at i s = p" for i p]
  tri_same_look tri_for_each [where I = "\<lambda>s. phase_at i s = p" for i p]
  tri_if tri_option tri_result tri_prod tri_let phase_upd phase_emit phase_skip phase_ret phase_onlyif

lemma phase_bind:
  assumes "tri P (core_inv h) m (\<lambda>_. core_inv h)"
    and "tri anything (\<lambda>s. phase_at i s = p) m (\<lambda>_ s. phase_at i s = p)"
    and "\<And>x. tri P (\<lambda>s. core_inv h s \<and> phase_at i s = p) (f x) Q"
  shows "tri P (\<lambda>s. core_inv h s \<and> phase_at i s = p) (State_Monad.bind m f) Q"
  by (rule tri_bind [OF tri_conj [OF assms(1,2)] assms(3)])

lemma phase_bind_get:
  assumes "\<And>c. c_phase c = p \<Longrightarrow> tri P (with_cell h i c) (g c) R" and "\<And>x. tri P (R x) (f x) Q"
  shows "tri P (\<lambda>s. core_inv h s \<and> phase_at i s = Some p)
    (State_Monad.bind (get_cell i)
      (\<lambda>r. State_Monad.bind (case r of None \<Rightarrow> m | Some c \<Rightarrow> g c) f)) Q"
  unfolding get_cell_def
proof (rule tri_bind [OF tri_look], rule tri_bind [OF _ assms(2)])
  show "tri P (\<lambda>s. (core_inv h s \<and> phase_at i s = Some p) \<and> r = bm_get (st_cells s) i)
      (case r of None \<Rightarrow> m | Some c \<Rightarrow> g c) R" for r
  proof (cases r)
    case (Some c)
    show ?thesis
    proof (cases "c_phase c = p")
      case True
      then show ?thesis
        using tri_pre [OF assms(1) [OF True], of "\<lambda>s. (core_inv h s \<and> phase_at i s = Some p) \<and>
          Some c = bm_get (st_cells s) i"] Some by (simp add: with_cell_def)
    qed (use Some in \<open>auto simp: tri_def phase_at_def\<close>)
  qed (auto simp: tri_def phase_at_def)
qed

text \<open>Room for one more cell, carried through the steps that lead to an activation.\<close>

definition room :: "core_state \<Rightarrow> bool" where
  "room s = (st_occupied s < cf_max_resident (st_config s))"

lemma has_capacity_room: "has_capacity s \<Longrightarrow> room s"
  by (simp add: has_capacity_def room_def)

lemma room_upd:
  assumes "\<And>s. benign s (f s)"
  shows "tri P (\<lambda>s. core_inv h s \<and> (room s \<or> K)) (upd f) (\<lambda>_ s. core_inv h s \<and> (room s \<or> K))"
proof (rule tri_upd)
  have "room s \<Longrightarrow> room (f s)" for s using assms [of s] by (simp add: benign_def room_def)
  then show "core_inv h (f s) \<and> (room (f s) \<or> K)" if "core_inv h s \<and> (room s \<or> K)" for s
    using that benign_inv [OF assms] by blast
  show "core_le P (s, []) (f s, [])" for s by (rule benign_le) (rule assms)
qed

lemma room_cell_op:
  "tri P (\<lambda>s. core_inv h s \<and> (room s \<or> K)) (cell_op i) (\<lambda>_ s. core_inv h s \<and> (room s \<or> K))"
  unfolding cell_op_def fresh_op_def
  by (rule tri_same_bind room_upd tri_same_look tri_ret | simp add: benign_def)+

lemma room_take_cell:
  "tri P (\<lambda>s. core_inv none_held s \<and> room s) (take_cell i)
     (\<lambda>r s. core_inv ({i}, case r of None \<Rightarrow> 0 | Some c \<Rightarrow> occ c) s \<and> room s)"
  using inv_take_cell [of P i]
  by (fastforce simp: tri_def take_cell_def get_cell_def room_def split: prod.splits)

lemma room_set_phase:
  assumes "n = occ c" and "K \<Longrightarrow> \<not> phase_occupies_capacity p"
  shows "tri P (\<lambda>s. core_inv (A, n) s \<and> (room s \<or> K)) (set_phase c p)
    (\<lambda>c. core_inv (A, occ c))"
proof (cases K)
  case True
  with assms show ?thesis
    by (intro tri_pre [OF inv_set_phase [of n c p P A]]) simp_all
next
  case False
  with assms show ?thesis
    by (intro tri_pre [OF inv_set_phase_room [of n c P A p]]) (simp_all add: room_def)
qed

lemma tri_bind_state:
  assumes "\<And>s. I s \<Longrightarrow> tri P (\<lambda>s'. I s' \<and> s' = s) (f s) Q"
  shows "tri P I (State_Monad.bind (look id) f) Q"
  using assms by (fastforce simp: tri_def)

lemma tri_state_drop: "tri P I m Q \<Longrightarrow> tri P (\<lambda>s'. I s' \<and> s' = s) m Q"
  by (erule tri_pre) simp

text \<open>A free activation permit, carried to the step that takes it.\<close>

definition slot :: "core_state \<Rightarrow> bool" where
  "slot s = (card (st_activation_permits s) < cf_max_activations (st_config s))"

lemma slot_upd:
  assumes "\<And>s. benign s (f s)"
  shows "tri P (\<lambda>s. core_inv h s \<and> slot s) (upd f) (\<lambda>_ s. core_inv h s \<and> slot s)"
proof (rule tri_upd)
  have "slot (f s)" if "core_inv h s" "slot s" for s
    using assms [of s] that card_mono [of "st_activation_permits s" "st_activation_permits (f s)"]
    by (auto simp: benign_def slot_def core_inv_def)
  then show "core_inv h (f s) \<and> slot (f s)" if "core_inv h s \<and> slot s" for s
    using that benign_inv [OF assms] by blast
  show "core_le P (s, []) (f s, [])" for s by (rule benign_le) (rule assms)
qed

lemma slot_take_cell:
  "tri P (\<lambda>s. core_inv none_held s \<and> slot s) (take_cell i)
     (\<lambda>r s. core_inv ({i}, case r of None \<Rightarrow> 0 | Some c \<Rightarrow> occ c) s \<and> slot s)"
  using inv_take_cell [of P i]
  by (fastforce simp: tri_def take_cell_def get_cell_def slot_def split: prod.splits)

lemma slot_insert:
  "tri P (\<lambda>s. core_inv h s \<and> slot s)
     (upd (\<lambda>s. s\<lparr>st_activation_permits := insert i (st_activation_permits s)\<rparr>)) (\<lambda>_. core_inv h)"
  by (rule tri_upd)
    (auto simp: core_inv_def slot_def walked_occupancy eviction_ceiling_def card_insert_if
      core_le_def emits_only_def)

lemma slot_bind_insert:
  "tri P (core_inv h) (f ()) Q \<Longrightarrow>
   tri P (\<lambda>s. core_inv h s \<and> slot s)
     (State_Monad.bind (upd (\<lambda>s. s\<lparr>st_activation_permits := insert i (st_activation_permits s)\<rparr>)) f) Q"
  by (rule tri_bind [OF slot_insert]) simp

lemma slot_bind_cell:
  fixes m :: "cell core"
  assumes "tri P (\<lambda>s. core_inv (A, n) s \<and> slot s) m (\<lambda>c. core_inv (A, occ c))"
    and "\<And>c. tri P (core_inv (A, occ c)) (f c) Q"
  shows "tri P (\<lambda>s. core_inv (A, n) s \<and> slot s) (State_Monad.bind m f) Q"
  using assms by (rule tri_bind)

lemma slot_drop: "tri P (core_inv h) m Q \<Longrightarrow> tri P (\<lambda>s. core_inv h s \<and> slot s) m Q"
  by (erule tri_pre) simp

lemma slot_bind_take_case:
  assumes "tri P (core_inv ({i}, 0)) m Q"
    and "\<And>c. tri P (\<lambda>s. core_inv ({i}, occ c) s \<and> slot s) (g c) Q"
  shows "tri P (\<lambda>s. core_inv none_held s \<and> slot s)
    (State_Monad.bind (take_cell i) (\<lambda>r. case r of None \<Rightarrow> m | Some c \<Rightarrow> g c)) Q"
  by (rule tri_bind [OF slot_take_cell]) (auto split: option.split intro: assms slot_drop)

lemma slot_bind_upd:
  assumes "\<And>s. benign s (f s)" and "tri P (\<lambda>s. core_inv h s \<and> slot s) (g ()) Q"
  shows "tri P (\<lambda>s. core_inv h s \<and> slot s) (State_Monad.bind (upd f) g) Q"
  by (rule tri_bind [OF slot_upd]) (simp_all add: assms)

lemmas slot_struct =
  slot_bind_take_case slot_bind_insert tri_if tri_option tri_let slot_bind_cell slot_drop

lemma room_bind_cell:
  fixes m :: "cell core"
  assumes "tri P (\<lambda>s. core_inv (A, n) s \<and> room s) m (\<lambda>c. core_inv (A, occ c))"
    and "\<And>c. tri P (core_inv (A, occ c)) (f c) Q"
  shows "tri P (\<lambda>s. core_inv (A, n) s \<and> room s) (State_Monad.bind m f) Q"
  using assms by (rule tri_bind)

lemma room_drop: "tri P (core_inv h) m Q \<Longrightarrow> tri P (\<lambda>s. core_inv h s \<and> room s) m Q"
  by (erule tri_pre) simp

lemma room_bind_take_case:
  assumes "tri P (core_inv ({i}, 0)) m Q"
    and "\<And>c. tri P (\<lambda>s. core_inv ({i}, occ c) s \<and> room s) (g c) Q"
  shows "tri P (\<lambda>s. core_inv none_held s \<and> room s)
    (State_Monad.bind (take_cell i) (\<lambda>r. case r of None \<Rightarrow> m | Some c \<Rightarrow> g c)) Q"
  by (rule tri_bind [OF room_take_cell]) (auto split: option.split intro: assms room_drop)

lemma room_bind_upd:
  assumes "\<And>s. benign s (f s)" and "tri P (\<lambda>s. core_inv h s \<and> room s) (g ()) Q"
  shows "tri P (\<lambda>s. core_inv h s \<and> room s) (State_Monad.bind (upd f) g) Q"
  by (rule tri_bind [OF room_upd [where K = False, simplified]]) (simp_all add: assms)

lemmas room_struct = room_bind_take_case tri_if tri_option tri_let room_bind_cell

lemma occ_updates [simp]:
  "occ (c\<lparr>c_proven_position := a1\<rparr>) = occ c"
  "occ (c\<lparr>c_owner_log_recovery_attempts := a2\<rparr>) = occ c"
  "occ (c\<lparr>c_quiescing := a3\<rparr>) = occ c"
  "occ (c\<lparr>c_requests := a4\<rparr>) = occ c"
  "occ (c\<lparr>c_websockets := a5\<rparr>) = occ c"
  "occ (c\<lparr>c_waiting_for := a6\<rparr>) = occ c"
  "occ (c\<lparr>c_waiting_activation := a7\<rparr>) = occ c"
  "occ (c\<lparr>c_releasing := a8\<rparr>) = occ c"
  "occ (c\<lparr>c_evict_rebalance := a9\<rparr>) = occ c"
  "occ (c\<lparr>c_handoff := a10\<rparr>) = occ c"
  "occ (c\<lparr>c_alarm := a11\<rparr>) = occ c"
  "occ (c\<lparr>c_alarm_source := a12\<rparr>) = occ c"
  "occ (c\<lparr>c_alarm_wake := a13\<rparr>) = occ c"
  "occ (c\<lparr>c_resume_demand := a14\<rparr>) = occ c"
  "occ (c\<lparr>c_confirming := a15\<rparr>) = occ c"
  "occ (c\<lparr>c_eviction_refused_mono_ms := a16\<rparr>) = occ c"
  "occ (c\<lparr>c_isolate := a17\<rparr>) = occ c"
  "occ (c\<lparr>c_generation := a18\<rparr>) = occ c"
  "occ (c\<lparr>c_swapping := a19\<rparr>) = occ c"
  "occ (c\<lparr>c_swap_cancelled := a20\<rparr>) = occ c"
  "occ (c\<lparr>c_queued_generation := a21\<rparr>) = occ c"
  "occ (c\<lparr>c_last_used_mono_ms := a22\<rparr>) = occ c"
  "occ (c\<lparr>c_last_used_request := a23\<rparr>) = occ c"
  "occ (c\<lparr>c_local_request_count := a24\<rparr>) = occ c"
  by (simp_all add: occ_def)

lemma occ_record_local_request [simp]: "occ (record_local_request c request now) = occ c"
  by (simp add: record_local_request_def)

lemma occ_cell_default [simp]: "occ cell_default = 0"
  by (simp add: occ_def cell_default_def phase_occupies_capacity_def)

lemma filter_subset [simp]: "Set.filter p A \<subseteq> A"
  by auto

lemma occupies_simps [simp]:
  "\<not> phase_occupies_capacity Inactive"
  "\<not> phase_occupies_capacity WaitingActivation"
  "\<not> phase_occupies_capacity (ReadingOwner op)"
  "\<not> phase_occupies_capacity (ReadingNodeLease op record a b)"
  "\<not> phase_occupies_capacity (RecoveringOwnerLog op record)"
  "\<not> phase_occupies_capacity (WaitingOwnerLogRecovery generation)"
  "\<not> phase_occupies_capacity (ReadingCapacity op claim a)"
  "\<not> phase_occupies_capacity WaitingCapacity"
  "phase_occupies_capacity (Acquiring op claim d) = (\<not> d)"
  "phase_occupies_capacity (ReconcilingAcquire op claim d) = (\<not> d)"
  "phase_occupies_capacity (Restoring op spec)"
  "phase_occupies_capacity (Starting op epoch)"
  "phase_occupies_capacity (Publishing op epoch)"
  "phase_occupies_capacity (EnsuringDurability op epoch)"
  "phase_occupies_capacity (Cleaning op epoch cause)"
  "\<not> phase_occupies_capacity (Dormant epoch)"
  "\<not> phase_occupies_capacity (Adopting op epoch)"
  "phase_occupies_capacity (Resident epoch)"
  "\<not> phase_occupies_capacity (Remote node addr epoch a cache)"
  "\<not> phase_occupies_capacity phase.Fenced"
  by (simp_all add: phase_occupies_capacity_def)

lemma phase_pattern_simps [simp]:
  "as_resident p = Some epoch \<longleftrightarrow> p = Resident epoch"
  "as_ensuring p = Some (op, epoch) \<longleftrightarrow> p = EnsuringDurability op epoch"
  "as_cleaning p = Some (op, epoch, cause) \<longleftrightarrow> p = Cleaning op epoch cause"
  "as_dormant p = Some epoch \<longleftrightarrow> p = Dormant epoch"
  by (auto simp: as_resident_def as_ensuring_def as_cleaning_def as_dormant_def split: phase.splits)

lemma as_ensuring_occupies: "as_ensuring p = Some x \<Longrightarrow> phase_occupies_capacity p"
  by (cases x) simp

lemma as_published_occupies: "as_published p = Some epoch \<Longrightarrow> phase_occupies_capacity p"
  by (auto simp: as_published_def split: phase.splits)

lemmas core_struct =
  inv_bind_take_case inv_bind_take_then inv_bind_put inv_bind_cell inv_bind_pair inv_bind
  tri_if tri_option tri_result tri_route tri_prod tri_let
  inv_skip_none inv_skip inv_ret_cell inv_ret_pair inv_ret inv_onlyif inv_look inv_for_each
  inv_get_cell inv_put_cell inv_modify_cell inv_set_phase_of inv_set_phase inv_upd inv_fold_cell

section \<open>The primitive operations\<close>

locale core_proof =
  fixes P :: permission
  assumes quiet: "\<not> acked e \<Longrightarrow> emits P e"
begin

lemma quiet_emit [core_ok]: "\<not> acked e \<Longrightarrow> tri P (core_inv h) (emit e) (\<lambda>_. core_inv h)"
  by (rule inv_emit) (rule quiet)

lemma quiet_emit_all [core_ok]:
  "(\<And>e. e \<in> set new \<Longrightarrow> \<not> acked e) \<Longrightarrow> tri P (core_inv h) (emit_all new) (\<lambda>_. core_inv h)"
  by (rule inv_emit_all) (rule quiet)

lemma fresh_op_ok [core_ok]: "tri P (core_inv h) fresh_op (\<lambda>_. core_inv h)"
  unfolding fresh_op_def by (rule core_ok core_struct | simp add: benign_def)+

lemma fresh_timer_generation_ok [core_ok]:
  "tri P (core_inv h) fresh_timer_generation (\<lambda>_. core_inv h)"
  unfolding fresh_timer_generation_def by (rule core_ok core_struct | simp add: benign_def)+

lemma cell_op_ok [core_ok]: "tri P (core_inv h) (cell_op i) (\<lambda>_. core_inv h)"
  unfolding cell_op_def by (rule core_ok core_struct | simp add: benign_def)+

lemma take_cell_op_ok [core_ok]: "tri P (core_inv h) (take_cell_op op p) (\<lambda>_. core_inv h)"
  unfolding take_cell_op_def by (rule core_ok core_struct | simp add: benign_def)+

lemma remove_cell_op_ok [core_ok]: "tri P (core_inv h) (remove_cell_op op) (\<lambda>_. core_inv h)"
  unfolding remove_cell_op_def by (rule core_ok core_struct | simp add: benign_def)+

lemma activate_request_ok [core_ok]: "tri P (core_inv h) (activate_request request i) (\<lambda>_. core_inv h)"
  unfolding activate_request_def by (rule core_ok core_struct | simp add: benign_def)+

lemma deactivate_request_ok [core_ok]: "tri P (core_inv h) (deactivate_request request) (\<lambda>_. core_inv h)"
  unfolding deactivate_request_def by (rule core_ok core_struct | simp add: benign_def)+

lemma with_emit [core_ok]: "\<not> acked e \<Longrightarrow> tri P (with_cell h i c) (emit e) (\<lambda>_. with_cell h i c)"
  by (rule tri_emit) (rule quiet)

lemma with_fresh_op [core_ok]: "tri P (with_cell h i c) fresh_op (\<lambda>_. with_cell h i c)"
  unfolding fresh_op_def
  by (rule with_bind with_upd with_look | simp add: benign_def tri_ret)+

lemma with_cell_op [core_ok]: "tri P (with_cell h i c) (cell_op j) (\<lambda>_. with_cell h i c)"
  unfolding cell_op_def
  by (rule with_bind with_upd with_look with_fresh_op | simp add: benign_def tri_ret)+

lemma with_remove_cell_op [core_ok]:
  "tri P (with_cell h i c) (remove_cell_op op) (\<lambda>_. with_cell h i c)"
  unfolding remove_cell_op_def by (rule with_struct | simp add: benign_def)+

lemma modify_activity_ok [core_ok]: "tri P (core_inv h) (modify_activity f) (\<lambda>_. core_inv h)"
  unfolding modify_activity_def by (rule core_ok core_struct | simp add: benign_def)+

lemma complete_request_ok [core_ok]:
  "tri P (core_inv h) (complete_request i request result) (\<lambda>_. core_inv h)"
  unfolding complete_request_def
  by (rule core_ok core_struct | simp add: benign_def acked_def)+

lemma finish_requests_ok [core_ok]:
  "n = occ c \<Longrightarrow> tri P (core_inv (A, n)) (finish_requests i c result)
     (\<lambda>c. core_inv (A, occ c))"
  unfolding finish_requests_def by (rule core_ok core_struct | simp add: benign_def)+

lemma next_writer_epoch_ok [core_ok]:
  "n = occ c \<Longrightarrow> tri P (core_inv (A, n)) (next_writer_epoch i c previous)
     (\<lambda>x. core_inv (A, occ (snd x)))"
  unfolding next_writer_epoch_def by (rule core_ok core_struct | simp)+

lemma record_acquisition_ok [core_ok]: "tri P (core_inv h) (record_acquisition spec) (\<lambda>_. core_inv h)"
  unfolding record_acquisition_def by (rule core_ok core_struct)+

lemma settle_confirmation_ok [core_ok]: "tri P (core_inv h) (settle_confirmation i) (\<lambda>_. core_inv h)"
  unfolding settle_confirmation_def by (rule core_ok core_struct | simp add: benign_def)+

lemma settle_local_resume_ok [core_ok]: "tri P (core_inv h) (settle_local_resume i) (\<lambda>_. core_inv h)"
  unfolding settle_local_resume_def by (rule core_ok core_struct | simp add: benign_def)+

lemma watch_queued_ok [core_ok]:
  "n = occ c \<Longrightarrow> tri P (core_inv (A, n)) (watch_queued i c) (\<lambda>c. core_inv (A, occ c))"
  unfolding watch_queued_def by (rule core_ok core_struct | simp add: acked_def)+

end

end
