(* ===== verification/Eviction.thy ===== *)
theory Eviction
  imports CoreLogic
begin

text \<open>
  Eviction and shedding (\<open>lib.rs\<close>): admission of an eviction, its durability proof, the choice of the
  victim, the idle eviction and the walk down under pressure, the release of a dormant cell and the
  balancing move, the expiry of a queued activation, and the end of an activity.

  The two loops that start evictions run on fuel; every turn that starts one takes a cell out of the
  \<open>Resident\<close> phase, so one more than the number of cells is enough (\<open>evict_idle_enough\<close>,
  \<open>shed_toward_floor_enough\<close> in \<open>Pumps\<close>).
\<close>

section \<open>Definitions\<close>

definition finish_eviction :: "op_id \<Rightarrow> (evict_success, evict_error) result \<Rightarrow> unit core" where
  "finish_eviction op result = do {
     found \<leftarrow> look (\<lambda>s. bm_get (st_eviction_notifications s) op);
     (case found of
        None \<Rightarrow> skip
      | Some requests \<Rightarrow> do {
          upd (\<lambda>s. s\<lparr>st_eviction_notifications := bm_remove op (st_eviction_notifications s)\<rparr>);
          emit_all (map (\<lambda>request. EvictionFinished request result) (sorted_list_of_set requests))
        })
   }"

definition cancel_eviction :: "cell_id \<Rightarrow> cell \<Rightarrow> epoch \<Rightarrow> evict_cancellation \<Rightarrow> cell core" where
  "cancel_eviction i c epoch reason = do {
     (case phase_op (c_phase c) of
        None \<Rightarrow> skip
      | Some op \<Rightarrow> do {
          remove_cell_op op;
          finish_eviction op (Err (Cancelled reason))
        });
     c \<leftarrow> set_phase c (Resident epoch);
     upd (\<lambda>s. s\<lparr>st_eviction_permits := st_eviction_permits s - {i}\<rparr>);
     ret c
   }"

definition begin_eviction :: "cell_id \<Rightarrow> bool \<Rightarrow> (op_id, evict_refusal) result core" where
  "begin_eviction i rebalance = do {
     s \<leftarrow> look id;
     (case bm_get (st_cells s) i of
        None \<Rightarrow> ret (Err CellTransitioning)
      | Some c \<Rightarrow>
          if alarm_is_imminent s c \<and> \<not> st_shedding s \<and> \<not> st_draining s
          then ret (Err AlarmImminent)
          else if is_active s i then ret (Err CellActive)
          else
            (case as_resident (c_phase c) of
               None \<Rightarrow> ret (Err CellTransitioning)
             | Some epoch \<Rightarrow>
                 if \<not> alarm_evictable (c_alarm c) then ret (Err AlarmUncovered)
                 else if eviction_ceiling s \<le> card (st_eviction_permits s)
                 then ret (Err ConcurrencyLimit)
                 else do {
                   op \<leftarrow> cell_op i;
                   c \<leftarrow> set_phase (c\<lparr>c_evict_rebalance := rebalance\<rparr>) (EnsuringDurability op epoch);
                   put_cell i c;
                   upd (\<lambda>s. s\<lparr>st_quiescing_cells := st_quiescing_cells s - {i},
                              st_eviction_permits := insert i (st_eviction_permits s)\<rparr>);
                   emit (EnsureDurable op i epoch (\<not> st_draining s));
                   ret (Ok op)
                 }))
   }"

definition evict :: "cell_id \<Rightarrow> unit core" where
  "evict i = do { _ \<leftarrow> begin_eviction i False; skip }"

definition evicting_op :: "phase \<Rightarrow> op_id option" where
  "evicting_op p =
     (case p of
        EnsuringDurability op _ \<Rightarrow> Some op
      | Cleaning op _ cause \<Rightarrow> (case cause of stop_cause.Evict _ \<Rightarrow> Some op | _ \<Rightarrow> None)
      | _ \<Rightarrow> None)"

definition cell_transitioning :: "cell \<Rightarrow> bool" where
  "cell_transitioning c =
     (c_releasing c \<noteq> None \<or> c_waiting_for c \<noteq> None \<or> c_waiting_activation c \<noteq> None
      \<or> c_requests c \<noteq> {} \<or> c_quiescing c \<or> c_swapping c \<or> c_handoff c \<or> c_confirming c
      \<or> c_resume_demand c)"

definition absent_phase :: "phase \<Rightarrow> bool" where
  "absent_phase p =
     (case p of Inactive \<Rightarrow> True | Dormant _ \<Rightarrow> True | Remote _ _ _ _ _ \<Rightarrow> True | _ \<Rightarrow> False)"

definition admit_eviction :: "cell_id \<Rightarrow> (op_id option, evict_error) result core" where
  "admit_eviction i = do {
     s \<leftarrow> look id;
     (if \<not> ready_to_serve s \<or> st_confirming s
      then ret (Err (Refused evict_refusal.NodeUnavailable))
      else if is_active s i then ret (Err (Refused CellActive))
      else
        (case bm_get (st_cells s) i of
           None \<Rightarrow> ret (Ok None)
         | Some c \<Rightarrow>
             (case evicting_op (c_phase c) of
                Some op \<Rightarrow> ret (Ok (Some op))
              | None \<Rightarrow>
                  if cell_transitioning c then ret (Err (Refused CellTransitioning))
                  else if absent_phase (c_phase c) then ret (Ok None)
                  else if is_resident (c_phase c) then do {
                    started \<leftarrow> begin_eviction i False;
                    ret (case started of
                      Ok op \<Rightarrow> Ok (Some op)
                    | Err refusal \<Rightarrow> Err (Refused refusal))
                  }
                  else ret (Err (Refused CellTransitioning)))))
   }"

definition evict_requested :: "request_id \<Rightarrow> cell_id \<Rightarrow> unit core" where
  "evict_requested request i = do {
     (admitted, admitted_effects) \<leftarrow> captured (admit_eviction i);
     result \<leftarrow> (case admitted of
        Err e \<Rightarrow> ret (Err e)
      | Ok None \<Rightarrow> ret (Ok eviction_admission.Absent)
      | Ok (Some op) \<Rightarrow> do {
          upd (\<lambda>s. s\<lparr>st_eviction_notifications :=
            bm_insert op
              (insert request
                (case bm_get (st_eviction_notifications s) op of None \<Rightarrow> {} | Some r \<Rightarrow> r))
              (st_eviction_notifications s)\<rparr>);
          ret (Ok Pending)
        });
     emit (effect.EvictionAdmission request result);
     emit_all admitted_effects
   }"

definition durability_checked :: "op_id \<Rightarrow> (unit, evict_failure) result \<Rightarrow> unit core" where
  "durability_checked op result = do {
     now \<leftarrow> look st_now_mono_ms;
     found \<leftarrow> take_cell_op op (\<lambda>c.
       case as_ensuring (c_phase c) of None \<Rightarrow> False | Some (current, _) \<Rightarrow> current = op);
     (case found of
        None \<Rightarrow> skip
      | Some i \<Rightarrow> do {
          cell \<leftarrow> get_cell i;
          (case cell of
             None \<Rightarrow> skip
           | Some c \<Rightarrow>
               (case as_ensuring (c_phase c) of
                  None \<Rightarrow> skip
                | Some (_, epoch) \<Rightarrow>
                    (case result of
                       Ok _ \<Rightarrow> do {
                         stop \<leftarrow> fresh_op;
                         waiting \<leftarrow> look (\<lambda>s. bm_get (st_eviction_notifications s) op);
                         (case waiting of
                            None \<Rightarrow> skip
                          | Some requests \<Rightarrow>
                              upd (\<lambda>s. s\<lparr>st_eviction_notifications :=
                                bm_insert stop requests
                                  (bm_remove op (st_eviction_notifications s))\<rparr>));
                         upd (\<lambda>s. s\<lparr>st_cell_ops := bm_insert stop i (st_cell_ops s)\<rparr>);
                         let rebalance = c_evict_rebalance c;
                         c \<leftarrow> set_phase c (Cleaning stop epoch (stop_cause.Evict rebalance));
                         put_cell i c;
                         draining \<leftarrow> look st_draining;
                         emit (StopRuntime stop i epoch (stop_cause.Evict rebalance) (\<not> draining))
                       }
                     | Err reason \<Rightarrow> do {
                         c \<leftarrow> set_phase c (Resident epoch);
                         put_cell i (c\<lparr>c_eviction_refused_mono_ms := Some now\<rparr>);
                         upd (\<lambda>s. s\<lparr>st_eviction_permits := st_eviction_permits s - {i}\<rparr>);
                         finish_eviction op (Err (evict_error.Failed reason))
                       })))
        })
   }"

subsection \<open>The victim\<close>

definition isolate_occupancy :: "core_state \<Rightarrow> nat \<Rightarrow> nat" where
  "isolate_occupancy s isolate =
     length (filter (\<lambda>c. c_isolate c = Some isolate) (bm_values (st_cells s)))"

definition shed_key :: "core_state \<Rightarrow> cell_id \<times> cell \<Rightarrow> nat \<times> nat option \<times> nat \<times> cell_id" where
  "shed_key s = (\<lambda>(i, c).
     ((case c_isolate c of None \<Rightarrow> u64_max | Some isolate \<Rightarrow> isolate_occupancy s isolate),
      c_eviction_refused_mono_ms c, c_last_used_mono_ms c, i))"

definition shed_candidate_where :: "core_state \<Rightarrow> (cell \<Rightarrow> bool) \<Rightarrow> cell_id option" where
  "shed_candidate_where s keep =
     map_option fst
       (min_by_key (shed_key s)
         (filter (\<lambda>(i, c). is_hibernatable s i \<and> keep c \<and> alarm_evictable (c_alarm c)) (st_cells s)))"

definition shed_candidate :: "core_state \<Rightarrow> cell_id option" where
  "shed_candidate s = shed_candidate_where s (\<lambda>_. True)"

definition shed_one :: "unit core" where
  "shed_one = do {
     s \<leftarrow> look id;
     (if st_shedding s
         \<or> length (st_capacity_waiters s) \<le> card (st_eviction_permits s)
         \<or> cf_max_evictions (st_config s) \<le> card (st_eviction_permits s)
      then skip
      else
        (case shed_candidate s of
           None \<Rightarrow> skip
         | Some victim \<Rightarrow> do { _ \<leftarrow> begin_eviction victim (rebalances s); skip }))
   }"

definition idle_cell :: "nat \<Rightarrow> nat \<Rightarrow> cell \<Rightarrow> bool" where
  "idle_cell now_mono_ms idle_ms c =
     (idle_ms \<le> now_mono_ms - c_last_used_mono_ms c \<and>
      (case c_eviction_refused_mono_ms c of
         None \<Rightarrow> True
       | Some refused \<Rightarrow> idle_ms \<le> now_mono_ms - refused))"

primrec evict_idle_loop :: "nat \<Rightarrow> nat \<Rightarrow> nat \<Rightarrow> unit core" where
  "evict_idle_loop 0 now_mono_ms idle_ms = skip"
| "evict_idle_loop (Suc fuel) now_mono_ms idle_ms = do {
     s \<leftarrow> look id;
     (if card (st_eviction_permits s) < cf_max_evictions (st_config s) then
        (case shed_candidate_where s (idle_cell now_mono_ms idle_ms) of
           None \<Rightarrow> skip
         | Some candidate \<Rightarrow> do {
             started \<leftarrow> begin_eviction candidate False;
             (case started of
                Err _ \<Rightarrow> skip
              | Ok _ \<Rightarrow> evict_idle_loop fuel now_mono_ms idle_ms)
           })
      else skip)
   }"

definition evict_idle :: "nat \<Rightarrow> unit core" where
  "evict_idle now_mono_ms = do {
     s \<leftarrow> look id;
     (case cf_idle_evict_ms (st_config s) of
        None \<Rightarrow> skip
      | Some idle_ms \<Rightarrow>
          if st_shedding s then skip
          else evict_idle_loop (Suc (length (st_cells s))) now_mono_ms idle_ms)
   }"

subsection \<open>The walk down\<close>

definition can_empty_an_isolate :: "core_state \<Rightarrow> bool" where
  "can_empty_an_isolate s =
     (let isolates = remdups (List.map_filter c_isolate (bm_values (st_cells s)));
          can_go = (\<lambda>(i, c). is_hibernatable s i \<and> alarm_evictable (c_alarm c))
      in 1 < length isolates \<and>
         list_ex (\<lambda>isolate.
           list_all (\<lambda>(i, c). c_isolate c = Some isolate \<longrightarrow> can_go (i, c)) (st_cells s)) isolates)"

definition shedding_can_reach_resume_line :: "core_state \<Rightarrow> shed_cut \<Rightarrow> nat \<Rightarrow> bool" where
  "shedding_can_reach_resume_line s last_cut sample_bytes =
     (case resume_line (cf_pressure (st_config s)) (sc_metric last_cut) of
        None \<Rightarrow> False
      | Some line \<Rightarrow>
          if can_empty_an_isolate s then True
          else
            let removed = sc_cells last_cut - st_occupied s in
            if removed = 0 then True
            else
              let returned = sc_bytes last_cut - sample_bytes;
                  projected = returned * st_occupied s div removed;
                  floor = sample_bytes - projected
              in floor \<le> line)"

primrec shed_toward_floor_loop :: "nat \<Rightarrow> unit core" where
  "shed_toward_floor_loop 0 = skip"
| "shed_toward_floor_loop (Suc fuel) = do {
     s \<leftarrow> look id;
     (if card (st_eviction_permits s) < cf_max_evictions (st_config s)
         \<and> st_shed_floor s < st_occupied s - card (st_eviction_permits s) then
        (case shed_candidate s of
           None \<Rightarrow> skip
         | Some victim \<Rightarrow> do {
             started \<leftarrow> begin_eviction victim (rebalances s);
             (case started of Err _ \<Rightarrow> skip | Ok _ \<Rightarrow> shed_toward_floor_loop fuel)
           })
      else skip)
   }"

definition shed_toward_floor :: "unit core" where
  "shed_toward_floor = do {
     s \<leftarrow> look id;
     (if \<not> st_shedding s \<or> st_occupied s \<le> st_shed_floor s then skip
      else shed_toward_floor_loop (Suc (length (st_cells s))))
   }"

subsection \<open>Activities, dormant cells, queued activations\<close>

definition holds_output :: "request_id \<Rightarrow> barrier \<Rightarrow> bool" where
  "holds_output request b =
     ((case b_owner b of Output h \<Rightarrow> hd_request h = request | _ \<Rightarrow> False)
      \<or> list_ex (\<lambda>h. hd_request h = request) (b_followers b))"

definition activity_finished :: "request_id \<Rightarrow> unit core" where
  "activity_finished request = do {
     gated \<leftarrow> look (\<lambda>s. list_ex (holds_output request) (bm_values (st_barriers s)));
     (if gated then upd (\<lambda>s. s\<lparr>st_gate_pinned := insert request (st_gate_pinned s)\<rparr>)
      else do {
        found \<leftarrow> deactivate_request request;
        (case found of
           None \<Rightarrow> skip
         | Some i \<Rightarrow> do {
             now \<leftarrow> look st_now_mono_ms;
             modify_cell i (\<lambda>c. c\<lparr>c_last_used_mono_ms := now,
               c_last_used_request := max (c_last_used_request c) request\<rparr>)
           });
        shed_one
      })
   }"

definition release_dormant :: "cell_id \<Rightarrow> epoch \<Rightarrow> unit core" where
  "release_dormant i epoch = do {
     op \<leftarrow> cell_op i;
     handoff \<leftarrow> look (\<lambda>s. \<not> st_draining s);
     modify_cell i (\<lambda>c. c\<lparr>c_releasing := Some op, c_handoff := handoff\<rparr>);
     upd (\<lambda>s. s\<lparr>st_releasing_cells := insert i (st_releasing_cells s)\<rparr>);
     websockets \<leftarrow> look (\<lambda>s.
       case bm_get (st_cells s) i of None \<Rightarrow> [] | Some c \<Rightarrow> bm_keys (c_websockets c));
     onlyif (websockets \<noteq> []) (emit (CancelCellActivity i [] websockets None False));
     emit (ReleaseOwner op i epoch)
   }"

definition rebalance :: "nat \<Rightarrow> unit core" where
  "rebalance count = do {
     s \<leftarrow> look id;
     (if st_draining s \<or> st_fenced s \<or> st_shedding s \<or> \<not> node_authoritative s then skip
      else
        let budget = min count (cf_max_releases (st_config s) - handoffs_in_flight s);
            dormant =
              List.map_filter (\<lambda>(i, c).
                case as_dormant (c_phase c) of
                  Some epoch \<Rightarrow>
                    if c_releasing c = None \<and> c_requests c = {} \<and> \<not> alarm_is_imminent s c
                    then Some (i, epoch, c_last_used_mono_ms c) else None
                | None \<Rightarrow> None) (st_cells s);
            dormant = sort_key (\<lambda>(i, epoch, used). (used, i)) dormant
        in for_each (take budget dormant) (\<lambda>(i, epoch, used). release_dormant i epoch))
   }"

definition waits :: "phase \<Rightarrow> bool" where
  "waits p = (case p of WaitingActivation \<Rightarrow> True | WaitingCapacity \<Rightarrow> True | _ \<Rightarrow> False)"

definition saved_epoch :: "cold_start option \<Rightarrow> activation option \<Rightarrow> epoch option" where
  "saved_epoch start act =
     (case start of
        Some (cold_start.Restore spec) \<Rightarrow> Some (rs_epoch spec)
      | _ \<Rightarrow>
          (case act of
             Some (activation.Restore spec) \<Rightarrow> Some (rs_epoch spec)
           | _ \<Rightarrow> None))"

definition expire_queued :: "cell_id \<Rightarrow> nat \<Rightarrow> unit core" where
  "expire_queued i generation = do {
     found \<leftarrow> get_cell i;
     (case found of
        None \<Rightarrow> skip
      | Some queued \<Rightarrow>
          if c_queued_generation queued \<noteq> Some generation then skip
          else if \<not> waits (c_phase queued) then skip
          else do {
            for_each (sorted_list_of_set (c_requests queued)) (\<lambda>request. do {
              emit (Complete request (Err CapacityExhausted));
              upd (\<lambda>s. s\<lparr>st_request_cells := bm_remove request (st_request_cells s),
                         st_capacity_requests := st_capacity_requests s - {request}\<rparr>);
              modify_cell i (\<lambda>c. c\<lparr>c_requests := c_requests c - {request}\<rparr>)
            });
            modify_cell i (\<lambda>c. c\<lparr>c_queued_generation := None\<rparr>);
            (if c_alarm_wake queued \<or> c_confirming queued then skip
             else do {
               upd (\<lambda>s. s\<lparr>
                 st_activation_waiters := filter (\<lambda>w. w \<noteq> i) (st_activation_waiters s),
                 st_capacity_waiters := filter (\<lambda>w. w \<noteq> i) (st_capacity_waiters s)\<rparr>);
               let dormant = saved_epoch (c_waiting_activation queued) (c_waiting_for queued);
               modify_cell i (\<lambda>c. c\<lparr>c_waiting_activation := None, c_waiting_for := None\<rparr>);
               set_phase_of i (case dormant of Some epoch \<Rightarrow> Dormant epoch | None \<Rightarrow> Inactive);
               onlyif (c_resume_demand queued) (settle_local_resume i)
             })
          })
   }"

section \<open>Every handler keeps the invariant\<close>

context core_proof begin

lemma finish_eviction_ok [core_ok]: "tri P (core_inv h) (finish_eviction op result) (\<lambda>_. core_inv h)"
  unfolding finish_eviction_def by (rule core_ok core_struct | fastforce simp: benign_def acked_def)+

lemma cancel_eviction_ok [core_ok]:
  "n = occ c \<Longrightarrow> phase_occupies_capacity (c_phase c) \<Longrightarrow>
   tri P (core_inv (A, n)) (cancel_eviction i c epoch reason) (\<lambda>c. core_inv (A, occ c))"
  unfolding cancel_eviction_def by (rule core_ok core_struct | simp add: benign_def)+

lemma begin_eviction_ok [core_ok]: "tri P (core_inv h) (begin_eviction i r) (\<lambda>_. core_inv h)"
proof -
  have "core_inv h (s\<lparr>st_next_op := Suc (st_next_op s),
      st_cell_ops := bm_insert (st_next_op s) i (st_cell_ops s),
      st_cells := bm_insert i (cell_with_phase (c\<lparr>c_evict_rebalance := r\<rparr>)
        (EnsuringDurability (st_next_op s) epoch)) (st_cells s),
      st_quiescing_cells := st_quiescing_cells s - {i},
      st_eviction_permits := insert i (st_eviction_permits s)\<rparr>)"
    if "core_inv h s" "bm_get (st_cells s) i = Some c" "c_phase c = Resident epoch"
      "\<not> eviction_ceiling s \<le> card (st_eviction_permits s)" for s c epoch
    using that by (intro inv_put_present [OF that(1,2)])
      (auto simp: core_inv_def occ_def card_insert_if)
  then show ?thesis
    by (auto simp: tri_def begin_eviction_def cell_op_def fresh_op_def set_phase_def put_cell_def
        core_le_def emits_only_def quiet acked_def split: option.split)
qed

lemma evict_ok [core_ok]: "tri P (core_inv h) (evict i) (\<lambda>_. core_inv h)"
  unfolding evict_def by (rule core_ok core_struct)+

lemma admit_eviction_ok [core_ok]: "tri P (core_inv h) (admit_eviction i) (\<lambda>_. core_inv h)"
  unfolding admit_eviction_def by (rule core_ok core_struct)+

lemma evict_requested_ok [core_ok]: "tri P (core_inv h) (evict_requested request i) (\<lambda>_. core_inv h)"
  unfolding evict_requested_def
  by (rule tri_bind_captured admit_eviction_ok inv_emit_all core_ok core_struct
      | simp add: benign_def acked_def)+

lemma durability_checked_ok [core_ok]:
  "tri P (core_inv h) (durability_checked op result) (\<lambda>_. core_inv h)"
  unfolding durability_checked_def
  by (rule with_struct core_ok core_struct with_drop | simp add: benign_def acked_def occ_def)+

lemma shed_one_ok [core_ok]: "tri P (core_inv h) shed_one (\<lambda>_. core_inv h)"
  unfolding shed_one_def by (rule core_ok core_struct)+

lemma evict_idle_loop_ok [core_ok]: "tri P (core_inv h) (evict_idle_loop fuel now idle) (\<lambda>_. core_inv h)"
  by (induction fuel) (simp_all, (rule core_ok core_struct | assumption)+)

lemma evict_idle_ok [core_ok]: "tri P (core_inv h) (evict_idle now) (\<lambda>_. core_inv h)"
  unfolding evict_idle_def by (rule core_ok core_struct)+

lemma shed_toward_floor_loop_ok [core_ok]: "tri P (core_inv h) (shed_toward_floor_loop fuel) (\<lambda>_. core_inv h)"
  by (induction fuel) (simp_all, (rule core_ok core_struct | assumption)+)

lemma shed_toward_floor_ok [core_ok]: "tri P (core_inv h) shed_toward_floor (\<lambda>_. core_inv h)"
  unfolding shed_toward_floor_def by (rule core_ok core_struct)+

lemma activity_finished_ok [core_ok]: "tri P (core_inv h) (activity_finished request) (\<lambda>_. core_inv h)"
  unfolding activity_finished_def by (rule core_ok core_struct | simp add: benign_def)+

lemma release_dormant_ok [core_ok]: "tri P (core_inv h) (release_dormant i epoch) (\<lambda>_. core_inv h)"
  unfolding release_dormant_def by (rule core_ok core_struct | simp add: benign_def acked_def)+

lemma rebalance_ok [core_ok]: "tri P (core_inv h) (rebalance count) (\<lambda>_. core_inv h)"
  unfolding rebalance_def Let_def by (rule core_ok core_struct)+

lemma expire_queued_ok [core_ok]: "tri P (core_inv h) (expire_queued i generation) (\<lambda>_. core_inv h)"
  unfolding expire_queued_def
  by (rule core_ok core_struct | simp add: benign_def acked_def split: option.split)+

end

end
