(* ===== verification/NodeLease.thy ===== *)
theory NodeLease
  imports Eviction
begin

text \<open>
  The node lease (\<open>lib.rs\<close>): acquisition, renewal, readback after an ambiguous or rejected write, and the
  fence that ends this node's authority. A held lease is anchored to the monotonic instant its published
  expiry was computed from; whatever leaves that window unprovable fences.
\<close>

section \<open>Definitions\<close>

subsection \<open>The fence\<close>

text \<open>A barrier taken by the fence fails every output it holds; an alarm has no output to fail.\<close>

definition fence_barrier :: "barrier \<Rightarrow> unit core" where
  "fence_barrier gate = do {
     (case b_owner gate of
        gate_owner.Output h \<Rightarrow>
          emit (effect.Release (hd_request h) (hd_channel h) (Err request_error.NodeFenced))
      | Export ticket \<Rightarrow>
          emit (ExportProven (b_cell gate) (b_epoch gate) ticket (Err request_error.NodeFenced))
      | gate_owner.Alarm _ _ _ \<Rightarrow> skip);
     for_each (b_followers gate) (\<lambda>h.
       emit (effect.Release (hd_request h) (hd_channel h) (Err request_error.NodeFenced)));
     for_each (b_riders gate) (\<lambda>r.
       emit (ExportProven (b_cell gate) (b_epoch gate) (rd_ticket r) (Err request_error.NodeFenced)))
   }"

definition as_starting :: "phase \<Rightarrow> (op_id \<times> epoch) option" where
  "as_starting p =
     (case p of
        Starting op epoch \<Rightarrow> Some (op, epoch)
      | Publishing op epoch \<Rightarrow> Some (op, epoch)
      | _ \<Rightarrow> None)"

definition fence_cell :: "cell_id \<Rightarrow> unit core" where
  "fence_cell i = do {
     found \<leftarrow> take_cell i;
     (case found of
        None \<Rightarrow> skip
      | Some c \<Rightarrow> do {
          (case as_starting (c_phase c) of
             None \<Rightarrow> skip
           | Some (op, epoch) \<Rightarrow>
               upd (\<lambda>s. s\<lparr>st_timed_out_runtime_starts := st_timed_out_runtime_starts s - {op},
                          st_retired_runtime_ops :=
                            bm_insert op (i, epoch) (st_retired_runtime_ops s)\<rparr>));
          (case runtime_epoch (c_phase c) of
             None \<Rightarrow> skip
           | Some epoch \<Rightarrow> do {
               op \<leftarrow> fresh_op;
               emit (StopRuntime op i epoch Fence False)
             });
          c \<leftarrow> finish_requests i c (Err request_error.NodeFenced);
          (case evicting_op (c_phase c) of
             None \<Rightarrow> skip
           | Some op \<Rightarrow> finish_eviction op (Err (Cancelled evict_cancellation.NodeFenced)));
          (case phase_op (c_phase c) of None \<Rightarrow> skip | Some stale \<Rightarrow> remove_cell_op stale);
          (case firing_op (c_alarm c) of None \<Rightarrow> skip | Some op \<Rightarrow> remove_cell_op op);
          c \<leftarrow> set_phase c phase.Fenced;
          put_cell i (c\<lparr>c_waiting_for := None, c_waiting_activation := None, c_alarm := None,
                        c_alarm_wake := False, c_websockets := []\<rparr>)
        })
   }"

definition fence :: "unit core" where
  "fence = do {
     s \<leftarrow> look id;
     (if st_fenced s then skip
      else do {
        upd (\<lambda>s. s\<lparr>st_fenced := True, st_activation_waiters := [], st_activation_permits := {},
          st_capacity_waiters := [], st_quiescing_cells := {}, st_adopting_cells := {},
          st_active_requests := [], st_active_cells := [], st_admitted_gates := {},
          st_admitted_gate_cells := [], st_gate_pinned := {}, st_barriers := []\<rparr>);
        for_each (bm_values (st_barriers s)) fence_barrier;
        for_each (bm_keys (st_cells s)) fence_cell
      })
   }"

definition fence_node :: "halt_reason \<Rightarrow> unit core" where
  "fence_node reason = do {
     upd (\<lambda>s. s\<lparr>st_node_authority := node_authority.Fenced\<rparr>);
     fence;
     emit (Halt 3 reason)
   }"

definition compensate_retired_runtime :: "op_id \<Rightarrow> (unit, failure) result \<Rightarrow> unit core" where
  "compensate_retired_runtime op result = do {
     found \<leftarrow> look (\<lambda>s. bm_get (st_retired_runtime_ops s) op);
     (case found of
        None \<Rightarrow> skip
      | Some (i, epoch) \<Rightarrow> do {
          upd (\<lambda>s. s\<lparr>st_retired_runtime_ops := bm_remove op (st_retired_runtime_ops s)\<rparr>);
          onlyif (result \<noteq> Err Definite) (do {
            cleanup \<leftarrow> fresh_op;
            emit (StopRuntime cleanup i epoch Fence False)
          })
        })
   }"

subsection \<open>Acquisition and renewal\<close>

definition set_authority :: "node_authority \<Rightarrow> unit core" where
  "set_authority a = upd (\<lambda>s. s\<lparr>st_node_authority := a\<rparr>)"

definition begin_node_lease_acquisition :: "nat \<Rightarrow> node_lease_spec \<Rightarrow> unit core" where
  "begin_node_lease_acquisition now_ms spec = do {
     s \<leftarrow> look id;
     let pending =
       \<lparr>pl_spec = spec,
        pl_desired =
          \<lparr>nl_node = st_node s, nl_addr = sp_addr spec,
           nl_expires_ms = sat_add now_ms (sp_ttl_ms spec),
           nl_peer_protocol = sp_peer_protocol spec, nl_generation = sp_generation spec,
           nl_log_state = None, nl_etag = ''''\<rparr>,
        pl_prior = None, pl_readback_only = False, pl_anchor_mono_ms = st_now_mono_ms s,
        pl_resume_local = False\<rparr>;
     op \<leftarrow> fresh_op;
     set_authority (Reading op pending);
     emit (ReadSelfNodeLease op)
   }"

definition start_node_lease :: "nat \<Rightarrow> node_lease_spec \<Rightarrow> unit core" where
  "start_node_lease now_ms spec = do {
     authority \<leftarrow> look st_node_authority;
     onlyif (authority = Unstarted \<or> authority = node_authority.Failed)
       (begin_node_lease_acquisition now_ms spec)
   }"

definition fail_initial_node_lease :: "node_lease_spec \<Rightarrow> unit core" where
  "fail_initial_node_lease spec = do {
     generation \<leftarrow> fresh_timer_generation;
     now \<leftarrow> look st_now_mono_ms;
     emit (ScheduleTimer (NodeLeaseRenew generation) (sat_add now (max (sp_ttl_ms spec div 3) 1)));
     set_authority (Retrying spec generation)
   }"

text \<open>\<open>std::mem::take\<close> of \<open>nudge_pending\<close>.\<close>

definition take_nudge :: "bool core" where
  "take_nudge = do {
     nudged \<leftarrow> look st_nudge_pending;
     upd (\<lambda>s. s\<lparr>st_nudge_pending := False\<rparr>);
     ret nudged
   }"

definition hold_node_lease ::
  "node_lease_spec \<Rightarrow> node_lease_record \<Rightarrow> nat \<Rightarrow> bool \<Rightarrow> bool \<Rightarrow> unit core" where
  "hold_node_lease spec record anchor_mono_ms resume_local confirm_local = do {
     generation \<leftarrow> fresh_timer_generation;
     nudged \<leftarrow> take_nudge;
     let renew_after = (if nudged then 1 else max (sp_ttl_ms spec div 3) 1);
     emit (ScheduleTimer (NodeLeaseRenew generation) (sat_add anchor_mono_ms renew_after));
     emit (ScheduleTimer (NodeLeaseFence generation) (sat_add anchor_mono_ms (sp_ttl_ms spec)));
     set_authority (Held
       \<lparr>hl_spec = spec, hl_record = record, hl_last_ok_mono_ms = anchor_mono_ms,
        hl_last_attempt_mono_ms = anchor_mono_ms, hl_timer_generation = generation\<rparr>);
     (if resume_local then do {
        upd (\<lambda>s. s\<lparr>st_resuming := True\<rparr>);
        emit ReadLocalCells
      }
      else onlyif confirm_local (do {
        upd (\<lambda>s. s\<lparr>st_confirming := True\<rparr>);
        emit ReadLocalCells
      }))
   }"

definition complete_node_lease_write ::
  "pending_node_lease \<Rightarrow> node_lease_record \<Rightarrow> nat \<Rightarrow> unit core" where
  "complete_node_lease_write pending record now_mono_ms = do {
     let expired = (sp_ttl_ms (pl_spec pending) \<le> now_mono_ms - pl_anchor_mono_ms pending);
     let hold = hold_node_lease (pl_spec pending) record (pl_anchor_mono_ms pending)
           (pl_resume_local pending) (pl_prior pending = None \<and> \<not> pl_resume_local pending);
     (case pl_prior pending of
        Some prior \<Rightarrow>
          if expired \<or> sp_ttl_ms (hl_spec prior) \<le> now_mono_ms - hl_last_ok_mono_ms prior
          then fence_node NodeLeaseExpired
          else hold
      | None \<Rightarrow> if expired then fail_initial_node_lease (pl_spec pending) else hold)
   }"

text \<open>The delay before a failed renewal is retried.\<close>

definition retry_after_failure :: "held_node_lease \<Rightarrow> nat \<Rightarrow> nat" where
  "retry_after_failure prior now_mono_ms =
     (let authority_deadline = sat_add (hl_last_ok_mono_ms prior) (sp_ttl_ms (hl_spec prior));
          remaining = authority_deadline - now_mono_ms;
          cadence = max (sp_ttl_ms (hl_spec prior) div 3) 1
      in if cadence \<le> remaining div 2 then cadence else max (remaining div 4) 1)"

definition resume_node_lease_after_failure :: "held_node_lease \<Rightarrow> nat \<Rightarrow> unit core" where
  "resume_node_lease_after_failure prior now_mono_ms = do {
     nudged \<leftarrow> take_nudge;
     let retry_after = (if nudged then 1 else retry_after_failure prior now_mono_ms);
     emit (ScheduleTimer (NodeLeaseRenew (hl_timer_generation prior))
       (sat_add now_mono_ms retry_after));
     set_authority (Held prior)
   }"

definition begin_node_lease_write :: "pending_node_lease \<Rightarrow> cas_guard \<Rightarrow> unit core" where
  "begin_node_lease_write pending guard = do {
     op \<leftarrow> fresh_op;
     set_authority (Writing op pending);
     emit (CasNodeLease op guard (pl_desired pending)
       (map_option (\<lambda>prior. nl_expires_ms (hl_record prior)) (pl_prior pending)))
   }"

definition fail_node_lease_attempt :: "pending_node_lease \<Rightarrow> nat \<Rightarrow> unit core" where
  "fail_node_lease_attempt pending now_mono_ms =
     (case pl_prior pending of
        Some prior \<Rightarrow> resume_node_lease_after_failure prior now_mono_ms
      | None \<Rightarrow> fail_initial_node_lease (pl_spec pending))"

text \<open>
  The readback that found this process's own late renewal: every identity field ours and an
  expiry between the one held and the one wanted.
\<close>

definition own_zombie :: "held_node_lease \<Rightarrow> node_lease_record \<Rightarrow> node_lease_record \<Rightarrow> bool" where
  "own_zombie prior desired record =
     (nl_node record = nl_node desired \<and> nl_addr record = nl_addr desired
      \<and> nl_peer_protocol record = nl_peer_protocol desired
      \<and> nl_generation record = nl_generation desired
      \<and> nl_log_state record = nl_log_state desired
      \<and> nl_expires_ms (hl_record prior) < nl_expires_ms record
      \<and> nl_expires_ms record \<le> nl_expires_ms desired)"

definition adopt_zombie ::
  "held_node_lease \<Rightarrow> node_lease_record \<Rightarrow> nat \<Rightarrow> nat \<Rightarrow> unit core" where
  "adopt_zombie prior record now_ms now_mono_ms = do {
     let delta = nl_expires_ms record - nl_expires_ms (hl_record prior);
     let delta_anchor = sat_add (hl_last_ok_mono_ms prior) delta;
     let observed_remaining = nl_expires_ms record - now_ms;
     let deadline = sat_add now_mono_ms observed_remaining;
     (if observed_remaining = 0 then fence_node NodeLeaseExpired
      else if deadline < sp_ttl_ms (hl_spec prior) then fence_node NodeLeaseExpired
      else do {
        let observed_anchor = deadline - sp_ttl_ms (hl_spec prior);
        let prior = prior\<lparr>hl_last_ok_mono_ms := min delta_anchor observed_anchor,
                          hl_record := record\<rparr>;
        upd (\<lambda>s. s\<lparr>st_nudge_pending := True\<rparr>);
        emit (ScheduleTimer (NodeLeaseFence (hl_timer_generation prior))
          (sat_add (hl_last_ok_mono_ms prior) (sp_ttl_ms (hl_spec prior))));
        resume_node_lease_after_failure prior now_mono_ms
      })
   }"

definition log_recovered :: "log_state option \<Rightarrow> bool" where
  "log_recovered l = (l = None \<or> l = Some Sealed)"

definition install_over ::
  "pending_node_lease \<Rightarrow> node_lease_record \<Rightarrow> nat \<Rightarrow> unit core" where
  "install_over pending record now_ms = do {
     let predecessor_unrecovered =
       (pl_prior pending = None \<and> nl_generation record \<noteq> nl_generation (pl_desired pending)
        \<and> \<not> log_recovered (nl_log_state record));
     (if predecessor_unrecovered then fail_initial_node_lease (pl_spec pending)
      else
        begin_node_lease_write
          (pending\<lparr>pl_resume_local :=
             (pl_prior pending = None \<and> \<not> pl_readback_only pending
              \<and> now_ms < nl_expires_ms record
              \<and> sp_resume_generation (pl_spec pending) = Some (nl_generation record))\<rparr>)
          (Match (nl_etag record)))
   }"

definition settle_self_read ::
  "pending_node_lease \<Rightarrow> nat \<Rightarrow> nat \<Rightarrow> (node_lease_record option, failure) result \<Rightarrow> unit core" where
  "settle_self_read pending now_ms now_mono_ms result =
     (case result of
        Err _ \<Rightarrow> fail_node_lease_attempt pending now_mono_ms
      | Ok None \<Rightarrow>
          if pl_prior pending \<noteq> None then fence_node NodeLeaseMissing
          else if pl_readback_only pending then fail_initial_node_lease (pl_spec pending)
          else begin_node_lease_write pending cas_guard.Absent
      | Ok (Some record) \<Rightarrow>
          if same_node_lease record (pl_desired pending)
          then complete_node_lease_write pending record now_mono_ms
          else
            (case pl_prior pending of
               Some prior \<Rightarrow>
                 if same_node_lease record (hl_record prior)
                 then resume_node_lease_after_failure
                        (prior\<lparr>hl_record := (hl_record prior)\<lparr>nl_etag := nl_etag record\<rparr>\<rparr>) now_mono_ms
                 else if own_zombie prior (pl_desired pending) record
                 then adopt_zombie prior record now_ms now_mono_ms
                 else fence_node NodeLeaseMismatch
             | None \<Rightarrow>
                 if pl_readback_only pending then fail_initial_node_lease (pl_spec pending)
                 else install_over pending record now_ms))"

definition read_self_node_lease ::
  "op_id \<Rightarrow> nat \<Rightarrow> nat \<Rightarrow> (node_lease_record option, failure) result \<Rightarrow> unit core" where
  "read_self_node_lease op now_ms now_mono_ms result = do {
     authority \<leftarrow> look st_node_authority;
     (case authority of
        Reading current pending \<Rightarrow>
          if current \<noteq> op then skip
          else do {
            set_authority node_authority.Failed;
            settle_self_read pending now_ms now_mono_ms result
          }
      | _ \<Rightarrow> skip)
   }"

definition read_back :: "pending_node_lease \<Rightarrow> unit core" where
  "read_back pending = do {
     op \<leftarrow> fresh_op;
     set_authority (Reading op pending);
     emit (ReadSelfNodeLease op)
   }"

definition settle_self_write ::
  "pending_node_lease \<Rightarrow> nat \<Rightarrow> (lease_cas_outcome, failure) result \<Rightarrow> log_state option \<Rightarrow>
   unit core" where
  "settle_self_write pending now_mono_ms result stamped_log_state =
     (case result of
        Ok (lease_cas_outcome.Applied etag) \<Rightarrow>
          complete_node_lease_write pending
            ((pl_desired pending)\<lparr>nl_etag := etag, nl_log_state := stamped_log_state\<rparr>) now_mono_ms
      | Ok lease_cas_outcome.Rejected \<Rightarrow>
          read_back (pending\<lparr>pl_desired :=
            (pl_desired pending)\<lparr>nl_log_state := stamped_log_state\<rparr>\<rparr>)
      | Err failure.Ambiguous \<Rightarrow>
          read_back (pending\<lparr>pl_readback_only := True,
            pl_desired := (pl_desired pending)\<lparr>nl_log_state := stamped_log_state\<rparr>\<rparr>)
      | Err Definite \<Rightarrow> fail_node_lease_attempt pending now_mono_ms)"

definition node_lease_cas_completed ::
  "op_id \<Rightarrow> nat \<Rightarrow> (lease_cas_outcome, failure) result \<Rightarrow> log_state option \<Rightarrow> unit core" where
  "node_lease_cas_completed op now_mono_ms result stamped_log_state = do {
     authority \<leftarrow> look st_node_authority;
     (case authority of
        Writing current pending \<Rightarrow>
          if current \<noteq> op then skip
          else do {
            set_authority node_authority.Failed;
            settle_self_write pending now_mono_ms result stamped_log_state
          }
      | _ \<Rightarrow> skip)
   }"

subsection \<open>The lease timers\<close>

definition held_lease :: "node_authority \<Rightarrow> held_node_lease option" where
  "held_lease a =
     (case a of
        Held held \<Rightarrow> Some held
      | Reading _ pending \<Rightarrow> pl_prior pending
      | Writing _ pending \<Rightarrow> pl_prior pending
      | _ \<Rightarrow> None)"

definition lease_expired :: "held_node_lease \<Rightarrow> nat \<Rightarrow> nat \<Rightarrow> bool" where
  "lease_expired held now_ms now_mono_ms =
     (nl_expires_ms (hl_record held) \<le> now_ms
      \<or> sp_ttl_ms (hl_spec held) \<le> now_mono_ms - hl_last_ok_mono_ms held)"

definition renew_node_lease :: "held_node_lease \<Rightarrow> nat \<Rightarrow> nat \<Rightarrow> unit core" where
  "renew_node_lease prior now_ms now_mono_ms = do {
     node \<leftarrow> look st_node;
     let prior = prior\<lparr>hl_last_attempt_mono_ms := now_mono_ms\<rparr>;
     let spec = hl_spec prior;
     let desired =
       \<lparr>nl_node = node, nl_addr = sp_addr spec, nl_expires_ms = sat_add now_ms (sp_ttl_ms spec),
        nl_peer_protocol = sp_peer_protocol spec, nl_generation = sp_generation spec,
        nl_log_state = nl_log_state (hl_record prior), nl_etag = ''''\<rparr>;
     begin_node_lease_write
       \<lparr>pl_spec = spec, pl_desired = desired, pl_prior = Some prior, pl_readback_only = False,
        pl_anchor_mono_ms = now_mono_ms, pl_resume_local = False\<rparr>
       (Match (nl_etag (hl_record prior)))
   }"

text \<open>The part of \<open>timer_fired\<close> that concerns the node lease.\<close>

definition node_lease_timer :: "timer \<Rightarrow> nat \<Rightarrow> nat \<Rightarrow> unit core" where
  "node_lease_timer timer now_ms now_mono_ms = do {
     authority \<leftarrow> look st_node_authority;
     (case authority of
        Retrying spec generation \<Rightarrow>
          onlyif (timer = NodeLeaseRenew generation) (begin_node_lease_acquisition now_ms spec)
      | _ \<Rightarrow>
          (case held_lease authority of
             None \<Rightarrow> skip
           | Some held \<Rightarrow>
               if (timer = NodeLeaseFence (hl_timer_generation held)
                   \<or> timer = NodeLeaseRenew (hl_timer_generation held))
                  \<and> lease_expired held now_ms now_mono_ms
               then fence_node NodeLeaseExpired
               else if timer = NodeLeaseRenew (hl_timer_generation held) \<and> authority = Held held
               then renew_node_lease held now_ms now_mono_ms
               else skip))
   }"

definition nudge_node_lease :: "nat \<Rightarrow> nat \<Rightarrow> unit core" where
  "nudge_node_lease now_ms now_mono_ms = do {
     authority \<leftarrow> look st_node_authority;
     (case authority of
        Held held \<Rightarrow> node_lease_timer (NodeLeaseRenew (hl_timer_generation held)) now_ms now_mono_ms
      | Writing _ _ \<Rightarrow> upd (\<lambda>s. s\<lparr>st_nudge_pending := True\<rparr>)
      | Reading _ _ \<Rightarrow> upd (\<lambda>s. s\<lparr>st_nudge_pending := True\<rparr>)
      | _ \<Rightarrow> skip)
   }"

section \<open>The handlers keep the invariant\<close>

lemma tri_authority:
  "(x = Unstarted \<Longrightarrow> tri P I m1 Q) \<Longrightarrow>
   (\<And>op pending. x = Reading op pending \<Longrightarrow> tri P I (m2 op pending) Q) \<Longrightarrow>
   (\<And>op pending. x = Writing op pending \<Longrightarrow> tri P I (m3 op pending) Q) \<Longrightarrow>
   (\<And>held. x = Held held \<Longrightarrow> tri P I (m4 held) Q) \<Longrightarrow>
   (\<And>spec generation. x = Retrying spec generation \<Longrightarrow> tri P I (m5 spec generation) Q) \<Longrightarrow>
   (x = node_authority.Failed \<Longrightarrow> tri P I m6 Q) \<Longrightarrow>
   (x = node_authority.Fenced \<Longrightarrow> tri P I m7 Q) \<Longrightarrow>
   tri P I
     (case x of
        Unstarted \<Rightarrow> m1
      | Reading op pending \<Rightarrow> m2 op pending
      | Writing op pending \<Rightarrow> m3 op pending
      | Held held \<Rightarrow> m4 held
      | Retrying spec generation \<Rightarrow> m5 spec generation
      | node_authority.Failed \<Rightarrow> m6
      | node_authority.Fenced \<Rightarrow> m7) Q"
  by (simp split: node_authority.split)

lemma tri_lease_cas:
  "(\<And>etag. x = lease_cas_outcome.Applied etag \<Longrightarrow> tri P I (f etag) Q) \<Longrightarrow>
   (x = lease_cas_outcome.Rejected \<Longrightarrow> tri P I m Q) \<Longrightarrow>
   tri P I
     (case x of
        lease_cas_outcome.Applied etag \<Rightarrow> f etag
      | lease_cas_outcome.Rejected \<Rightarrow> m) Q"
  by (simp split: lease_cas_outcome.split)

lemma tri_failure:
  "(x = Definite \<Longrightarrow> tri P I m Q) \<Longrightarrow> (x = failure.Ambiguous \<Longrightarrow> tri P I m' Q) \<Longrightarrow>
   tri P I (case x of Definite \<Rightarrow> m | failure.Ambiguous \<Rightarrow> m') Q"
  by (simp split: failure.split)

lemmas lease_struct = tri_authority tri_lease_cas tri_failure

context core_proof begin

lemma fence_barrier_ok [core_ok]: "tri P (core_inv h) (fence_barrier gate) (\<lambda>_. core_inv h)"
  unfolding fence_barrier_def
  by (rule core_ok tri_owner core_struct | simp add: acked_def)+

lemma fence_cell_ok [core_ok]: "tri P (core_inv none_held) (fence_cell i) (\<lambda>_. core_inv none_held)"
  unfolding fence_cell_def by (rule core_ok core_struct | simp add: benign_def acked_def)+

lemma fence_ok [core_ok]: "tri P (core_inv none_held) fence (\<lambda>_. core_inv none_held)"
  unfolding fence_def by (rule core_ok lease_struct core_struct | simp add: benign_def acked_def)+

lemma compensate_retired_runtime_ok [core_ok]:
  "tri P (core_inv none_held) (compensate_retired_runtime op result) (\<lambda>_. core_inv none_held)"
  unfolding compensate_retired_runtime_def by (rule core_ok lease_struct core_struct | simp add: benign_def acked_def)+

lemma take_nudge_ok [core_ok]: "tri P (core_inv none_held) take_nudge (\<lambda>_. core_inv none_held)"
  unfolding take_nudge_def by (rule core_ok lease_struct core_struct | simp add: benign_def acked_def)+

end

text \<open>The handlers of the lease itself move the authority.\<close>

locale lease_proof = core_proof +
  assumes free: "moves P a b"
begin

lemma set_authority_ok [core_ok]: "tri P (core_inv h) (set_authority a) (\<lambda>_. core_inv h)"
proof -
  have "core_inv h (s\<lparr>st_node_authority := a\<rparr>)" if "core_inv h s" for s
    using that by (auto simp: core_inv_def walked_def eviction_ceiling_def)
  then show ?thesis
    unfolding set_authority_def
    by (rule tri_upd) (simp_all add: core_le_def emits_only_def free r_into_rtranclp)
qed

lemma fence_node_ok [core_ok]:
  "tri P (core_inv none_held) (fence_node reason) (\<lambda>_. core_inv none_held)"
  unfolding fence_node_def set_authority_def [symmetric] by (rule core_ok lease_struct core_struct | simp add: benign_def acked_def)+

lemma begin_node_lease_acquisition_ok [core_ok]:
  "tri P (core_inv none_held) (begin_node_lease_acquisition now_ms spec) (\<lambda>_. core_inv none_held)"
  unfolding begin_node_lease_acquisition_def by (rule core_ok lease_struct core_struct | simp add: benign_def acked_def)+

lemma start_node_lease_ok [core_ok]:
  "tri P (core_inv none_held) (start_node_lease now_ms spec) (\<lambda>_. core_inv none_held)"
  unfolding start_node_lease_def by (rule core_ok lease_struct core_struct | simp add: benign_def acked_def)+

lemma fail_initial_node_lease_ok [core_ok]:
  "tri P (core_inv none_held) (fail_initial_node_lease spec) (\<lambda>_. core_inv none_held)"
  unfolding fail_initial_node_lease_def by (rule core_ok lease_struct core_struct | simp add: benign_def acked_def)+

lemma hold_node_lease_ok [core_ok]:
  "tri P (core_inv none_held) (hold_node_lease spec record anchor resume_local confirm_local) (\<lambda>_. core_inv none_held)"
  unfolding hold_node_lease_def by (rule core_ok lease_struct core_struct | simp add: benign_def acked_def)+

lemma complete_node_lease_write_ok [core_ok]:
  "tri P (core_inv none_held) (complete_node_lease_write pending record now_mono_ms) (\<lambda>_. core_inv none_held)"
  unfolding complete_node_lease_write_def by (rule core_ok lease_struct core_struct | simp add: benign_def acked_def)+

lemma resume_node_lease_after_failure_ok [core_ok]:
  "tri P (core_inv none_held) (resume_node_lease_after_failure prior now_mono_ms) (\<lambda>_. core_inv none_held)"
  unfolding resume_node_lease_after_failure_def by (rule core_ok lease_struct core_struct | simp add: benign_def acked_def)+

lemma begin_node_lease_write_ok [core_ok]:
  "tri P (core_inv none_held) (begin_node_lease_write pending guard) (\<lambda>_. core_inv none_held)"
  unfolding begin_node_lease_write_def by (rule core_ok lease_struct core_struct | simp add: benign_def acked_def)+

lemma fail_node_lease_attempt_ok [core_ok]:
  "tri P (core_inv none_held) (fail_node_lease_attempt pending now_mono_ms) (\<lambda>_. core_inv none_held)"
  unfolding fail_node_lease_attempt_def by (rule core_ok lease_struct core_struct | simp add: benign_def acked_def)+

lemma adopt_zombie_ok [core_ok]:
  "tri P (core_inv none_held) (adopt_zombie prior record now_ms now_mono_ms) (\<lambda>_. core_inv none_held)"
  unfolding adopt_zombie_def by (rule core_ok lease_struct core_struct | simp add: benign_def acked_def)+

lemma install_over_ok [core_ok]:
  "tri P (core_inv none_held) (install_over pending record now_ms) (\<lambda>_. core_inv none_held)"
  unfolding install_over_def by (rule core_ok lease_struct core_struct | simp add: benign_def acked_def)+

lemma settle_self_read_ok [core_ok]:
  "tri P (core_inv none_held) (settle_self_read pending now_ms now_mono_ms result) (\<lambda>_. core_inv none_held)"
  unfolding settle_self_read_def by (rule core_ok lease_struct core_struct | simp add: benign_def acked_def)+

lemma read_self_node_lease_ok [core_ok]:
  "tri P (core_inv none_held) (read_self_node_lease op now_ms now_mono_ms result) (\<lambda>_. core_inv none_held)"
  unfolding read_self_node_lease_def by (rule core_ok lease_struct core_struct | simp add: benign_def acked_def)+

lemma read_back_ok [core_ok]:
  "tri P (core_inv none_held) (read_back pending) (\<lambda>_. core_inv none_held)"
  unfolding read_back_def by (rule core_ok lease_struct core_struct | simp add: benign_def acked_def)+

lemma settle_self_write_ok [core_ok]:
  "tri P (core_inv none_held) (settle_self_write pending now_mono_ms result stamped) (\<lambda>_. core_inv none_held)"
  unfolding settle_self_write_def by (rule core_ok lease_struct core_struct | simp add: benign_def acked_def)+

lemma node_lease_cas_completed_ok [core_ok]:
  "tri P (core_inv none_held) (node_lease_cas_completed op now_mono_ms result stamped) (\<lambda>_. core_inv none_held)"
  unfolding node_lease_cas_completed_def by (rule core_ok lease_struct core_struct | simp add: benign_def acked_def)+

lemma renew_node_lease_ok [core_ok]:
  "tri P (core_inv none_held) (renew_node_lease prior now_ms now_mono_ms) (\<lambda>_. core_inv none_held)"
  unfolding renew_node_lease_def by (rule core_ok lease_struct core_struct | simp add: benign_def acked_def)+

lemma node_lease_timer_ok [core_ok]:
  "tri P (core_inv none_held) (node_lease_timer timer now_ms now_mono_ms) (\<lambda>_. core_inv none_held)"
  unfolding node_lease_timer_def by (rule core_ok lease_struct core_struct | simp add: benign_def acked_def)+

lemma nudge_node_lease_ok [core_ok]:
  "tri P (core_inv none_held) (nudge_node_lease now_ms now_mono_ms) (\<lambda>_. core_inv none_held)"
  unfolding nudge_node_lease_def by (rule core_ok lease_struct core_struct | simp add: benign_def acked_def)+

end

end
