(* ===== verification/Activation.thy ===== *)
theory Activation
  imports Eviction
begin

text \<open>
  Cold routes and admission (\<open>lib.rs\<close>): the activation ceiling and its queue, the residency ceiling and
  its queue, the start of an activation, the adoption and the confirmation of local cells after a
  restart, the resident chosen for a Worker request, and the folding of a load sample.

  Every turn of the two pumps takes one waiter off its queue and adds none to it, so the length
  of the queue is enough fuel.
\<close>

section \<open>Definitions\<close>

definition refuse_new_ownership_during_drain ::
  "cell_id \<Rightarrow> cell \<Rightarrow> node_id option \<Rightarrow> (bool \<times> cell) core" where
  "refuse_new_ownership_during_drain i c prior = do {
     s \<leftarrow> look id;
     (if \<not> st_draining s \<or> prior = Some (st_node s) then ret (False, c)
      else do {
        c \<leftarrow> set_phase (c\<lparr>c_waiting_for := None\<rparr>) Inactive;
        c \<leftarrow> finish_requests i c (Err request_error.NodeUnavailable);
        ret (True, c)
      })
   }"

definition refuse_claim :: "cell_id \<Rightarrow> cell \<Rightarrow> activation \<Rightarrow> (bool \<times> cell) core" where
  "refuse_claim i c act =
     (case act of
        Claim claim \<Rightarrow> refuse_new_ownership_during_drain i c (cl_prior claim)
      | activation.Restore _ \<Rightarrow> ret (False, c))"

definition start_activation :: "cell_id \<Rightarrow> cell \<Rightarrow> activation \<Rightarrow> cell core" where
  "start_activation i c act = do {
     handoffs \<leftarrow> look st_handoff_requests;
     let dormant = (c_requests c \<noteq> {} \<and> c_requests c \<subseteq> handoffs);
     op \<leftarrow> cell_op i;
     (case act of
        Claim claim \<Rightarrow> do {
          c \<leftarrow> set_phase (c\<lparr>c_waiting_for := None\<rparr>) (Acquiring op claim dormant);
          emit (CasOwner op i (cl_guard claim) (cl_epoch claim) (cl_takeover claim));
          ret c
        }
      | activation.Restore spec \<Rightarrow> do {
          c \<leftarrow> set_phase (c\<lparr>c_waiting_for := None\<rparr>) (Restoring op spec);
          emit (effect.Restore op i spec);
          ret c
        })
   }"

definition begin_activation :: "cell_id \<Rightarrow> cell \<Rightarrow> activation \<Rightarrow> cell core" where
  "begin_activation i c act = do {
     (refused, c) \<leftarrow> refuse_claim i c act;
     (if refused then ret c else start_activation i c act)
   }"

definition idle_phase_of :: "activation \<Rightarrow> phase" where
  "idle_phase_of act =
     (case act of Claim _ \<Rightarrow> Inactive | activation.Restore spec \<Rightarrow> Dormant (rs_epoch spec))"

definition activate_or_wait :: "cell_id \<Rightarrow> cell \<Rightarrow> activation \<Rightarrow> when_full \<Rightarrow> cell core" where
  "activate_or_wait i c act when_full = do {
     (refused, c) \<leftarrow> refuse_claim i c act;
     s \<leftarrow> look id;
     (if refused then ret c
      else if c_requests c = {} \<and> \<not> c_alarm_wake c \<and> \<not> c_resume_demand c \<and> \<not> c_confirming c
      then set_phase c (idle_phase_of act)
      else if has_capacity s then begin_activation i c act
      else do {
        c \<leftarrow> set_phase c WaitingCapacity;
        upd (\<lambda>s. s\<lparr>st_capacity_waiters := st_capacity_waiters s @ [i]\<rparr>);
        c \<leftarrow> watch_queued i (c\<lparr>c_waiting_for := Some act\<rparr>);
        onlyif (when_full = ShedToAdmit) shed_one;
        ret c
      })
   }"

definition begin_cold_route :: "cell_id \<Rightarrow> cell \<Rightarrow> cold_start \<Rightarrow> cell core" where
  "begin_cold_route i c start = do {
     let c = c\<lparr>c_waiting_activation := None\<rparr>;
     (case start of
        cold_start.ReadOwner \<Rightarrow> do {
          op \<leftarrow> cell_op i;
          c \<leftarrow> set_phase c (ReadingOwner op);
          emit (effect.ReadOwner op i);
          ret c
        }
      | cold_start.Restore spec \<Rightarrow>
          activate_or_wait i c (activation.Restore spec) ShedToAdmit)
   }"

definition admit_or_queue_activation :: "cell_id \<Rightarrow> cell \<Rightarrow> cold_start \<Rightarrow> cell core" where
  "admit_or_queue_activation i c start = do {
     s \<leftarrow> look id;
     (if i \<in> st_activation_permits s then begin_cold_route i c start
      else if card (st_activation_permits s) < cf_max_activations (st_config s) then do {
        upd (\<lambda>s. s\<lparr>st_activation_permits := insert i (st_activation_permits s)\<rparr>);
        begin_cold_route i c start
      }
      else do {
        c \<leftarrow> set_phase c WaitingActivation;
        upd (\<lambda>s. s\<lparr>st_activation_waiters := st_activation_waiters s @ [i]\<rparr>);
        watch_queued i (c\<lparr>c_waiting_activation := Some start\<rparr>)
      })
   }"

text \<open>One turn of the activation pump, on the waiter taken from the front of the queue.\<close>

definition admit_waiter :: "cell_id \<Rightarrow> unit core" where
  "admit_waiter i = do {
     found \<leftarrow> take_cell i;
     (case found of
        None \<Rightarrow> skip
      | Some c \<Rightarrow>
          if c_phase c \<noteq> WaitingActivation then put_cell i c
          else
            (case c_waiting_activation c of
               None \<Rightarrow> put_cell i c
             | Some start \<Rightarrow> do {
                 let c = c\<lparr>c_waiting_activation := None\<rparr>;
                 c \<leftarrow> (if c_requests c = {} \<and> \<not> c_alarm_wake c \<and> \<not> c_resume_demand c
                          \<and> \<not> c_confirming c
                       then set_phase c
                              (case start of
                                 cold_start.ReadOwner \<Rightarrow> Inactive
                               | cold_start.Restore spec \<Rightarrow> Dormant (rs_epoch spec))
                       else do {
                         upd (\<lambda>s. s\<lparr>st_activation_permits := insert i (st_activation_permits s)\<rparr>);
                         begin_cold_route i c start
                       });
                 put_cell i c
               }))
   }"

primrec pump_activations_loop :: "nat \<Rightarrow> unit core" where
  "pump_activations_loop 0 = skip"
| "pump_activations_loop (Suc fuel) = do {
     s \<leftarrow> look id;
     (if card (st_activation_permits s) < cf_max_activations (st_config s) then
        (case st_activation_waiters s of
           [] \<Rightarrow> skip
         | i # rest \<Rightarrow> do {
             upd (\<lambda>s. s\<lparr>st_activation_waiters := rest\<rparr>);
             admit_waiter i;
             pump_activations_loop fuel
           })
      else skip)
   }"

definition pump_activations :: "unit core" where
  "pump_activations = do {
     upd (\<lambda>s. s\<lparr>st_activation_permits :=
       Set.filter (\<lambda>i.
         case bm_get (st_cells s) i of None \<Rightarrow> False | Some c \<Rightarrow> phase_holds_activation (c_phase c))
         (st_activation_permits s)\<rparr>);
     waiters \<leftarrow> look st_activation_waiters;
     pump_activations_loop (length waiters)
   }"

definition admit_capacity_waiter :: "cell_id \<Rightarrow> unit core" where
  "admit_capacity_waiter i = do {
     found \<leftarrow> take_cell i;
     (case found of
        None \<Rightarrow> skip
      | Some c \<Rightarrow>
          if c_phase c \<noteq> WaitingCapacity then put_cell i c
          else
            (case c_waiting_for c of
               None \<Rightarrow> put_cell i c
             | Some act \<Rightarrow> do {
                 let c = c\<lparr>c_waiting_for := None\<rparr>;
                 c \<leftarrow> (if c_requests c = {} \<and> \<not> c_alarm_wake c \<and> \<not> c_resume_demand c
                       then set_phase c (idle_phase_of act)
                       else begin_activation i c act);
                 put_cell i c
               }))
   }"

primrec pump_capacity_loop :: "nat \<Rightarrow> unit core" where
  "pump_capacity_loop 0 = skip"
| "pump_capacity_loop (Suc fuel) = do {
     s \<leftarrow> look id;
     (if has_capacity s then
        (case st_capacity_waiters s of
           [] \<Rightarrow> skip
         | i # rest \<Rightarrow> do {
             upd (\<lambda>s. s\<lparr>st_capacity_waiters := rest\<rparr>);
             admit_capacity_waiter i;
             pump_capacity_loop fuel
           })
      else skip)
   }"

definition pump_capacity :: "unit core" where
  "pump_capacity = do {
     waiters \<leftarrow> look st_capacity_waiters;
     pump_capacity_loop (length waiters);
     shed_one
   }"

subsection \<open>Local cells after a restart\<close>

definition sort_dedup :: "local_cell list \<Rightarrow> local_cell list" where
  "sort_dedup cells = remdups_adj (sort_key (\<lambda>l. (lc_id l, lc_epoch l, lc_live l)) cells)"

definition confirm_local_cell :: "local_cell \<Rightarrow> unit core" where
  "confirm_local_cell l = do {
     s \<leftarrow> look id;
     (if bm_has (st_cells s) (lc_id l) \<or> lc_id l \<in> st_confirming_cells s then skip
      else do {
        upd (\<lambda>s. s\<lparr>st_confirming_cells := insert (lc_id l) (st_confirming_cells s)\<rparr>);
        c \<leftarrow> admit_or_queue_activation (lc_id l) (cell_default\<lparr>c_confirming := True\<rparr>)
               cold_start.ReadOwner;
        put_cell (lc_id l) c
      })
   }"

definition confirm_local_cells :: "(local_cell list, failure) result \<Rightarrow> unit core" where
  "confirm_local_cells result =
     (case result of
        Err _ \<Rightarrow> upd (\<lambda>s. s\<lparr>st_confirming := False\<rparr>)
      | Ok cells \<Rightarrow> do {
          for_each (sort_dedup cells) confirm_local_cell;
          empty \<leftarrow> look (\<lambda>s. st_confirming_cells s = {});
          onlyif empty (upd (\<lambda>s. s\<lparr>st_confirming := False\<rparr>))
        })"

definition resume_local_cell :: "local_cell \<Rightarrow> unit core" where
  "resume_local_cell l = do {
     upd (\<lambda>s. s\<lparr>st_resuming_cells := insert (lc_id l) (st_resuming_cells s)\<rparr>);
     c \<leftarrow> admit_or_queue_activation (lc_id l) (cell_default\<lparr>c_resume_demand := True\<rparr>)
            (cold_start.Restore
              \<lparr>rs_epoch = lc_epoch l, rs_fresh = False, rs_took_over = False,
               rs_resume_local = True, rs_prior = None\<rparr>);
     put_cell (lc_id l) c
   }"

definition local_cells_read :: "(local_cell list, failure) result \<Rightarrow> unit core" where
  "local_cells_read result = do {
     s \<leftarrow> look id;
     (if st_confirming s then confirm_local_cells result
      else if \<not> st_resuming s then skip
      else
        (case result of
           Err _ \<Rightarrow> upd (\<lambda>s. s\<lparr>st_resuming := False\<rparr>)
         | Ok listed \<Rightarrow>
             let cells = sort_dedup (filter lc_live listed) in
             if cf_max_resident (st_config s) < length cells \<or> st_cells s \<noteq> []
             then upd (\<lambda>s. s\<lparr>st_resuming := False\<rparr>)
             else do {
               for_each cells resume_local_cell;
               empty \<leftarrow> look (\<lambda>s. st_resuming_cells s = {});
               onlyif empty (upd (\<lambda>s. s\<lparr>st_resuming := False\<rparr>))
             }))
   }"

text \<open>
  What the node's disk guarantees of the listing: a clean stop leaves one live epoch of a cell
  (\<open>prune_stale_live\<close> of \<open>ltx_repl.rs\<close> deletes the others).
\<close>

definition one_live_epoch :: "(local_cell list, failure) result \<Rightarrow> bool" where
  "one_live_epoch result =
     (case result of
        Err _ \<Rightarrow> True
      | Ok cells \<Rightarrow> distinct (map lc_id (sort_dedup (filter lc_live cells))))"

subsection \<open>Worker requests and load samples\<close>

definition worker_candidates :: "core_state \<Rightarrow> (cell_id \<times> epoch) list" where
  "worker_candidates s =
     List.map_filter (\<lambda>(i, c).
       case as_published (c_phase c) of
         None \<Rightarrow> None
       | Some epoch \<Rightarrow>
           if c_quiescing c \<or> is_active s i \<or> is_firing (c_alarm c) then None
           else Some (i, epoch)) (st_cells s)"

definition worker_choice :: "core_state \<Rightarrow> (cell_id \<times> epoch) option" where
  "worker_choice s =
     (case List.find (\<lambda>(i, _).
             case st_worker_cursor s of None \<Rightarrow> True | Some cursor \<Rightarrow> cursor < i)
             (worker_candidates s) of
        Some choice \<Rightarrow> Some choice
      | None \<Rightarrow> (case worker_candidates s of [] \<Rightarrow> None | choice # _ \<Rightarrow> Some choice))"

definition worker_request :: "request_id \<Rightarrow> unit core" where
  "worker_request request = do {
     choice \<leftarrow> look worker_choice;
     (case choice of
        None \<Rightarrow> emit (CompleteWorker request None)
      | Some (i, epoch) \<Rightarrow> do {
          upd (\<lambda>s. s\<lparr>st_worker_cursor := Some i\<rparr>);
          activate_request request i;
          found \<leftarrow> take_cell i;
          (case found of
             None \<Rightarrow> skip
           | Some c \<Rightarrow> do {
               c \<leftarrow> (case as_ensuring (c_phase c) of
                       None \<Rightarrow> ret c
                     | Some _ \<Rightarrow> cancel_eviction i c epoch Activity);
               now \<leftarrow> look st_now_mono_ms;
               put_cell i (record_local_request c request now)
             });
          emit (CompleteWorker request (Some \<lparr>wr_cell = i, wr_epoch = epoch\<rparr>))
        })
   }"

definition load_sampled :: "load \<Rightarrow> nat \<Rightarrow> unit core" where
  "load_sampled load now_mono_ms = do {
     s \<leftarrow> look id;
     let pressure = cf_pressure (st_config s);
     let (latches, reason) = classify pressure load (st_latches s);
     upd (\<lambda>s. s\<lparr>st_memory_headroom := has_headroom pressure load, st_latches := latches,
       st_shed_reason := reason, st_shedding := (reason \<noteq> None)\<rparr>);
     (if reason = None then do {
        upd (\<lambda>s. s\<lparr>st_shed_cut := None\<rparr>);
        pump_capacity;
        evict_idle now_mono_ms
      }
      else do {
        let metric = walk_metric latches;
        let sample_bytes = metric_bytes load metric;
        upd (\<lambda>s. s\<lparr>st_shed_cut :=
          (case st_shed_cut s of
             None \<Rightarrow> None
           | Some last_cut \<Rightarrow> if sc_metric last_cut \<noteq> metric then None else Some last_cut)\<rparr>);
        s \<leftarrow> look id;
        let futile =
          (case st_shed_cut s of
             None \<Rightarrow> False
           | Some last_cut \<Rightarrow>
               let landed = (st_occupied s \<le> st_shed_floor s \<and> st_eviction_permits s = {});
                   rose = (sat_add (sc_bytes last_cut) (sc_bytes last_cut div 100) < sample_bytes)
               in landed \<and> \<not> rose \<and> \<not> shedding_can_reach_resume_line s last_cut sample_bytes);
        (if futile then skip
         else do {
           upd (\<lambda>s. s\<lparr>st_shed_floor := release_target (ld_resident_cells load),
             st_shed_cut := Some \<lparr>sc_metric = metric, sc_bytes = sample_bytes,
               sc_cells = ld_resident_cells load\<rparr>\<rparr>);
           shed_toward_floor
         })
      })
   }"

section \<open>Every handler keeps the invariant\<close>

lemma idle_phase_free [simp]: "\<not> phase_occupies_capacity (idle_phase_of act)"
  by (simp add: idle_phase_of_def split: activation.split)

lemma tri_activation:
  "(\<And>claim. x = Claim claim \<Longrightarrow> tri P I (f claim) Q) \<Longrightarrow>
   (\<And>spec. x = activation.Restore spec \<Longrightarrow> tri P I (g spec) Q) \<Longrightarrow>
   tri P I (case x of Claim claim \<Rightarrow> f claim | activation.Restore spec \<Rightarrow> g spec) Q"
  by (simp split: activation.split)

lemma tri_cold_start:
  "(x = cold_start.ReadOwner \<Longrightarrow> tri P I m Q) \<Longrightarrow>
   (\<And>spec. x = cold_start.Restore spec \<Longrightarrow> tri P I (g spec) Q) \<Longrightarrow>
   tri P I (case x of cold_start.ReadOwner \<Rightarrow> m | cold_start.Restore spec \<Rightarrow> g spec) Q"
  by (simp split: cold_start.split)

context core_proof begin

lemma refuse_new_ownership_ok [core_ok]:
  "n = occ c \<Longrightarrow> tri P (core_inv (A, n)) (refuse_new_ownership_during_drain i c prior)
     (\<lambda>x. core_inv (A, occ (snd x)))"
  unfolding refuse_new_ownership_during_drain_def by (rule core_ok core_struct | simp)+

lemma refuse_claim_ok [core_ok]:
  "n = occ c \<Longrightarrow> tri P (core_inv (A, n)) (refuse_claim i c act)
     (\<lambda>x. core_inv (A, occ (snd x)))"
  unfolding refuse_claim_def by (rule tri_activation core_ok core_struct | simp)+

text \<open>A claim that is not refused leaves the cell and the state as they are.\<close>

lemma refuse_new_ownership_frame:
  assumes "\<And>s. I s \<Longrightarrow> core_inv (A, occ c) s"
  shows "tri P I (refuse_new_ownership_during_drain i c prior)
    (\<lambda>x s. if fst x then core_inv (A, occ (snd x)) s else snd x = c \<and> I s)"
  unfolding refuse_new_ownership_during_drain_def
proof (rule tri_bind_state, rule tri_if)
  fix s0
  show "tri P (\<lambda>s. I s \<and> s = s0) (ret (False, c))
      (\<lambda>x s. if fst x then core_inv (A, occ (snd x)) s else snd x = c \<and> I s)"
    by (rule tri_ret) simp
  have "tri P (core_inv (A, occ c))
      (do {
         c \<leftarrow> set_phase (c\<lparr>c_waiting_for := None\<rparr>) Inactive;
         c \<leftarrow> finish_requests i c (Err request_error.NodeUnavailable);
         ret (True, c)
       })
      (\<lambda>x s. if fst x then core_inv (A, occ (snd x)) s else snd x = c \<and> I s)"
    by (rule inv_bind_cell core_ok inv_set_phase tri_ret | simp)+
  then show "tri P (\<lambda>s. I s \<and> s = s0)
      (do {
         c \<leftarrow> set_phase (c\<lparr>c_waiting_for := None\<rparr>) Inactive;
         c \<leftarrow> finish_requests i c (Err request_error.NodeUnavailable);
         ret (True, c)
       })
      (\<lambda>x s. if fst x then core_inv (A, occ (snd x)) s else snd x = c \<and> I s)"
    by (rule tri_pre) (use assms in blast)
qed

lemma refuse_claim_frame:
  assumes "\<And>s. I s \<Longrightarrow> core_inv (A, occ c) s"
  shows "tri P I (refuse_claim i c act)
    (\<lambda>x s. if fst x then core_inv (A, occ (snd x)) s else snd x = c \<and> I s)"
  unfolding refuse_claim_def
  by (rule tri_activation refuse_new_ownership_frame assms tri_ret | assumption | simp)+

lemma start_activation_ok:
  assumes n: "n = occ c" and claims: "K \<Longrightarrow> \<exists>claim. act = Claim claim"
  shows "tri P (\<lambda>s. core_inv (A, n) s \<and>
      (room s \<or> K \<and> c_requests c \<noteq> {} \<and> c_requests c \<subseteq> st_handoff_requests s))
    (start_activation i c act) (\<lambda>c. core_inv (A, occ c))"
  unfolding start_activation_def Let_def
proof (rule tri_bind [OF tri_look], rule tri_pre)
  fix handoffs
  let ?D = "K \<and> c_requests c \<noteq> {} \<and> c_requests c \<subseteq> handoffs"
  show "tri P (\<lambda>s. core_inv (A, n) s \<and> (room s \<or> ?D))
     (do {
        op \<leftarrow> cell_op i;
        (case act of
           Claim claim \<Rightarrow> do {
             c \<leftarrow> set_phase (c\<lparr>c_waiting_for := None\<rparr>)
                   (Acquiring op claim (c_requests c \<noteq> {} \<and> c_requests c \<subseteq> handoffs));
             emit (CasOwner op i (cl_guard claim) (cl_epoch claim) (cl_takeover claim));
             ret c
           }
         | activation.Restore spec \<Rightarrow> do {
             c \<leftarrow> set_phase (c\<lparr>c_waiting_for := None\<rparr>) (Restoring op spec);
             emit (effect.Restore op i spec);
             ret c
           })
      }) (\<lambda>c. core_inv (A, occ c))"
    using claims
    by (intro tri_bind [OF room_cell_op] tri_activation tri_bind [OF room_set_phase])
      (auto simp: n intro!: inv_bind quiet_emit inv_ret_cell simp: acked_def)
qed auto

lemma begin_activation_ok:
  assumes n: "n = occ c" and claims: "K \<Longrightarrow> \<exists>claim. act = Claim claim"
  shows "tri P (\<lambda>s. core_inv (A, n) s \<and>
      (room s \<or> K \<and> c_requests c \<noteq> {} \<and> c_requests c \<subseteq> st_handoff_requests s))
    (begin_activation i c act) (\<lambda>c. core_inv (A, occ c))"
    (is "tri P ?I _ _")
  unfolding begin_activation_def
proof (rule tri_bind)
  show "tri P ?I (refuse_claim i c act)
      (\<lambda>x s. if fst x then core_inv (A, occ (snd x)) s else snd x = c \<and> ?I s)"
    by (rule refuse_claim_frame) (simp add: n)
  show "tri P (\<lambda>s. if fst x then core_inv (A, occ (snd x)) s else snd x = c \<and> ?I s)
      (case x of (refused, c) \<Rightarrow> if refused then ret c else start_activation i c act)
      (\<lambda>c. core_inv (A, occ c))" for x
    using start_activation_ok [of n c K act A i] assms
    by (cases x; cases "fst x") (auto intro: tri_ret tri_pure)
qed

lemma activate_or_wait_ok [core_ok]:
  assumes n: "n = occ c"
  shows "tri P (core_inv (A, n)) (activate_or_wait i c act full) (\<lambda>c. core_inv (A, occ c))"
  unfolding activate_or_wait_def
proof (rule inv_bind_pair [OF refuse_claim_ok [OF n]], rule tri_bind_state, intro tri_if)
  fix refused c s
  let ?I = "\<lambda>s'. core_inv (A, occ c) s' \<and> s' = s"
  let ?Q = "\<lambda>c. core_inv (A, occ c)"
  show "tri P ?I (ret c) ?Q" by (rule tri_state_drop) (simp add: inv_ret_cell)
  show "tri P ?I (set_phase c (idle_phase_of act)) ?Q"
    by (rule tri_state_drop, rule inv_set_phase) simp_all
  show "tri P ?I (begin_activation i c act) ?Q" if "has_capacity s"
    by (rule tri_pre [OF begin_activation_ok [where K = False]])
      (use that in \<open>auto simp: has_capacity_room\<close>)
  show "tri P ?I
     (do {
        c \<leftarrow> set_phase c WaitingCapacity;
        upd (\<lambda>s. s\<lparr>st_capacity_waiters := st_capacity_waiters s @ [i]\<rparr>);
        c \<leftarrow> watch_queued i (c\<lparr>c_waiting_for := Some act\<rparr>);
        onlyif (full = ShedToAdmit) shed_one;
        ret c
      }) ?Q"
    by (rule tri_state_drop core_ok core_struct | simp add: benign_def)+
qed

lemma begin_cold_route_ok [core_ok]:
  "n = occ c \<Longrightarrow> tri P (core_inv (A, n)) (begin_cold_route i c start) (\<lambda>c. core_inv (A, occ c))"
  unfolding begin_cold_route_def by (rule tri_cold_start core_ok core_struct | simp add: acked_def)+

lemma admit_or_queue_activation_ok [core_ok]:
  "n = occ c \<Longrightarrow> tri P (core_inv (A, n)) (admit_or_queue_activation i c start)
     (\<lambda>c. core_inv (A, occ c))"
  unfolding admit_or_queue_activation_def
proof (rule tri_bind_state, intro tri_if)
  fix s
  assume n: "n = occ c"
  let ?I = "\<lambda>s'. core_inv (A, n) s' \<and> s' = s"
  let ?Q = "\<lambda>c. core_inv (A, occ c)"
  show "tri P ?I (begin_cold_route i c start) ?Q"
    by (rule tri_state_drop) (simp add: begin_cold_route_ok n)
  show "tri P ?I (do {
        upd (\<lambda>s. s\<lparr>st_activation_permits := insert i (st_activation_permits s)\<rparr>);
        begin_cold_route i c start
      }) ?Q" if "card (st_activation_permits s) < cf_max_activations (st_config s)"
    by (rule tri_pre [OF tri_bind [OF slot_insert begin_cold_route_ok [OF n]]])
      (use that in \<open>simp add: slot_def\<close>)
  show "tri P ?I (do {
        c \<leftarrow> set_phase c WaitingActivation;
        upd (\<lambda>s. s\<lparr>st_activation_waiters := st_activation_waiters s @ [i]\<rparr>);
        watch_queued i (c\<lparr>c_waiting_activation := Some start\<rparr>)
      }) ?Q"
    by (rule tri_state_drop core_ok core_struct | simp add: benign_def n)+
qed

lemma admit_waiter_ok: "tri P (\<lambda>s. core_inv none_held s \<and> slot s) (admit_waiter i) (\<lambda>_. core_inv none_held)"
  unfolding admit_waiter_def
  by (rule slot_struct core_ok core_struct | simp split: cold_start.splits)+

lemma pump_activations_loop_ok: "tri P (core_inv none_held) (pump_activations_loop fuel) (\<lambda>_. core_inv none_held)"
proof (induction fuel)
  case (Suc fuel)
  have "tri P (\<lambda>s'. core_inv none_held s' \<and> s' = s)
      (case st_activation_waiters s of
         [] \<Rightarrow> skip
       | i # rest \<Rightarrow> do {
           upd (\<lambda>s. s\<lparr>st_activation_waiters := rest\<rparr>);
           admit_waiter i;
           pump_activations_loop fuel
         }) (\<lambda>_. core_inv none_held)"
    if "card (st_activation_permits s) < cf_max_activations (st_config s)" for s
    by (rule tri_pre [where I = "\<lambda>s. core_inv none_held s \<and> slot s"])
      (use that in \<open>auto simp: slot_def [of s] benign_def split: list.split
        intro!: slot_drop [OF inv_skip] slot_bind_upd tri_bind [OF admit_waiter_ok] Suc.IH\<close>)
  then show ?case
    by (auto intro!: tri_bind_state tri_if tri_skip)
qed (simp add: inv_skip)

lemma pump_activations_ok [core_ok]: "tri P (core_inv none_held) pump_activations (\<lambda>_. core_inv none_held)"
  unfolding pump_activations_def
  by (rule pump_activations_loop_ok core_ok core_struct | simp add: benign_def)+

lemma begin_activation_room:
  "n = occ c \<Longrightarrow> tri P (\<lambda>s. core_inv (A, n) s \<and> room s) (begin_activation i c act)
     (\<lambda>c. core_inv (A, occ c))"
  by (rule tri_pre [OF begin_activation_ok [where K = False]]) auto

lemma admit_capacity_waiter_ok:
  "tri P (\<lambda>s. core_inv none_held s \<and> room s) (admit_capacity_waiter i) (\<lambda>_. core_inv none_held)"
  unfolding admit_capacity_waiter_def
  by (rule room_struct begin_activation_room room_drop core_ok core_struct | simp)+

lemma pump_capacity_loop_ok: "tri P (core_inv none_held) (pump_capacity_loop fuel) (\<lambda>_. core_inv none_held)"
proof (induction fuel)
  case (Suc fuel)
  have "tri P (\<lambda>s'. core_inv none_held s' \<and> s' = s)
      (case st_capacity_waiters s of
         [] \<Rightarrow> skip
       | i # rest \<Rightarrow> do {
           upd (\<lambda>s. s\<lparr>st_capacity_waiters := rest\<rparr>);
           admit_capacity_waiter i;
           pump_capacity_loop fuel
         }) (\<lambda>_. core_inv none_held)" if "has_capacity s" for s
    by (rule tri_pre [where I = "\<lambda>s. core_inv none_held s \<and> room s"])
      (use that in \<open>auto simp: has_capacity_room benign_def split: list.split
        intro!: room_drop [OF inv_skip] room_bind_upd tri_bind [OF admit_capacity_waiter_ok] Suc.IH\<close>)
  then show ?case
    by (auto intro!: tri_bind_state tri_if tri_skip)
qed (simp add: inv_skip)

lemma pump_capacity_ok [core_ok]: "tri P (core_inv none_held) pump_capacity (\<lambda>_. core_inv none_held)"
  unfolding pump_capacity_def by (rule pump_capacity_loop_ok core_ok core_struct)+

lemma confirm_local_cell_ok [core_ok]:
  "tri P (core_inv none_held) (confirm_local_cell l) (\<lambda>_. core_inv none_held)"
  unfolding confirm_local_cell_def
proof (rule tri_bind_state, rule tri_if)
  fix s :: core_state
  assume "\<not> (bm_has (st_cells s) (lc_id l) \<or> lc_id l \<in> st_confirming_cells s)"
  then have "bm_get (st_cells s) (lc_id l) = None" by (simp add: bm_has_def)
  then show "tri P (\<lambda>s'. core_inv none_held s' \<and> s' = s)
      (do {
         upd (\<lambda>s. s\<lparr>st_confirming_cells := insert (lc_id l) (st_confirming_cells s)\<rparr>);
         c \<leftarrow> admit_or_queue_activation (lc_id l) (cell_default\<lparr>c_confirming := True\<rparr>)
                cold_start.ReadOwner;
         put_cell (lc_id l) c
       }) (\<lambda>_. core_inv none_held)"
    by - (rule tri_pre [where I = "core_inv ({lc_id l}, 0)"],
      (rule core_ok core_struct | simp add: benign_def)+, auto intro: inv_hold)
qed (rule tri_skip, simp)

lemma confirm_local_cells_ok [core_ok]:
  "tri P (core_inv none_held) (confirm_local_cells result) (\<lambda>_. core_inv none_held)"
  unfolding confirm_local_cells_def by (rule core_ok core_struct | simp add: benign_def)+

lemma resume_local_cell_ok:
  "lc_id l \<in> A \<Longrightarrow>
   tri P (core_inv (A, 0)) (resume_local_cell l) (\<lambda>_. core_inv (A - {lc_id l}, 0))"
  unfolding resume_local_cell_def by (rule inv_put_held core_ok core_struct | simp add: benign_def)+

lemma resume_local_cells_ok:
  "distinct (map lc_id ls) \<Longrightarrow>
   tri P (core_inv (lc_id ` set ls, 0)) (for_each ls resume_local_cell) (\<lambda>_. core_inv none_held)"
proof (induction ls)
  case (Cons l ls)
  then have "lc_id ` set (l # ls) - {lc_id l} = lc_id ` set ls" by auto
  then show ?case
    using Cons resume_local_cell_ok [of l "lc_id ` set (l # ls)"] by (auto intro: tri_bind)
qed (simp add: inv_skip)

lemma local_cells_read_ok:
  assumes "one_live_epoch result"
  shows "tri P (core_inv none_held) (local_cells_read result) (\<lambda>_. core_inv none_held)"
  unfolding local_cells_read_def
proof (rule tri_bind_state, intro tri_if tri_result tri_let)
  fix s :: core_state and listed cells
  assume *: "result = Ok listed" "cells = sort_dedup (filter lc_live listed)"
    "\<not> (cf_max_resident (st_config s) < length cells \<or> st_cells s \<noteq> [])"
  then have "tri P (\<lambda>s'. core_inv none_held s' \<and> s' = s) (for_each cells resume_local_cell)
      (\<lambda>_. core_inv none_held)"
    using assms by - (rule tri_pre [OF resume_local_cells_ok], auto simp: one_live_epoch_def core_inv_def)
  then show "tri P (\<lambda>s'. core_inv none_held s' \<and> s' = s)
      (do {
         for_each cells resume_local_cell;
         empty \<leftarrow> look (\<lambda>s. st_resuming_cells s = {});
         onlyif empty (upd (\<lambda>s. s\<lparr>st_resuming := False\<rparr>))
       }) (\<lambda>_. core_inv none_held)"
    by (rule tri_bind) (rule core_struct | simp add: benign_def)+
qed (rule tri_state_drop core_ok core_struct | simp add: benign_def)+

lemma worker_request_ok [core_ok]:
  "tri P (core_inv none_held) (worker_request request) (\<lambda>_. core_inv none_held)"
  unfolding worker_request_def
  by (rule core_ok core_struct | simp add: benign_def acked_def as_ensuring_occupies)+

lemma load_sampled_ok [core_ok]:
  "tri P (core_inv none_held) (load_sampled load now) (\<lambda>_. core_inv none_held)"
  unfolding load_sampled_def by (rule core_ok core_struct | simp add: benign_def acked_def)+

end

end
