(* ===== verification/Requests.thy ===== *)
theory Requests
  imports Activation
begin

text \<open>
  Requests and sockets (\<open>lib.rs\<close>): the routing of a request, of an event on a registered WebSocket and
  of an output gate, the wake hint, cancellation, the preparation of a clean reload, WebSocket
  registration with the outbound budget, and the invalidation of a remote route.
\<close>

section \<open>Definitions\<close>

definition remote_of :: "phase \<Rightarrow> (node_id \<times> string \<times> epoch \<times> nat \<times> remote_cache) option" where
  "remote_of p =
     (case p of
        Remote node addr epoch peer_protocol cache \<Rightarrow> Some (node, addr, epoch, peer_protocol, cache)
      | _ \<Rightarrow> None)"

definition starting_op :: "phase \<Rightarrow> op_id option" where
  "starting_op p = (case p of Starting op _ \<Rightarrow> Some op | _ \<Rightarrow> None)"

definition evict_stop_op :: "phase \<Rightarrow> op_id option" where
  "evict_stop_op p =
     (case as_cleaning p of
        Some (op, _, stop_cause.Evict _) \<Rightarrow> Some op
      | _ \<Rightarrow> None)"

text \<open>The request joins the cell's waiters.\<close>

definition enqueue_request :: "request_id \<Rightarrow> cell_id \<Rightarrow> cell \<Rightarrow> cell core" where
  "enqueue_request request i c = do {
     upd (\<lambda>s. s\<lparr>st_request_cells := bm_insert request i (st_request_cells s)\<rparr>);
     ret (c\<lparr>c_requests := insert request (c_requests c)\<rparr>)
   }"

text \<open>The last arm of \<open>request_authorized\<close>: the request waits, and a cold cell starts its route.\<close>

definition wait_for_route :: "request_id \<Rightarrow> cell_id \<Rightarrow> cell \<Rightarrow> cell core" where
  "wait_for_route request i c = do {
     c \<leftarrow> enqueue_request request i c;
     s \<leftarrow> look id;
     (if c_phase c = Inactive then admit_or_queue_activation i c cold_start.ReadOwner
      else
        (case remote_of (c_phase c) of
           Some (_, _, _, _, cache) \<Rightarrow> do {
             onlyif (cache \<noteq> Uncached)
               (modify_activity (\<lambda>a. a\<lparr>ac_remote_route_refreshes :=
                 sat_add (ac_remote_route_refreshes a) 1\<rparr>));
             admit_or_queue_activation i c cold_start.ReadOwner
           }
         | None \<Rightarrow>
             if is_dormant (c_phase c) \<and> \<not> hands_off s c
             then admit_or_queue_activation i c cold_start.ReadOwner
             else ret c))
   }"

definition remote_route :: "core_state \<Rightarrow> phase \<Rightarrow> route option" where
  "remote_route s p =
     (case remote_of p of
        Some (node, addr, epoch, peer_protocol, cache) \<Rightarrow>
          if reusable cache (st_now_ms s) (st_now_mono_ms s)
          then Some (route.Remote node addr epoch peer_protocol) else None
      | None \<Rightarrow> None)"

definition route_in_phase :: "request_id \<Rightarrow> cell_id \<Rightarrow> cell \<Rightarrow> cell core" where
  "route_in_phase request i c = do {
     s \<leftarrow> look id;
     let p = c_phase c;
     (if is_resident p \<and> \<not> c_quiescing c then do {
        complete_request i request (Ok Local);
        ret (record_local_request c request (st_now_mono_ms s))
      }
      else if as_ensuring p \<noteq> None \<and> \<not> st_draining s then do {
        c \<leftarrow> cancel_eviction i c (snd (the (as_ensuring p))) Activity;
        complete_request i request (Ok Local);
        ret (record_local_request c request (st_now_mono_ms s))
      }
      else if remote_route s p \<noteq> None then do {
        emit (Complete request (Ok (the (remote_route s p))));
        ret c
      }
      else if p = phase.Fenced then do {
        emit (Complete request (Err request_error.NodeFenced));
        ret c
      }
      else if (case starting_op p of
                 None \<Rightarrow> False | Some op \<Rightarrow> op \<in> st_timed_out_runtime_starts s) then do {
        emit (Complete request (Err RuntimeFailed));
        ret c
      }
      else if p = Inactive \<and> st_draining s then do {
        emit (Complete request (Err request_error.NodeUnavailable));
        ret c
      }
      else if evict_stop_op p \<noteq> None \<and> \<not> st_draining s then do {
        let first = (c_requests c = {});
        c \<leftarrow> enqueue_request request i c;
        onlyif first (emit (AbandonEvictionStop (the (evict_stop_op p)) i));
        ret c
      }
      else if is_dormant p \<and> request \<in> st_handoff_requests s then enqueue_request request i c
      else wait_for_route request i c)
   }"

definition request_authorized :: "request_id \<Rightarrow> cell_id \<Rightarrow> unit core" where
  "request_authorized request i = do {
     found \<leftarrow> take_cell i;
     c \<leftarrow> route_in_phase request i (case found of None \<Rightarrow> cell_default | Some c \<Rightarrow> c);
     put_cell i c
   }"

definition request_route :: "request_id \<Rightarrow> cell_id \<Rightarrow> bool \<Rightarrow> bool \<Rightarrow> unit core" where
  "request_route request i capacity_handoff ownership_handoff = do {
     s \<leftarrow> look id;
     (if bm_has (st_request_cells s) request then skip
      else if st_fenced s then emit (Complete request (Err request_error.NodeFenced))
      else do {
        onlyif capacity_handoff
          (upd (\<lambda>s. s\<lparr>st_capacity_requests := insert request (st_capacity_requests s)\<rparr>));
        onlyif ownership_handoff
          (upd (\<lambda>s. s\<lparr>st_handoff_requests := insert request (st_handoff_requests s)\<rparr>));
        (if node_authoritative s then request_authorized request i
         else emit (Complete request (Err request_error.NodeUnavailable)))
      })
   }"

definition websocket_request :: "request_id \<Rightarrow> cell_id \<Rightarrow> web_socket_id \<Rightarrow> unit core" where
  "websocket_request request i websocket = do {
     s \<leftarrow> look id;
     (if node_authoritative s \<and>
         (case bm_get (st_cells s) i of
            None \<Rightarrow> False
          | Some c \<Rightarrow> is_resident (c_phase c) \<and> bm_has (c_websockets c) websocket)
      then complete_request i request (Ok Local)
      else request_route request i False False)
   }"

definition gate_request :: "request_id \<Rightarrow> cell_id \<Rightarrow> unit core" where
  "gate_request request i = do {
     s \<leftarrow> look id;
     (if node_authoritative s \<and> \<not> st_draining s \<and>
         (case bm_get (st_cells s) i of
            None \<Rightarrow> False
          | Some c \<Rightarrow>
              is_resident (c_phase c) \<and> \<not> c_swap_cancelled c
              \<and> (runs_gate_source s i \<or> is_firing (c_alarm c)))
      then do {
        complete_request i request (Ok Local);
        upd (\<lambda>s. s\<lparr>st_admitted_gates := insert request (st_admitted_gates s),
                   st_admitted_gate_cells := increment i (st_admitted_gate_cells s)\<rparr>)
      }
      else request_route request i False False)
   }"

definition wake_hint_authorized :: "cell_id \<Rightarrow> int \<Rightarrow> wake_hint_scope \<Rightarrow> unit core" where
  "wake_hint_authorized i entry_ms scope = do {
     s \<leftarrow> look id;
     (if st_draining s then skip
      else if scope = Owned \<and>
          \<not> (case bm_get (st_cells s) i of None \<Rightarrow> False | Some c \<Rightarrow> is_dormant (c_phase c))
      then skip
      else do {
        found \<leftarrow> take_cell i;
        let c = (case found of None \<Rightarrow> cell_default | Some c \<Rightarrow> c)\<lparr>c_alarm_wake := True\<rparr>;
        c \<leftarrow> (if absent_phase (c_phase c)
              then admit_or_queue_activation i c cold_start.ReadOwner
              else ret c);
        put_cell i c
      })
   }"

definition wake_hint :: "cell_id \<Rightarrow> int \<Rightarrow> wake_hint_scope \<Rightarrow> unit core" where
  "wake_hint i entry_ms scope = do {
     s \<leftarrow> look id;
     onlyif (\<not> st_fenced s \<and> node_authoritative s) (wake_hint_authorized i entry_ms scope)
   }"

subsection \<open>Cancellation and preservation\<close>

definition cold_fallback :: "cold_start option \<Rightarrow> phase" where
  "cold_fallback start =
     (case start of Some (cold_start.Restore spec) \<Rightarrow> Dormant (rs_epoch spec) | _ \<Rightarrow> Inactive)"

definition activation_fallback :: "activation option \<Rightarrow> phase" where
  "activation_fallback act =
     (case act of Some (activation.Restore spec) \<Rightarrow> Dormant (rs_epoch spec) | _ \<Rightarrow> Inactive)"

definition unqueue_cancelled :: "cell_id \<Rightarrow> cell \<Rightarrow> unit core" where
  "unqueue_cancelled i c =
     (if c_requests c = {} \<and> \<not> c_alarm_wake c \<and> \<not> c_resume_demand c then
        (if c_phase c = WaitingActivation then do {
           modify_cell i (\<lambda>c. c\<lparr>c_waiting_activation := None\<rparr>);
           set_phase_of i (cold_fallback (c_waiting_activation c));
           upd (\<lambda>s. s\<lparr>st_activation_waiters := filter (\<lambda>w. w \<noteq> i) (st_activation_waiters s)\<rparr>)
         }
         else if c_phase c = WaitingCapacity then do {
           modify_cell i (\<lambda>c. c\<lparr>c_waiting_for := None\<rparr>);
           set_phase_of i (activation_fallback (c_waiting_for c));
           upd (\<lambda>s. s\<lparr>st_capacity_waiters := filter (\<lambda>w. w \<noteq> i) (st_capacity_waiters s)\<rparr>)
         }
         else skip)
      else skip)"

definition cancel :: "request_id \<Rightarrow> unit core" where
  "cancel request = do {
     active \<leftarrow> look (\<lambda>s. bm_has (st_active_requests s) request);
     onlyif active (activity_finished request);
     upd (\<lambda>s. s\<lparr>st_capacity_requests := st_capacity_requests s - {request},
                st_handoff_requests := st_handoff_requests s - {request}\<rparr>);
     target \<leftarrow> look (\<lambda>s. bm_get (st_request_cells s) request);
     (case target of
        None \<Rightarrow> skip
      | Some i \<Rightarrow> do {
          upd (\<lambda>s. s\<lparr>st_request_cells := bm_remove request (st_request_cells s)\<rparr>);
          modify_cell i (\<lambda>c. c\<lparr>c_requests := c_requests c - {request}\<rparr>);
          found \<leftarrow> get_cell i;
          (case found of None \<Rightarrow> skip | Some c \<Rightarrow> unqueue_cancelled i c)
        })
   }"

definition preserve_fallback :: "cell \<Rightarrow> phase option" where
  "preserve_fallback c =
     (case c_phase c of
        WaitingActivation \<Rightarrow> Some (cold_fallback (c_waiting_activation c))
      | ReadingOwner _ \<Rightarrow> Some Inactive
      | ReadingNodeLease _ _ _ _ \<Rightarrow> Some Inactive
      | RecoveringOwnerLog _ _ \<Rightarrow> Some Inactive
      | WaitingOwnerLogRecovery _ \<Rightarrow> Some Inactive
      | ReadingCapacity _ _ _ \<Rightarrow> Some Inactive
      | Acquiring _ _ _ \<Rightarrow> Some Inactive
      | ReconcilingAcquire _ _ _ \<Rightarrow> Some Inactive
      | WaitingCapacity \<Rightarrow> Some (activation_fallback (c_waiting_for c))
      | Restoring _ spec \<Rightarrow> Some (Dormant (rs_epoch spec))
      | _ \<Rightarrow> None)"

definition preserve_cell :: "cell_id \<Rightarrow> unit core" where
  "preserve_cell i = do {
     found \<leftarrow> take_cell i;
     (case found of
        None \<Rightarrow> skip
      | Some c \<Rightarrow>
          (case preserve_fallback c of
             None \<Rightarrow> put_cell i c
           | Some fallback \<Rightarrow> do {
               (case phase_op (c_phase c) of None \<Rightarrow> skip | Some stale \<Rightarrow> remove_cell_op stale);
               c \<leftarrow> finish_requests i c (Err request_error.NodeFenced);
               c \<leftarrow> set_phase c fallback;
               upd (\<lambda>s. s\<lparr>st_resuming_cells := st_resuming_cells s - {i}\<rparr>);
               put_cell i (c\<lparr>c_owner_log_recovery_attempts := 0, c_waiting_for := None,
                             c_waiting_activation := None, c_alarm_wake := False,
                             c_resume_demand := False\<rparr>)
             }))
   }"

definition begin_preserve :: "unit core" where
  "begin_preserve = do {
     upd (\<lambda>s. s\<lparr>st_activation_waiters := [], st_capacity_waiters := []\<rparr>);
     ids \<leftarrow> look (\<lambda>s. bm_keys (st_cells s));
     for_each ids preserve_cell;
     upd (\<lambda>s. if st_resuming_cells s = {} then s\<lparr>st_resuming := False\<rparr> else s);
     upd (\<lambda>s. s\<lparr>
       st_activation_permits :=
         Set.filter (\<lambda>i.
           case bm_get (st_cells s) i of None \<Rightarrow> False | Some c \<Rightarrow> phase_holds_activation (c_phase c))
           (st_activation_permits s),
       st_capacity_requests := Set.filter (bm_has (st_request_cells s)) (st_capacity_requests s),
       st_handoff_requests := Set.filter (bm_has (st_request_cells s)) (st_handoff_requests s)\<rparr>)
   }"

subsection \<open>WebSockets and remote routes\<close>

definition outbound_count :: "cell \<Rightarrow> nat" where
  "outbound_count c = length (filter (\<lambda>k. k = Outbound) (bm_values (c_websockets c)))"

definition outbound_pinned :: "core_state \<Rightarrow> nat" where
  "outbound_pinned s = length (filter (\<lambda>c. 0 < outbound_count c) (bm_values (st_cells s)))"

definition websocket_opened :: "cell_id \<Rightarrow> web_socket_id \<Rightarrow> web_socket_kind \<Rightarrow> unit core" where
  "websocket_opened i websocket kind = do {
     s \<leftarrow> look id;
     let leaving =
       (case bm_get (st_cells s) i of None \<Rightarrow> False | Some c \<Rightarrow> c_quiescing c);
     let cell_outbound =
       (case bm_get (st_cells s) i of None \<Rightarrow> 0 | Some c \<Rightarrow> outbound_count c);
     (if st_fenced s then skip
      else if kind = Outbound \<and> leaving then emit (CloseWebSocket i websocket)
      else if kind = Outbound \<and>
           (cf_max_outbound_websockets (st_config s) \<le> cell_outbound \<or>
            (\<not> 0 < cell_outbound \<and>
             \<not> may_pin_outbound (outbound_pinned s) (Some (cf_max_resident (st_config s)))))
      then emit (CloseWebSocket i websocket)
      else modify_cell i (\<lambda>c. c\<lparr>c_websockets := bm_insert websocket kind (c_websockets c)\<rparr>))
   }"

definition websocket_closed :: "cell_id \<Rightarrow> web_socket_id \<Rightarrow> unit core" where
  "websocket_closed i websocket = do {
     modify_cell i (\<lambda>c. c\<lparr>c_websockets := bm_remove websocket (c_websockets c)\<rparr>);
     shed_one
   }"

definition routes_to :: "phase \<Rightarrow> node_id \<Rightarrow> epoch \<Rightarrow> bool" where
  "routes_to p node epoch =
     (case remote_of p of
        Some (current, _, current_epoch, _, _) \<Rightarrow> current = node \<and> current_epoch = epoch
      | None \<Rightarrow> False)"

definition sampled_route :: "phase \<Rightarrow> nat option" where
  "sampled_route p =
     (case remote_of p of
        Some (_, _, _, _, CapacitySample sampled_ms _) \<Rightarrow> Some sampled_ms
      | _ \<Rightarrow> None)"

definition invalidate_remote :: "cell_id \<Rightarrow> node_id \<Rightarrow> epoch \<Rightarrow> unit core" where
  "invalidate_remote i node epoch = do {
     upd (\<lambda>s. s\<lparr>st_node_lease_cache := bm_remove node (st_node_lease_cache s)\<rparr>);
     found \<leftarrow> get_cell i;
     (case found of
        None \<Rightarrow> skip
      | Some c \<Rightarrow>
          if \<not> routes_to (c_phase c) node epoch then skip
          else do {
            (case sampled_route (c_phase c) of
               None \<Rightarrow> skip
             | Some sample \<Rightarrow>
                 upd (\<lambda>s. s\<lparr>st_capacity_rejections := bm_insert node sample (st_capacity_rejections s),
                            st_capacity_reservations := bm_remove node (st_capacity_reservations s)\<rparr>));
            set_phase_of i Inactive
          })
   }"

section \<open>The handlers keep the invariant\<close>

lemma idle_fallbacks [simp]:
  "\<not> phase_occupies_capacity (cold_fallback start)"
  "\<not> phase_occupies_capacity (activation_fallback act)"
  by (auto simp: cold_fallback_def activation_fallback_def split: option.split cold_start.split activation.split)

lemma preserve_fallback_idle: "preserve_fallback c = Some p \<Longrightarrow> \<not> phase_occupies_capacity p"
  by (auto simp: preserve_fallback_def split: phase.splits)

context core_proof begin

lemma enqueue_request_ok [core_ok]:
  "n = occ c \<Longrightarrow> tri P (core_inv (A, n)) (enqueue_request request i c) (\<lambda>c. core_inv (A, occ c))"
  unfolding enqueue_request_def
  by (rule core_ok core_struct | simp add: benign_def acked_def)+

lemma wait_for_route_ok [core_ok]:
  "n = occ c \<Longrightarrow> tri P (core_inv (A, n)) (wait_for_route request i c) (\<lambda>c. core_inv (A, occ c))"
  unfolding wait_for_route_def
  by (rule core_ok core_struct | simp add: benign_def acked_def)+

lemma route_in_phase_ok [core_ok]:
  "n = occ c \<Longrightarrow> tri P (core_inv (A, n)) (route_in_phase request i c) (\<lambda>c. core_inv (A, occ c))"
  unfolding route_in_phase_def
  by (rule core_ok core_struct | simp add: acked_def; fail | fastforce dest: as_ensuring_occupies)+

lemma request_authorized_ok [core_ok]:
  "tri P (core_inv none_held) (request_authorized request i) (\<lambda>_. core_inv none_held)"
  unfolding request_authorized_def
  by (rule core_ok inv_bind_take_default core_struct | simp add: benign_def acked_def)+

lemma request_route_ok [core_ok]:
  "tri P (core_inv none_held) (request_route request i capacity_handoff ownership_handoff) (\<lambda>_. core_inv none_held)"
  unfolding request_route_def
  by (rule core_ok core_struct | simp add: benign_def acked_def)+

lemma websocket_request_ok [core_ok]:
  "tri P (core_inv none_held) (websocket_request request i websocket) (\<lambda>_. core_inv none_held)"
  unfolding websocket_request_def
  by (rule core_ok core_struct | simp add: benign_def acked_def)+

lemma gate_request_ok [core_ok]:
  "tri P (core_inv none_held) (gate_request request i) (\<lambda>_. core_inv none_held)"
  unfolding gate_request_def
  by (rule core_ok core_struct | simp add: benign_def acked_def)+

lemma wake_hint_authorized_ok [core_ok]:
  "tri P (core_inv none_held) (wake_hint_authorized i entry_ms scope) (\<lambda>_. core_inv none_held)"
  unfolding wake_hint_authorized_def
  by (rule core_ok inv_bind_take_default core_struct | simp add: benign_def acked_def)+

lemma wake_hint_ok [core_ok]:
  "tri P (core_inv none_held) (wake_hint i entry_ms scope) (\<lambda>_. core_inv none_held)"
  unfolding wake_hint_def
  by (rule core_ok core_struct | simp add: benign_def acked_def)+

lemma unqueue_cancelled_ok [core_ok]:
  "tri P (core_inv none_held) (unqueue_cancelled i c) (\<lambda>_. core_inv none_held)"
  unfolding unqueue_cancelled_def
  by (rule core_ok core_struct | simp add: benign_def acked_def)+

lemma cancel_ok [core_ok]:
  "tri P (core_inv none_held) (cancel request) (\<lambda>_. core_inv none_held)"
  unfolding cancel_def
  by (rule core_ok core_struct | simp add: benign_def acked_def)+

lemma preserve_cell_ok [core_ok]:
  "tri P (core_inv none_held) (preserve_cell i) (\<lambda>_. core_inv none_held)"
  unfolding preserve_cell_def
  by (rule core_ok core_struct | simp add: benign_def acked_def preserve_fallback_idle)+

lemma begin_preserve_ok [core_ok]:
  "tri P (core_inv none_held) begin_preserve (\<lambda>_. core_inv none_held)"
  unfolding begin_preserve_def
  by (rule core_ok core_struct | simp add: benign_def acked_def)+

lemma websocket_opened_ok [core_ok]:
  "tri P (core_inv none_held) (websocket_opened i websocket kind) (\<lambda>_. core_inv none_held)"
  unfolding websocket_opened_def
  by (rule core_ok core_struct | simp add: benign_def acked_def)+

lemma websocket_closed_ok [core_ok]:
  "tri P (core_inv none_held) (websocket_closed i websocket) (\<lambda>_. core_inv none_held)"
  unfolding websocket_closed_def
  by (rule core_ok core_struct | simp add: benign_def acked_def)+

lemma invalidate_remote_ok [core_ok]:
  "tri P (core_inv none_held) (invalidate_remote i node epoch) (\<lambda>_. core_inv none_held)"
  unfolding invalidate_remote_def
  by (rule core_ok core_struct | simp add: benign_def acked_def)+

end

end
