(* ===== verification/AlarmCore.thy ===== *)
theory AlarmCore
  imports Activation
begin

text \<open>
  Alarms in the core (\<open>lib.rs\<close>): observations of a cell's alarm, the alarm timer, and the settlement of
  a firing, which waits behind the output gate when the firing wrote.
\<close>

section \<open>Definitions\<close>

definition schedule_alarm_timer :: "cell_id \<Rightarrow> nat \<Rightarrow> int \<Rightarrow> nat \<Rightarrow> nat \<Rightarrow> unit core" where
  "schedule_alarm_timer i generation at_ms now_ms now_mono_ms =
     emit (ScheduleTimer (CellAlarm i generation) (sat_add now_mono_ms (nat at_ms - now_ms)))"

definition observable_phase :: "phase \<Rightarrow> bool" where
  "observable_phase p =
     (case p of
        Starting _ _ \<Rightarrow> True
      | Publishing _ _ \<Rightarrow> True
      | Resident _ \<Rightarrow> True
      | EnsuringDurability _ _ \<Rightarrow> True
      | Cleaning _ _ _ \<Rightarrow> True
      | _ \<Rightarrow> False)"

definition stale_source :: "cell \<Rightarrow> publication_id option \<Rightarrow> bool" where
  "stale_source c source =
     (case source of
        None \<Rightarrow> False
      | Some src \<Rightarrow>
          c_held_epoch c \<noteq> Some (pid_epoch src) \<or>
          (case c_alarm_source c of None \<Rightarrow> False | Some previous \<Rightarrow> src < previous))"

definition resetting :: "phase \<Rightarrow> bool" where
  "resetting p = (case p of Cleaning _ _ cause \<Rightarrow> cause = Reset | _ \<Rightarrow> False)"

text \<open>An observation that arrives before its firing's durability result is staged, not applied.\<close>

definition stage_observation :: "cell \<Rightarrow> alarm_snapshot \<Rightarrow> bool \<Rightarrow> cell" where
  "stage_observation c alarm covered =
     (case c_alarm c of
        Some (Firing op at_ms generation firing_covered observed) \<Rightarrow>
          if (case observed of
                None \<Rightarrow> False
              | Some (staged, _) \<Rightarrow>
                  (case (sn_source staged, sn_source alarm) of
                     (Some st, Some next) \<Rightarrow> as_id next < as_id st
                   | _ \<Rightarrow> False))
          then c
          else if sn_at_ms alarm = Some at_ms \<and> observed = None
               \<and> map_option as_id (sn_source alarm) = c_alarm_source c
          then c\<lparr>c_alarm := Some (Firing op at_ms generation covered observed)\<rparr>
          else c\<lparr>c_alarm := Some (Firing op at_ms generation firing_covered (Some (alarm, covered)))\<rparr>
      | _ \<Rightarrow> c)"

definition armed_at :: "alarm_state option \<Rightarrow> int" where
  "armed_at a =
     (case a of
        Some (Armed at_ms _ _) \<Rightarrow> at_ms
      | Some (Firing _ at_ms _ _ _) \<Rightarrow> at_ms
      | None \<Rightarrow> -1)"

definition valid_deadline :: "int option \<Rightarrow> int option" where
  "valid_deadline at_ms = (case at_ms of None \<Rightarrow> None | Some t \<Rightarrow> if 0 \<le> t then Some t else None)"

definition settle_observation ::
  "cell_id \<Rightarrow> cell \<Rightarrow> alarm_snapshot \<Rightarrow> bool \<Rightarrow> nat \<Rightarrow> nat \<Rightarrow> cell core" where
  "settle_observation i c alarm covered now_ms now_mono_ms = do {
     let at_ms = sn_at_ms alarm;
     let source = map_option as_id (sn_source alarm);
     let observed_before = armed_at (c_alarm c);
     (case firing_op (c_alarm c) of None \<Rightarrow> skip | Some op \<Rightarrow> remove_cell_op op);
     armed \<leftarrow> (case valid_deadline at_ms of
        None \<Rightarrow> ret None
      | Some t \<Rightarrow> do {
          generation \<leftarrow> fresh_timer_generation;
          schedule_alarm_timer i generation t now_ms now_mono_ms;
          ret (Some (Armed t generation covered))
        });
     let discovered = c_alarm_wake c;
     let settled = (case valid_deadline at_ms of None \<Rightarrow> -1 | Some t \<Rightarrow> t);
     onlyif (settled \<noteq> observed_before \<or>
             (case source of
                None \<Rightarrow> False
              | Some src \<Rightarrow>
                  (discovered \<and> at_ms = None) \<or>
                  (c_alarm_source c \<noteq> Some src \<and> (at_ms \<noteq> None \<or> 0 < pid_sequence src))))
       (emit (ReconcileWakeEntry i alarm));
     ret (c\<lparr>c_alarm := armed,
            c_alarm_wake := (if armed = None then False else discovered),
            c_alarm_source := (if source \<noteq> None then source else c_alarm_source c)\<rparr>)
   }"

definition alarm_observed :: "cell_id \<Rightarrow> alarm_observation \<Rightarrow> nat \<Rightarrow> nat \<Rightarrow> unit core" where
  "alarm_observed i observed now_ms now_mono_ms = do {
     let alarm = ao_alarm observed;
     let covered = ao_covered observed;
     let source = map_option as_id (sn_source alarm);
     found \<leftarrow> take_cell i;
     (case found of
        None \<Rightarrow> skip
      | Some c \<Rightarrow>
          if \<not> observable_phase (c_phase c) \<or> stale_source c source \<or> resetting (c_phase c)
          then put_cell i c
          else do {
            draining \<leftarrow> look st_draining;
            c \<leftarrow> (case as_ensuring (c_phase c) of
                    None \<Rightarrow> ret c
                  | Some (_, epoch) \<Rightarrow>
                      if draining \<and> (sn_at_ms alarm = None \<or> covered) then ret c
                      else cancel_eviction i c epoch evict_cancellation.Alarm);
            (if \<not> ao_firing_settled observed \<and> is_firing (c_alarm c)
             then put_cell i (stage_observation c alarm covered)
             else do {
               c \<leftarrow> settle_observation i c alarm covered now_ms now_mono_ms;
               put_cell i c
             })
          })
   }"

definition retry_alarm :: "cell_id \<Rightarrow> nat \<Rightarrow> nat \<Rightarrow> unit core" where
  "retry_alarm i generation at_mono_ms = emit (ScheduleTimer (CellAlarm i generation) at_mono_ms)"

definition fire_alarm ::
  "cell_id \<Rightarrow> cell \<Rightarrow> epoch \<Rightarrow> int \<Rightarrow> nat \<Rightarrow> bool \<Rightarrow> unit core" where
  "fire_alarm i c epoch at_ms generation covered = do {
     op \<leftarrow> cell_op i;
     put_cell i (c\<lparr>c_alarm := Some (Firing op at_ms generation covered None),
                   c_alarm_wake := False\<rparr>);
     emit (FireAlarm op i epoch at_ms)
   }"

definition unowned_phase :: "phase \<Rightarrow> bool" where
  "unowned_phase p = (case p of Dormant _ \<Rightarrow> True | Inactive \<Rightarrow> True | _ \<Rightarrow> False)"

definition cell_alarm_timer :: "cell_id \<Rightarrow> nat \<Rightarrow> nat \<Rightarrow> nat \<Rightarrow> unit core" where
  "cell_alarm_timer i generation now_ms now_mono_ms = do {
     s \<leftarrow> look id;
     (if \<not> node_authoritative s then skip
      else do {
        found \<leftarrow> take_cell i;
        (case found of
           None \<Rightarrow> skip
         | Some c \<Rightarrow>
             (case c_alarm c of
                Some (Armed at_ms current covered) \<Rightarrow>
                  if current \<noteq> generation then put_cell i c
                  else if min (int now_ms) i64_max < at_ms then do {
                    schedule_alarm_timer i generation at_ms now_ms now_mono_ms;
                    put_cell i c
                  }
                  else
                    (case as_published (c_phase c) of
                       Some epoch \<Rightarrow>
                         if is_resident (c_phase c) then
                           if st_draining s \<and> c_quiescing c then do {
                             retry_alarm i generation (sat_add now_mono_ms 100);
                             put_cell i c
                           }
                           else fire_alarm i c epoch at_ms generation covered
                         else do {
                           c \<leftarrow> cancel_eviction i c epoch evict_cancellation.Alarm;
                           fire_alarm i c epoch at_ms generation covered
                         }
                     | None \<Rightarrow>
                         if c_phase c = phase.Fenced then put_cell i (c\<lparr>c_alarm := None\<rparr>)
                         else if unowned_phase (c_phase c) \<and> st_draining s
                         then put_cell i (c\<lparr>c_alarm := None\<rparr>)
                         else if unowned_phase (c_phase c) then do {
                           c \<leftarrow> admit_or_queue_activation i (c\<lparr>c_alarm_wake := True\<rparr>)
                                  cold_start.ReadOwner;
                           retry_alarm i generation (sat_add now_mono_ms 100);
                           put_cell i c
                         }
                         else do {
                           retry_alarm i generation (sat_add now_mono_ms 100);
                           put_cell i c
                         })
              | _ \<Rightarrow> put_cell i c))
      })
   }"

definition resident_at :: "core_state \<Rightarrow> cell_id \<Rightarrow> epoch \<Rightarrow> bool" where
  "resident_at s i epoch =
     (case bm_get (st_cells s) i of
        None \<Rightarrow> False
      | Some c \<Rightarrow> as_resident (c_phase c) = Some epoch)"

definition open_barrier :: "gate_owner \<Rightarrow> cell_id \<Rightarrow> epoch \<Rightarrow> nat \<Rightarrow> unit core" where
  "open_barrier owner i epoch position = do {
     op \<leftarrow> fresh_op;
     upd (\<lambda>s. s\<lparr>st_barriers :=
       bm_insert op
         \<lparr>b_owner = owner, b_cell = i, b_epoch = epoch, b_position = position, b_followers = [],
          b_verifying = False, b_riders = []\<rparr> (st_barriers s)\<rparr>);
     emit (AwaitDurable op i epoch position)
   }"

definition alarm_settled ::
  "op_id \<Rightarrow> nat \<Rightarrow> nat \<Rightarrow> (alarm_snapshot \<times> bool, failure) result \<Rightarrow> unit core" where
  "alarm_settled op now_ms now_mono_ms result = do {
     taken \<leftarrow> take_cell_op op (\<lambda>c. firing_op (c_alarm c) = Some op);
     (case taken of
        None \<Rightarrow> skip
      | Some i \<Rightarrow> do {
          found \<leftarrow> take_cell i;
          (case found of
             None \<Rightarrow> skip
           | Some c \<Rightarrow>
               (case c_alarm c of
                  Some (Firing _ at_ms generation covered observed) \<Rightarrow>
                    (case result of
                       Ok reported \<Rightarrow> do {
                         put_cell i c;
                         let (alarm, now_covered) =
                           (case observed of None \<Rightarrow> reported | Some staged \<Rightarrow> staged);
                         alarm_observed i
                           \<lparr>ao_alarm = alarm, ao_covered = now_covered, ao_firing_settled = True\<rparr>
                           now_ms now_mono_ms
                       }
                     | Err _ \<Rightarrow> do {
                         put_cell i (c\<lparr>c_alarm := Some (Armed at_ms generation covered)\<rparr>);
                         emit (ScheduleTimer (CellAlarm i generation) (sat_add now_mono_ms 500))
                       })
                | _ \<Rightarrow> put_cell i c))
        })
   }"

definition alarm_finished ::
  "op_id \<Rightarrow> cell_id \<Rightarrow> epoch \<Rightarrow> nat \<Rightarrow> nat \<Rightarrow>
   (alarm_snapshot \<times> bool \<times> nat option, failure) result \<Rightarrow> unit core" where
  "alarm_finished op fired epoch now_ms now_mono_ms result = do {
     s \<leftarrow> look id;
     (case result of
        Ok (snapshot, covered, Some position) \<Rightarrow>
          if resident_at s fired epoch
          then open_barrier (gate_owner.Alarm op snapshot covered) fired epoch position
          else alarm_settled op now_ms now_mono_ms (Ok (snapshot, covered))
      | Ok (snapshot, covered, None) \<Rightarrow>
          alarm_settled op now_ms now_mono_ms (Ok (snapshot, covered))
      | Err failure \<Rightarrow> alarm_settled op now_ms now_mono_ms (Err failure))
   }"

section \<open>The handlers keep the invariant\<close>

lemma occ_stage_observation [simp]: "occ (stage_observation c alarm covered) = occ c"
  by (simp add: stage_observation_def split: option.split alarm_state.split)

lemma tri_alarm:
  "(a = None \<Longrightarrow> tri P I m Q) \<Longrightarrow>
   (\<And>at_ms generation covered. a = Some (Armed at_ms generation covered) \<Longrightarrow>
     tri P I (f at_ms generation covered) Q) \<Longrightarrow>
   (\<And>op at_ms generation covered observed. a = Some (Firing op at_ms generation covered observed) \<Longrightarrow>
     tri P I (g op at_ms generation covered observed) Q) \<Longrightarrow>
   tri P I
     (case a of
        None \<Rightarrow> m
      | Some (Armed at_ms generation covered) \<Rightarrow> f at_ms generation covered
      | Some (Firing op at_ms generation covered observed) \<Rightarrow> g op at_ms generation covered observed) Q"
  by (simp split: option.split alarm_state.split)

context core_proof begin

lemma schedule_alarm_timer_ok [core_ok]:
  "tri P (core_inv h) (schedule_alarm_timer i generation at_ms now_ms now_mono_ms) (\<lambda>_. core_inv h)"
  unfolding schedule_alarm_timer_def by (rule core_ok) (simp add: acked_def)

lemma retry_alarm_ok [core_ok]:
  "tri P (core_inv h) (retry_alarm i generation at_mono_ms) (\<lambda>_. core_inv h)"
  unfolding retry_alarm_def by (rule core_ok) (simp add: acked_def)

lemma settle_observation_ok [core_ok]:
  "n = occ c \<Longrightarrow>
   tri P (core_inv (A, n)) (settle_observation i c alarm covered now_ms now_mono_ms)
     (\<lambda>c. core_inv (A, occ c))"
  unfolding settle_observation_def by (rule core_ok core_struct | simp add: acked_def)+

lemma alarm_observed_ok [core_ok]:
  "tri P (core_inv none_held) (alarm_observed i observed now_ms now_mono_ms) (\<lambda>_. core_inv none_held)"
  unfolding alarm_observed_def
  by (rule core_ok core_struct | simp add: acked_def as_ensuring_occupies)+

lemma fire_alarm_ok [core_ok]:
  "n = occ c \<Longrightarrow>
   tri P (core_inv ({i}, n)) (fire_alarm i c epoch at_ms generation covered) (\<lambda>_. core_inv none_held)"
  unfolding fire_alarm_def by (rule core_ok core_struct | simp add: acked_def)+

lemma cell_alarm_timer_ok [core_ok]:
  "tri P (core_inv none_held) (cell_alarm_timer i generation now_ms now_mono_ms) (\<lambda>_. core_inv none_held)"
  unfolding cell_alarm_timer_def
  by (rule core_ok tri_alarm core_struct | simp add: acked_def as_published_occupies)+

lemma open_barrier_ok [core_ok]:
  "tri P (core_inv h) (open_barrier owner i epoch position) (\<lambda>_. core_inv h)"
  unfolding open_barrier_def by (rule core_ok core_struct | simp add: acked_def benign_def)+

lemma alarm_settled_ok [core_ok]:
  "tri P (core_inv none_held) (alarm_settled op now_ms now_mono_ms result) (\<lambda>_. core_inv none_held)"
  unfolding alarm_settled_def
  by (rule core_ok tri_alarm core_struct | simp add: acked_def)+

lemma alarm_finished_ok [core_ok]:
  "tri P (core_inv none_held) (alarm_finished op fired epoch now_ms now_mono_ms result)
     (\<lambda>_. core_inv none_held)"
  unfolding alarm_finished_def
  by (rule core_ok core_struct | simp add: acked_def split: option.split)+

end

end
