(* ===== verification/Ownership.thy ===== *)
theory Ownership
  imports NodeLease Requests AlarmCore
begin

text \<open>
  Ownership of a cell (\<open>lib.rs\<close>): resolving the owner record, the liveness of a foreign owner, the
  takeover interlock on the owner's log, the placement of an unowned cell, the acquisition with its
  reconciliation after an ambiguous answer, and the release of a record with the adoption that
  follows it.
\<close>

section \<open>Definitions\<close>

text \<open>\<open>take_cell_op\<close> followed by taking the cell it found.\<close>

definition claim_op_cell :: "op_id \<Rightarrow> (cell \<Rightarrow> bool) \<Rightarrow> (cell_id \<times> cell) option core" where
  "claim_op_cell op p = do {
     found \<leftarrow> take_cell_op op p;
     (case found of
        None \<Rightarrow> ret None
      | Some i \<Rightarrow> do {
          c \<leftarrow> take_cell i;
          ret (map_option (\<lambda>c. (i, c)) c)
        })
   }"

definition ownership_only :: "core_state \<Rightarrow> cell \<Rightarrow> bool" where
  "ownership_only s c = (c_requests c \<noteq> {} \<and> c_requests c \<subseteq> st_handoff_requests s)"

subsection \<open>Placement\<close>

definition begin_capacity_lookup :: "cell_id \<Rightarrow> cell \<Rightarrow> claim \<Rightarrow> cell core" where
  "begin_capacity_lookup i c claim = do {
     op \<leftarrow> cell_op i;
     now \<leftarrow> look st_now_mono_ms;
     c \<leftarrow> set_phase c (ReadingCapacity op claim now);
     emit (ReadCapacityPeers op i);
     ret c
   }"

text \<open>Every capacity handoff waiting on the cell is refused.\<close>

definition refuse_capacity_handoffs :: "cell_id \<Rightarrow> cell \<Rightarrow> cell core" where
  "refuse_capacity_handoffs i c = do {
     s \<leftarrow> look id;
     fold_act (\<lambda>request c. do {
       upd (\<lambda>s. s\<lparr>st_request_cells := bm_remove request (st_request_cells s)\<rparr>);
       complete_request i request (Err CapacityExhausted);
       ret (c\<lparr>c_requests := c_requests c - {request}\<rparr>)
     }) (filter (\<lambda>request. request \<in> st_capacity_requests s) (sorted_list_of_set (c_requests c))) c
   }"

definition place_unowned :: "cell_id \<Rightarrow> cell \<Rightarrow> claim \<Rightarrow> cell core" where
  "place_unowned i c claim = do {
     (refused, c) \<leftarrow> refuse_new_ownership_during_drain i c (cl_prior claim);
     s \<leftarrow> look id;
     (if refused then ret c
      else if has_capacity s then activate_or_wait i c (Claim claim) ShedToAdmit
      else if ownership_only s c then begin_activation i c (Claim claim)
      else do {
        c \<leftarrow> refuse_capacity_handoffs i c;
        (if c_requests c = {} \<or> \<not> cf_require_node_lease (st_config s)
         then activate_or_wait i c (Claim claim) ShedToAdmit
         else begin_capacity_lookup i c claim)
      })
   }"

subsection \<open>Resolving the owner\<close>

text \<open>The takeover of a dead owner's cell claims one epoch past its record, guarded on its ETag.\<close>

definition claim_dead_owner :: "cell_id \<Rightarrow> cell \<Rightarrow> owner_record \<Rightarrow> cell core" where
  "claim_dead_owner i c record = do {
     (next, c) \<leftarrow> next_writer_epoch i c (ow_epoch record);
     (case next of
        None \<Rightarrow> ret c
      | Some epoch \<Rightarrow>
          activate_or_wait i c
            (Claim \<lparr>cl_guard = Match (ow_etag record), cl_epoch = epoch, cl_takeover = True,
                    cl_prior = ow_node record, cl_reconciles = 0\<rparr>) ShedToAdmit)
   }"

definition lease_names_owner :: "owner_record \<Rightarrow> nat \<Rightarrow> node_lease_record \<Rightarrow> bool" where
  "lease_names_owner record issued_ms lease =
     (issued_ms < nl_expires_ms lease \<and> nl_addr lease \<noteq> '''' \<and> ow_node record = Some (nl_node lease))"

definition displace_owner ::
  "cell_id \<Rightarrow> cell \<Rightarrow> owner_record \<Rightarrow> cached_node_lease option \<Rightarrow> cell core" where
  "displace_owner i c record lease = do {
     (refused, c) \<leftarrow> refuse_new_ownership_during_drain i c (ow_node record);
     (if refused then ret c
      else if (case lease of
                 None \<Rightarrow> False
               | Some l \<Rightarrow> \<not> log_recovered (nl_log_state (cn_record l))) then do {
        next \<leftarrow> cell_op i;
        c \<leftarrow> set_phase c (RecoveringOwnerLog next record);
        emit (RecoverNodeLog next i (case ow_node record of None \<Rightarrow> '''' | Some owner \<Rightarrow> owner));
        ret c
      }
      else claim_dead_owner i c record)
   }"

definition apply_node_lease_result ::
  "cell_id \<Rightarrow> cell \<Rightarrow> owner_record \<Rightarrow> nat \<Rightarrow> (cached_node_lease option, failure) result \<Rightarrow>
   cell core" where
  "apply_node_lease_result i c record issued_ms result = do {
     protocol \<leftarrow> look (\<lambda>s. cf_peer_protocol (st_config s));
     (case result of
        Err _ \<Rightarrow> do {
          c \<leftarrow> set_phase c Inactive;
          finish_requests i c (Err ResolveFailed)
        }
      | Ok None \<Rightarrow> displace_owner i c record None
      | Ok (Some cached) \<Rightarrow>
          let lease = cn_record cached in
          if \<not> lease_names_owner record issued_ms lease
          then displace_owner i c record (Some cached)
          else if nl_peer_protocol lease \<noteq> protocol then do {
            c \<leftarrow> set_phase c Inactive;
            finish_requests i c (Err PeerIncompatible)
          }
          else do {
            c \<leftarrow> set_phase c
              (Remote (nl_node lease) (nl_addr lease) (ow_epoch record) (nl_peer_protocol lease)
                (OwnerLease (cn_deadline cached)));
            finish_requests i c
              (Ok (route.Remote (nl_node lease) (nl_addr lease) (ow_epoch record)
                     (nl_peer_protocol lease)))
          })
   }"

definition read_lease :: "cell_id \<Rightarrow> cell \<Rightarrow> owner_record \<Rightarrow> node_id \<Rightarrow> nat \<Rightarrow> cell core" where
  "read_lease i c record owner now_ms = do {
     upd (\<lambda>s. s\<lparr>st_node_lease_cache := bm_remove owner (st_node_lease_cache s)\<rparr>);
     next \<leftarrow> cell_op i;
     now_mono_ms \<leftarrow> look st_now_mono_ms;
     c \<leftarrow> set_phase c (ReadingNodeLease next record now_ms now_mono_ms);
     emit (ReadNodeLease next i owner);
     ret c
   }"

definition resolve_foreign :: "cell_id \<Rightarrow> cell \<Rightarrow> owner_record \<Rightarrow> node_id \<Rightarrow> nat \<Rightarrow> cell core" where
  "resolve_foreign i c record owner now_ms = do {
     s \<leftarrow> look id;
     (case bm_get (st_node_lease_cache s) owner of
        Some lease \<Rightarrow>
          if deadline_live (cn_deadline lease) (st_now_ms s) (st_now_mono_ms s)
          then apply_node_lease_result i c record now_ms (Ok (Some lease))
          else read_lease i c record owner now_ms
      | None \<Rightarrow> read_lease i c record owner now_ms)
   }"

definition reconciling_claim :: "phase \<Rightarrow> claim option" where
  "reconciling_claim p = (case p of ReconcilingAcquire _ claim _ \<Rightarrow> Some claim | _ \<Rightarrow> None)"

text \<open>A reconciling read that found the claim applied: the cell is owned at the claimed epoch.\<close>

definition reconciled :: "cell_id \<Rightarrow> cell \<Rightarrow> claim \<Rightarrow> epoch \<Rightarrow> cell core" where
  "reconciled i c claim epoch = do {
     let spec =
       \<lparr>rs_epoch = epoch, rs_fresh = (cl_guard claim = cas_guard.Absent),
        rs_took_over = cl_takeover claim, rs_resume_local = False, rs_prior = cl_prior claim\<rparr>;
     record_acquisition spec;
     s \<leftarrow> look id;
     (if ownership_only s c then set_phase c (Dormant (rs_epoch spec))
      else activate_or_wait i c (activation.Restore spec) ShedToAdmit)
   }"

text \<open>The settlement of an owner read; the flag says whether the handler returned early.\<close>

definition settle_owner_read ::
  "cell_id \<Rightarrow> cell \<Rightarrow> nat \<Rightarrow> (owner_record option, failure) result \<Rightarrow> (bool \<times> cell) core" where
  "settle_owner_read i c now_ms result = do {
     node \<leftarrow> look st_node;
     let reconciling = reconciling_claim (c_phase c);
     let reconciles = (case reconciling of None \<Rightarrow> 0 | Some claim \<Rightarrow> cl_reconciles claim);
     (case result of
        Err _ \<Rightarrow> do {
          c \<leftarrow> set_phase c Inactive;
          c \<leftarrow> finish_requests i c (Err ResolveFailed);
          ret (False, c)
        }
      | Ok None \<Rightarrow> do {
          c \<leftarrow> place_unowned i c
            \<lparr>cl_guard = cas_guard.Absent, cl_epoch = 1, cl_takeover = False, cl_prior = None,
             cl_reconciles = reconciles\<rparr>;
          ret (False, c)
        }
      | Ok (Some record) \<Rightarrow>
          if ow_node record = Some node
             \<and> (case reconciling of None \<Rightarrow> False | Some claim \<Rightarrow> ow_epoch record = cl_epoch claim)
          then do {
            c \<leftarrow> reconciled i c (the reconciling) (ow_epoch record);
            ret (False, c)
          }
          else
            (case ow_node record of
               Some owner \<Rightarrow>
                 if owner = node then do {
                   (next, c) \<leftarrow> next_writer_epoch i c (ow_epoch record);
                   (case next of
                      None \<Rightarrow> ret (True, c)
                    | Some epoch \<Rightarrow> do {
                        c \<leftarrow> activate_or_wait i c
                          (Claim \<lparr>cl_guard = Match (ow_etag record), cl_epoch = epoch,
                                  cl_takeover = False, cl_prior = ow_node record,
                                  cl_reconciles = reconciles\<rparr>) ShedToAdmit;
                        ret (False, c)
                      })
                 }
                 else do {
                   c \<leftarrow> resolve_foreign i c record owner now_ms;
                   ret (False, c)
                 }
             | None \<Rightarrow> do {
                 (next, c) \<leftarrow> next_writer_epoch i c (ow_epoch record);
                 (case next of
                    None \<Rightarrow> ret (True, c)
                  | Some epoch \<Rightarrow> do {
                      c \<leftarrow> place_unowned i c
                        \<lparr>cl_guard = Match (ow_etag record), cl_epoch = epoch, cl_takeover = True,
                         cl_prior = None, cl_reconciles = reconciles\<rparr>;
                      ret (False, c)
                    })
               }))
   }"

definition owner_read_phase :: "op_id \<Rightarrow> phase \<Rightarrow> bool" where
  "owner_read_phase op p =
     (case p of
        ReadingOwner current \<Rightarrow> current = op
      | ReconcilingAcquire current _ _ \<Rightarrow> current = op
      | _ \<Rightarrow> False)"

text \<open>A confirmation nobody waits on records what the store says and stops.\<close>

definition confirmed_phase :: "node_id \<Rightarrow> (owner_record option, failure) result \<Rightarrow> phase" where
  "confirmed_phase node result =
     (case result of
        Ok (Some record) \<Rightarrow> if ow_node record = Some node then Dormant (ow_epoch record) else Inactive
      | _ \<Rightarrow> Inactive)"

definition owner_read ::
  "op_id \<Rightarrow> nat \<Rightarrow> (owner_record option, failure) result \<Rightarrow> unit core" where
  "owner_read op now_ms result = do {
     found \<leftarrow> claim_op_cell op (\<lambda>c. owner_read_phase op (c_phase c));
     (case found of
        None \<Rightarrow> skip
      | Some (i, c) \<Rightarrow> do {
          let confirming = c_confirming c;
          let c = c\<lparr>c_confirming := False\<rparr>;
          onlyif confirming (settle_confirmation i);
          node \<leftarrow> look st_node;
          (if confirming \<and> c_requests c = {} \<and> \<not> c_alarm_wake c then do {
             c \<leftarrow> set_phase c (confirmed_phase node result);
             put_cell i c
           }
           else do {
             let reconciling = (reconciling_claim (c_phase c) \<noteq> None);
             (returned, c) \<leftarrow> settle_owner_read i c now_ms result;
             put_cell i c;
             onlyif (\<not> returned \<and> reconciling) pump_capacity
           })
        })
   }"

definition as_reading_lease :: "phase \<Rightarrow> (op_id \<times> owner_record \<times> nat \<times> nat) option" where
  "as_reading_lease p =
     (case p of
        ReadingNodeLease op record issued_ms issued_mono_ms \<Rightarrow>
          Some (op, record, issued_ms, issued_mono_ms)
      | _ \<Rightarrow> None)"

definition cache_lease :: "owner_record \<Rightarrow> cached_node_lease \<Rightarrow> unit core" where
  "cache_lease record lease = do {
     s \<leftarrow> look id;
     onlyif (ow_node record = Some (nl_node (cn_record lease))
             \<and> deadline_live (cn_deadline lease) (st_now_ms s) (st_now_mono_ms s)
             \<and> nl_addr (cn_record lease) \<noteq> '''')
       (upd (\<lambda>s. s\<lparr>st_node_lease_cache :=
         bm_insert (nl_node (cn_record lease)) lease (st_node_lease_cache s)\<rparr>))
   }"

definition node_lease_read ::
  "op_id \<Rightarrow> nat \<Rightarrow> (node_lease_record option, failure) result \<Rightarrow> unit core" where
  "node_lease_read op now_ms result = do {
     found \<leftarrow> claim_op_cell op (\<lambda>c. map_option fst (as_reading_lease (c_phase c)) = Some op);
     (case found of
        None \<Rightarrow> skip
      | Some (i, c) \<Rightarrow>
          (case as_reading_lease (c_phase c) of
             None \<Rightarrow> put_cell i c
           | Some (_, record, issued_ms, issued_mono_ms) \<Rightarrow> do {
               core_now \<leftarrow> look st_now_ms;
               let observe = (\<lambda>lease.
                 \<lparr>cn_record = lease,
                  cn_deadline =
                    deadline_observed (nl_expires_ms lease) issued_mono_ms (max now_ms core_now)\<rparr>);
               let observed =
                 (case result of Ok lease \<Rightarrow> Ok (map_option observe lease) | Err e \<Rightarrow> Err e);
               (case result of
                  Err _ \<Rightarrow> skip
                | Ok found \<Rightarrow>
                    (case found of None \<Rightarrow> skip | Some lease \<Rightarrow> cache_lease record (observe lease)));
               c \<leftarrow> apply_node_lease_result i c record issued_ms observed;
               put_cell i c
             }))
   }"

subsection \<open>Fleet capacity\<close>

definition as_reading_capacity :: "phase \<Rightarrow> (op_id \<times> claim \<times> nat) option" where
  "as_reading_capacity p =
     (case p of ReadingCapacity op claim issued \<Rightarrow> Some (op, claim, issued) | _ \<Rightarrow> None)"

text \<open>A newer load sample supersedes the reservations and the refusals of the prior one.\<close>

definition note_sample :: "capacity_peer \<Rightarrow> unit core" where
  "note_sample peer = do {
     prior \<leftarrow> look (\<lambda>s. case bm_get (st_capacity_samples s) (cp_node peer) of None \<Rightarrow> 0 | Some p \<Rightarrow> p);
     onlyif (prior < cp_sampled_ms peer)
       (upd (\<lambda>s. s\<lparr>
         st_capacity_samples := bm_insert (cp_node peer) (cp_sampled_ms peer) (st_capacity_samples s),
         st_capacity_reservations := bm_remove (cp_node peer) (st_capacity_reservations s),
         st_capacity_rejections := bm_remove (cp_node peer) (st_capacity_rejections s)\<rparr>))
   }"

definition peer_eligible :: "core_state \<Rightarrow> nat \<Rightarrow> capacity_peer \<Rightarrow> bool" where
  "peer_eligible s now_ms peer =
     (cp_node peer \<noteq> st_node s \<and> now_ms < cp_expires_ms peer \<and> cp_addr peer \<noteq> ''''
      \<and> cp_peer_protocol peer = cf_peer_protocol (st_config s) \<and> cp_sampled_ms peer \<noteq> 0
      \<and> \<not> cp_pressured peer
      \<and> (case bm_get (st_capacity_rejections s) (cp_node peer) of
           None \<Rightarrow> True | Some sample \<Rightarrow> sample < cp_sampled_ms peer))"

definition projected_cells :: "core_state \<Rightarrow> capacity_peer \<Rightarrow> nat" where
  "projected_cells s peer =
     sat_add (cp_resident_cells peer)
       (case bm_get (st_capacity_reservations s) (cp_node peer) of None \<Rightarrow> 0 | Some n \<Rightarrow> n)"

definition peer_key :: "core_state \<Rightarrow> capacity_peer \<Rightarrow> nat \<times> nat \<times> nat \<times> node_id" where
  "peer_key s peer =
     (projected_cells s peer, cp_host_websockets peer,
      (case cp_in_use_bytes peer of None \<Rightarrow> cp_rss_bytes peer | Some n \<Rightarrow> n), cp_node peer)"

definition select_peer :: "core_state \<Rightarrow> nat \<Rightarrow> capacity_peer list \<Rightarrow> capacity_peer option" where
  "select_peer s now_ms peers = min_by_key (peer_key s) (filter (peer_eligible s now_ms) peers)"

definition place_on_peer :: "cell_id \<Rightarrow> cell \<Rightarrow> capacity_peer \<Rightarrow> nat \<Rightarrow> nat \<Rightarrow> cell core" where
  "place_on_peer i c peer issued_mono_ms now_ms = do {
     upd (\<lambda>s. s\<lparr>st_capacity_reservations :=
       increment (cp_node peer) (st_capacity_reservations s)\<rparr>);
     core_now \<leftarrow> look st_now_ms;
     c \<leftarrow> set_phase c
       (Remote (cp_node peer) (cp_addr peer) 0 (cp_peer_protocol peer)
         (CapacitySample (cp_sampled_ms peer)
           (deadline_observed (cp_expires_ms peer) issued_mono_ms (max now_ms core_now))));
     finish_requests i c
       (Ok (route.Remote (cp_node peer) (cp_addr peer) 0 (cp_peer_protocol peer)))
   }"

definition capacity_peers_read ::
  "op_id \<Rightarrow> nat \<Rightarrow> (capacity_peer list, failure) result \<Rightarrow> unit core" where
  "capacity_peers_read op now_ms result = do {
     found \<leftarrow> claim_op_cell op (\<lambda>c. map_option fst (as_reading_capacity (c_phase c)) = Some op);
     (case found of
        None \<Rightarrow> skip
      | Some (i, c) \<Rightarrow>
          (case as_reading_capacity (c_phase c) of
             None \<Rightarrow> put_cell i c
           | Some (_, claim, issued_mono_ms) \<Rightarrow>
               (case result of
                  Err _ \<Rightarrow> do {
                    c \<leftarrow> activate_or_wait i c (Claim claim) HoldResidents;
                    put_cell i c
                  }
                | Ok peers \<Rightarrow> do {
                    for_each peers note_sample;
                    selected \<leftarrow> look (\<lambda>s. select_peer s now_ms peers);
                    c \<leftarrow> (case selected of
                            Some peer \<Rightarrow> place_on_peer i c peer issued_mono_ms now_ms
                          | None \<Rightarrow> activate_or_wait i c (Claim claim) ShedToAdmit);
                    put_cell i c
                  })))
   }"

subsection \<open>The takeover interlock\<close>

definition as_recovering :: "phase \<Rightarrow> (op_id \<times> owner_record) option" where
  "as_recovering p = (case p of RecoveringOwnerLog op record \<Rightarrow> Some (op, record) | _ \<Rightarrow> None)"

definition back_off_recovery :: "cell_id \<Rightarrow> cell \<Rightarrow> cell core" where
  "back_off_recovery i c = do {
     s \<leftarrow> look id;
     let attempts = sat_add (c_owner_log_recovery_attempts c) 1;
     (if cf_owner_log_recovery_attempts (st_config s) \<le> attempts then do {
        c \<leftarrow> set_phase (c\<lparr>c_owner_log_recovery_attempts := 0\<rparr>) Inactive;
        finish_requests i c (Err ResolveFailed)
      }
      else do {
        generation \<leftarrow> fresh_timer_generation;
        c \<leftarrow> set_phase (c\<lparr>c_owner_log_recovery_attempts := attempts\<rparr>)
               (WaitingOwnerLogRecovery generation);
        emit (ScheduleTimer (OwnerLogRecoveryRetry i generation)
          (sat_add (st_now_mono_ms s) (cf_owner_log_recovery_backoff_ms (st_config s))));
        ret c
      })
   }"

definition node_log_recovered :: "op_id \<Rightarrow> (unit, failure) result \<Rightarrow> unit core" where
  "node_log_recovered op result = do {
     found \<leftarrow> claim_op_cell op (\<lambda>c. map_option fst (as_recovering (c_phase c)) = Some op);
     (case found of
        None \<Rightarrow> skip
      | Some (i, c) \<Rightarrow>
          (case as_recovering (c_phase c) of
             None \<Rightarrow> put_cell i c
           | Some (_, record) \<Rightarrow>
               (case result of
                  Ok _ \<Rightarrow> do {
                    (next, c) \<leftarrow> next_writer_epoch i c (ow_epoch record);
                    (case next of
                       None \<Rightarrow> put_cell i c
                     | Some epoch \<Rightarrow> do {
                         c \<leftarrow> activate_or_wait i c
                           (Claim \<lparr>cl_guard = Match (ow_etag record), cl_epoch = epoch,
                                   cl_takeover = True, cl_prior = ow_node record,
                                   cl_reconciles = 0\<rparr>) ShedToAdmit;
                         put_cell i (c\<lparr>c_owner_log_recovery_attempts := 0\<rparr>);
                         pump_activations
                       })
                  }
                | Err _ \<Rightarrow> do {
                    c \<leftarrow> back_off_recovery i c;
                    put_cell i c;
                    pump_activations
                  })))
   }"

definition retry_owner_log_recovery :: "cell_id \<Rightarrow> nat \<Rightarrow> unit core" where
  "retry_owner_log_recovery i generation = do {
     found \<leftarrow> take_cell i;
     (case found of
        None \<Rightarrow> skip
      | Some c \<Rightarrow>
          if c_phase c \<noteq> WaitingOwnerLogRecovery generation then put_cell i c
          else do {
            c \<leftarrow> (if c_requests c = {} \<and> \<not> c_alarm_wake c \<and> \<not> c_resume_demand c
                  then set_phase (c\<lparr>c_owner_log_recovery_attempts := 0\<rparr>) Inactive
                  else admit_or_queue_activation i c cold_start.ReadOwner);
            put_cell i c
          })
   }"

subsection \<open>Acquisition\<close>

definition as_acquiring :: "phase \<Rightarrow> (op_id \<times> claim \<times> bool) option" where
  "as_acquiring p = (case p of Acquiring op claim dormant \<Rightarrow> Some (op, claim, dormant) | _ \<Rightarrow> None)"

definition acquired :: "cell_id \<Rightarrow> cell \<Rightarrow> claim \<Rightarrow> bool \<Rightarrow> cell core" where
  "acquired i c claim dormant = do {
     let spec =
       \<lparr>rs_epoch = cl_epoch claim, rs_fresh = (cl_guard claim = cas_guard.Absent),
        rs_took_over = cl_takeover claim, rs_resume_local = False, rs_prior = cl_prior claim\<rparr>;
     record_acquisition spec;
     s \<leftarrow> look id;
     (if ownership_only s c then set_phase c (Dormant (rs_epoch spec))
      else if dormant then activate_or_wait i c (activation.Restore spec) ShedToAdmit
      else do {
        next \<leftarrow> cell_op i;
        c \<leftarrow> set_phase c (Restoring next spec);
        emit (effect.Restore next i spec);
        ret c
      })
   }"

definition settle_owner_cas ::
  "cell_id \<Rightarrow> cell \<Rightarrow> claim \<Rightarrow> bool \<Rightarrow> (cas_outcome, failure) result \<Rightarrow> cell core" where
  "settle_owner_cas i c claim dormant result =
     (case result of
        Ok outcome \<Rightarrow>
          (case outcome of
             cas_outcome.Applied \<Rightarrow> acquired i c claim dormant
           | cas_outcome.Rejected \<Rightarrow> do {
               next \<leftarrow> cell_op i;
               c \<leftarrow> set_phase c (ReadingOwner next);
               emit (effect.ReadOwner next i);
               ret c
             })
      | Err failure \<Rightarrow>
          if failure = failure.Ambiguous \<and> cl_reconciles claim < MAX_ACQUIRE_RECONCILES then do {
            next \<leftarrow> cell_op i;
            c \<leftarrow> set_phase c
              (ReconcilingAcquire next (claim\<lparr>cl_reconciles := cl_reconciles claim + 1\<rparr>) dormant);
            emit (effect.ReadOwner next i);
            ret c
          }
          else do {
            c \<leftarrow> set_phase c Inactive;
            finish_requests i c (Err AcquireFailed)
          })"

definition owner_cas_completed :: "op_id \<Rightarrow> (cas_outcome, failure) result \<Rightarrow> unit core" where
  "owner_cas_completed op result = do {
     found \<leftarrow> claim_op_cell op (\<lambda>c. map_option fst (as_acquiring (c_phase c)) = Some op);
     (case found of
        None \<Rightarrow> skip
      | Some (i, c) \<Rightarrow>
          (case as_acquiring (c_phase c) of
             None \<Rightarrow> put_cell i c
           | Some (_, claim, dormant) \<Rightarrow> do {
               c \<leftarrow> settle_owner_cas i c claim dormant result;
               put_cell i c;
               pump_capacity
             }))
   }"

subsection \<open>Release and adoption\<close>

text \<open>The requests a balancing move parked take the ordinary path once it is over.\<close>

definition unpark :: "cell_id \<Rightarrow> cell \<Rightarrow> cell core" where
  "unpark i c =
     (if c_requests c = {} then ret c else admit_or_queue_activation i c cold_start.ReadOwner)"

definition owner_released :: "op_id \<Rightarrow> (cas_outcome, failure) result \<Rightarrow> unit core" where
  "owner_released op result = do {
     found \<leftarrow> claim_op_cell op (\<lambda>c. c_releasing c = Some op);
     (case found of
        None \<Rightarrow> skip
      | Some (i, c) \<Rightarrow> do {
          s \<leftarrow> look id;
          let settled = (result = Ok cas_outcome.Applied
                         \<or> (hands_off s c \<and> result = Ok cas_outcome.Rejected));
          (case (if settled \<and> hands_off s c then as_dormant (c_phase c) else None) of
             Some released_epoch \<Rightarrow> do {
               adopt \<leftarrow> cell_op i;
               upd (\<lambda>s. s\<lparr>st_releasing_cells := st_releasing_cells s - {i},
                          st_adopting_cells := insert i (st_adopting_cells s)\<rparr>);
               c \<leftarrow> set_phase (c\<lparr>c_releasing := None\<rparr>) (Adopting adopt released_epoch);
               emit (AdoptReleased adopt i released_epoch (c_handoff c));
               put_cell i c
             }
           | None \<Rightarrow> do {
               upd (\<lambda>s. s\<lparr>st_releasing_cells := st_releasing_cells s - {i}\<rparr>);
               let c = c\<lparr>c_releasing := None\<rparr>;
               c \<leftarrow> (if settled \<and> is_dormant (c_phase c) then set_phase c Inactive else ret c);
               c \<leftarrow> (if c_handoff c then unpark i (c\<lparr>c_handoff := False\<rparr>) else ret c);
               put_cell i c
             })
        })
   }"

definition as_adopting :: "phase \<Rightarrow> (op_id \<times> epoch) option" where
  "as_adopting p = (case p of Adopting op released_epoch \<Rightarrow> Some (op, released_epoch) | _ \<Rightarrow> None)"

definition adoption_ok :: "core_state \<Rightarrow> epoch \<Rightarrow> adopted_cell \<Rightarrow> bool" where
  "adoption_ok s released_epoch adopted =
     (ad_node adopted \<noteq> st_node s \<and> ad_addr adopted \<noteq> '''' \<and> released_epoch < ad_epoch adopted
      \<and> ad_peer_protocol adopted = cf_peer_protocol (st_config s))"

definition fail_adoption :: "cell_id \<Rightarrow> cell \<Rightarrow> bool \<Rightarrow> cell core" where
  "fail_adoption i c handoff = do {
     modify_activity (\<lambda>a. a\<lparr>ac_handoff_failed := sat_add (ac_handoff_failed a) 1\<rparr>);
     (if handoff then do {
        modify_activity (\<lambda>a. a\<lparr>ac_rebalance_failed := sat_add (ac_rebalance_failed a) 1\<rparr>);
        c \<leftarrow> set_phase c Inactive;
        unpark i c
      }
      else do {
        c \<leftarrow> set_phase c Inactive;
        finish_requests i c (Err request_error.NodeUnavailable)
      })
   }"

definition adopted_by :: "cell_id \<Rightarrow> cell \<Rightarrow> bool \<Rightarrow> adopted_cell \<Rightarrow> cell core" where
  "adopted_by i c handoff adopted = do {
     modify_activity (\<lambda>a. a\<lparr>ac_handed_off := sat_add (ac_handed_off a) 1\<rparr>);
     onlyif handoff (modify_activity (\<lambda>a. a\<lparr>ac_rebalanced := sat_add (ac_rebalanced a) 1\<rparr>));
     c \<leftarrow> set_phase c
       (Remote (ad_node adopted) (ad_addr adopted) (ad_epoch adopted) (ad_peer_protocol adopted)
         Uncached);
     finish_requests i c
       (Ok (route.Remote (ad_node adopted) (ad_addr adopted) (ad_epoch adopted)
              (ad_peer_protocol adopted)))
   }"

definition successor_adopted :: "op_id \<Rightarrow> (adopted_cell, failure) result \<Rightarrow> unit core" where
  "successor_adopted op result = do {
     found \<leftarrow> claim_op_cell op (\<lambda>c. map_option fst (as_adopting (c_phase c)) = Some op);
     (case found of
        None \<Rightarrow> skip
      | Some (i, c) \<Rightarrow>
          (case as_adopting (c_phase c) of
             None \<Rightarrow> put_cell i c
           | Some (_, released_epoch) \<Rightarrow> do {
               upd (\<lambda>s. s\<lparr>st_adopting_cells := st_adopting_cells s - {i}\<rparr>);
               s \<leftarrow> look id;
               let handoff = c_handoff c;
               let c = c\<lparr>c_handoff := False\<rparr>;
               c \<leftarrow> (case result of
                       Err _ \<Rightarrow> fail_adoption i c handoff
                     | Ok adopted \<Rightarrow>
                         if adoption_ok s released_epoch adopted
                         then adopted_by i c handoff adopted
                         else fail_adoption i c handoff);
               put_cell i c
             }))
   }"

section \<open>The handlers keep the invariant\<close>

lemma phase_views [simp]:
  "as_acquiring p = Some (op, claim, dormant) \<longleftrightarrow> p = Acquiring op claim dormant"
  "as_adopting p = Some (op, epoch) \<longleftrightarrow> p = Adopting op epoch"
  "as_recovering p = Some (op, record) \<longleftrightarrow> p = RecoveringOwnerLog op record"
  "as_reading_capacity p = Some (op, claim, issued) \<longleftrightarrow> p = ReadingCapacity op claim issued"
  by (auto simp: as_acquiring_def as_adopting_def as_recovering_def as_reading_capacity_def
      split: phase.splits)

lemma confirmed_phase_idle [simp]: "\<not> phase_occupies_capacity (confirmed_phase node result)"
  by (simp add: confirmed_phase_def split: result.split option.split)

lemma tri_cas:
  "(x = cas_outcome.Applied \<Longrightarrow> tri P I m Q) \<Longrightarrow> (x = cas_outcome.Rejected \<Longrightarrow> tri P I m' Q) \<Longrightarrow>
   tri P I (case x of cas_outcome.Applied \<Rightarrow> m | cas_outcome.Rejected \<Rightarrow> m') Q"
  by (simp split: cas_outcome.split)

context core_proof begin

lemma inv_bind_claim_case:
  assumes "tri P (core_inv none_held) m Q" and "\<And>i c. tri P (core_inv ({i}, occ c)) (g i c) Q"
  shows "tri P (core_inv none_held)
    (State_Monad.bind (claim_op_cell op p) (\<lambda>r. case r of None \<Rightarrow> m | Some (i, c) \<Rightarrow> g i c)) Q"
proof -
  have "tri P (core_inv none_held) (claim_op_cell op p)
      (\<lambda>r. case r of None \<Rightarrow> core_inv none_held | Some (i, c) \<Rightarrow> core_inv ({i}, occ c))"
    unfolding claim_op_cell_def
  proof (rule inv_bind [OF take_cell_op_ok], rule tri_option)
    fix i
    show "tri P (core_inv none_held)
        (do {
           c \<leftarrow> take_cell i;
           ret (map_option (\<lambda>c. (i, c)) c)
         }) (\<lambda>r. case r of None \<Rightarrow> core_inv none_held | Some (i, c) \<Rightarrow> core_inv ({i}, occ c))"
      by (rule inv_bind_take, rule tri_ret) (auto split: option.split intro: inv_weaken)
  qed (simp add: tri_ret)
  then show ?thesis
    by (rule tri_bind) (auto split: option.split intro: assms)
qed

lemma begin_capacity_lookup_ok [core_ok]:
  "n = occ c \<Longrightarrow> tri P (core_inv (A, n)) (begin_capacity_lookup i c claim) (\<lambda>c. core_inv (A, occ c))"
  unfolding begin_capacity_lookup_def
  by (rule core_ok core_struct | simp add: benign_def acked_def)+

lemma refuse_capacity_handoffs_ok [core_ok]:
  "n = occ c \<Longrightarrow> tri P (core_inv (A, n)) (refuse_capacity_handoffs i c) (\<lambda>c. core_inv (A, occ c))"
  unfolding refuse_capacity_handoffs_def
  by (rule core_ok core_struct | simp add: benign_def acked_def)+

lemma place_unowned_ok [core_ok]:
  assumes n: "n = occ c"
  shows "tri P (core_inv (A, n)) (place_unowned i c claim) (\<lambda>c. core_inv (A, occ c))"
  unfolding place_unowned_def
proof (rule inv_bind_pair [OF refuse_new_ownership_ok [OF n]], rule tri_bind_state, rule tri_if)
  fix refused c s
  let ?I = "\<lambda>s'. core_inv (A, occ c) s' \<and> s' = s"
  show "tri P ?I (ret c) (\<lambda>c. core_inv (A, occ c))"
    by (rule tri_state_drop) (simp add: inv_ret_cell)
  have direct: "tri P ?I (begin_activation i c (Claim claim)) (\<lambda>c. core_inv (A, occ c))"
    if "ownership_only s c"
    by (rule tri_pre [OF begin_activation_ok [where K = True]])
      (use that in \<open>auto simp: ownership_only_def\<close>)
  show "tri P ?I
     (if has_capacity s then activate_or_wait i c (Claim claim) ShedToAdmit
      else if ownership_only s c then begin_activation i c (Claim claim)
      else do {
        c \<leftarrow> refuse_capacity_handoffs i c;
        (if c_requests c = {} \<or> \<not> cf_require_node_lease (st_config s)
         then activate_or_wait i c (Claim claim) ShedToAdmit
         else begin_capacity_lookup i c claim)
      }) (\<lambda>c. core_inv (A, occ c))"
    by (rule tri_if direct tri_state_drop core_ok core_struct | simp)+
qed

lemma claim_dead_owner_ok [core_ok]:
  "n = occ c \<Longrightarrow> tri P (core_inv (A, n)) (claim_dead_owner i c record) (\<lambda>c. core_inv (A, occ c))"
  unfolding claim_dead_owner_def
  by (rule core_ok core_struct | simp add: benign_def acked_def)+

lemma displace_owner_ok [core_ok]:
  "n = occ c \<Longrightarrow> tri P (core_inv (A, n)) (displace_owner i c record lease) (\<lambda>c. core_inv (A, occ c))"
  unfolding displace_owner_def
  by (rule core_ok core_struct | simp add: benign_def acked_def)+

lemma apply_node_lease_result_ok [core_ok]:
  "n = occ c \<Longrightarrow> tri P (core_inv (A, n)) (apply_node_lease_result i c record issued_ms result) (\<lambda>c. core_inv (A, occ c))"
  unfolding apply_node_lease_result_def
  by (rule core_ok core_struct | simp add: benign_def acked_def)+

lemma read_lease_ok [core_ok]:
  "n = occ c \<Longrightarrow> tri P (core_inv (A, n)) (read_lease i c record owner now_ms) (\<lambda>c. core_inv (A, occ c))"
  unfolding read_lease_def
  by (rule core_ok core_struct | simp add: benign_def acked_def)+

lemma resolve_foreign_ok [core_ok]:
  "n = occ c \<Longrightarrow> tri P (core_inv (A, n)) (resolve_foreign i c record owner now_ms) (\<lambda>c. core_inv (A, occ c))"
  unfolding resolve_foreign_def
  by (rule core_ok core_struct | simp add: benign_def acked_def)+

lemma reconciled_ok [core_ok]:
  "n = occ c \<Longrightarrow> tri P (core_inv (A, n)) (reconciled i c claim epoch) (\<lambda>c. core_inv (A, occ c))"
  unfolding reconciled_def
  by (rule core_ok core_struct | simp add: benign_def acked_def)+

lemma settle_owner_read_ok [core_ok]:
  "n = occ c \<Longrightarrow>
   tri P (core_inv (A, n)) (settle_owner_read i c now_ms result) (\<lambda>x. core_inv (A, occ (snd x)))"
  unfolding settle_owner_read_def by (rule core_ok core_struct | simp)+

lemma owner_read_ok [core_ok]:
  "tri P (core_inv none_held) (owner_read op now_ms result) (\<lambda>_. core_inv none_held)"
  unfolding owner_read_def
  by (rule core_ok inv_bind_claim_case core_struct | simp add: benign_def acked_def)+

lemma cache_lease_ok [core_ok]:
  "tri P (core_inv h) (cache_lease record lease) (\<lambda>_. core_inv h)"
  unfolding cache_lease_def
  by (rule core_ok inv_bind_claim_case core_struct | simp add: benign_def acked_def)+

lemma node_lease_read_ok [core_ok]:
  "tri P (core_inv none_held) (node_lease_read op now_ms result) (\<lambda>_. core_inv none_held)"
  unfolding node_lease_read_def
  by (rule core_ok inv_bind_claim_case core_struct | simp add: benign_def acked_def)+

lemma note_sample_ok [core_ok]:
  "tri P (core_inv h) (note_sample peer) (\<lambda>_. core_inv h)"
  unfolding note_sample_def
  by (rule core_ok inv_bind_claim_case core_struct | simp add: benign_def acked_def)+

lemma place_on_peer_ok [core_ok]:
  "n = occ c \<Longrightarrow> tri P (core_inv (A, n)) (place_on_peer i c peer issued_mono_ms now_ms) (\<lambda>c. core_inv (A, occ c))"
  unfolding place_on_peer_def
  by (rule core_ok core_struct | simp add: benign_def acked_def)+

lemma capacity_peers_read_ok [core_ok]:
  "tri P (core_inv none_held) (capacity_peers_read op now_ms result) (\<lambda>_. core_inv none_held)"
  unfolding capacity_peers_read_def
  by (rule core_ok inv_bind_claim_case core_struct | simp add: benign_def acked_def)+

lemma back_off_recovery_ok [core_ok]:
  "n = occ c \<Longrightarrow> tri P (core_inv (A, n)) (back_off_recovery i c) (\<lambda>c. core_inv (A, occ c))"
  unfolding back_off_recovery_def
  by (rule core_ok core_struct | simp add: benign_def acked_def)+

lemma node_log_recovered_ok [core_ok]:
  "tri P (core_inv none_held) (node_log_recovered op result) (\<lambda>_. core_inv none_held)"
  unfolding node_log_recovered_def
  by (rule core_ok inv_bind_claim_case core_struct | simp add: benign_def acked_def)+

lemma retry_owner_log_recovery_ok [core_ok]:
  "tri P (core_inv none_held) (retry_owner_log_recovery i generation) (\<lambda>_. core_inv none_held)"
  unfolding retry_owner_log_recovery_def
  by (rule core_ok inv_bind_claim_case core_struct | simp add: benign_def acked_def)+

lemma acquired_ok [core_ok]:
  "n = occ c \<Longrightarrow> (\<not> dormant \<Longrightarrow> phase_occupies_capacity (c_phase c)) \<Longrightarrow>
   tri P (core_inv (A, n)) (acquired i c claim dormant) (\<lambda>c. core_inv (A, occ c))"
  unfolding acquired_def
  by (rule core_ok core_struct | simp add: benign_def acked_def)+

lemma settle_owner_cas_ok [core_ok]:
  "n = occ c \<Longrightarrow> (\<not> dormant \<Longrightarrow> phase_occupies_capacity (c_phase c)) \<Longrightarrow>
   tri P (core_inv (A, n)) (settle_owner_cas i c claim dormant result) (\<lambda>c. core_inv (A, occ c))"
  unfolding settle_owner_cas_def
  by (rule core_ok tri_cas core_struct | simp add: benign_def acked_def)+

lemma owner_cas_completed_ok [core_ok]:
  "tri P (core_inv none_held) (owner_cas_completed op result) (\<lambda>_. core_inv none_held)"
  unfolding owner_cas_completed_def
  by (rule core_ok inv_bind_claim_case core_struct | simp add: benign_def acked_def)+

lemma unpark_ok [core_ok]:
  "n = occ c \<Longrightarrow> tri P (core_inv (A, n)) (unpark i c) (\<lambda>c. core_inv (A, occ c))"
  unfolding unpark_def
  by (rule core_ok core_struct | simp add: benign_def acked_def)+

lemma owner_released_ok [core_ok]:
  "tri P (core_inv none_held) (owner_released op result) (\<lambda>_. core_inv none_held)"
  unfolding owner_released_def
  by (rule core_ok inv_bind_claim_case core_struct | simp add: benign_def acked_def)+

lemma fail_adoption_ok [core_ok]:
  "n = occ c \<Longrightarrow> tri P (core_inv (A, n)) (fail_adoption i c handoff) (\<lambda>c. core_inv (A, occ c))"
  unfolding fail_adoption_def
  by (rule core_ok core_struct | simp add: benign_def acked_def)+

lemma adopted_by_ok [core_ok]:
  "n = occ c \<Longrightarrow> tri P (core_inv (A, n)) (adopted_by i c handoff adopted) (\<lambda>c. core_inv (A, occ c))"
  unfolding adopted_by_def
  by (rule core_ok core_struct | simp add: benign_def acked_def)+

lemma successor_adopted_ok [core_ok]:
  "tri P (core_inv none_held) (successor_adopted op result) (\<lambda>_. core_inv none_held)"
  unfolding successor_adopted_def
  by (rule core_ok inv_bind_claim_case core_struct | simp add: benign_def acked_def)+

end

end
