(* ===== verification/OutputGate.thy ===== *)
theory OutputGate
  imports AlarmCore
begin

text \<open>
  The output gate (\<open>output_gate.rs\<close>, and \<open>reset_cell\<close>, \<open>cancel_cell_outputs\<close> of \<open>lib.rs\<close>): every output
  that can reveal a cell's state is withheld behind a barrier until the writes it can reveal are
  proven durable. A barrier is a record in an ordered map keyed by the durability operation;
  \<open>settle_gate\<close> is the only place that acknowledges one.
\<close>

section \<open>Definitions\<close>

definition modify_barrier :: "op_id \<Rightarrow> (barrier \<Rightarrow> barrier) \<Rightarrow> unit core" where
  "modify_barrier op f = upd (\<lambda>s. s\<lparr>st_barriers := bm_modify op f (st_barriers s)\<rparr>)"

definition take_barrier :: "op_id \<Rightarrow> barrier option core" where
  "take_barrier op = do {
     b \<leftarrow> look (\<lambda>s. bm_get (st_barriers s) op);
     upd (\<lambda>s. s\<lparr>st_barriers := bm_remove op (st_barriers s)\<rparr>);
     ret b
   }"

definition release_output :: "held \<Rightarrow> (unit, request_error) result \<Rightarrow> unit core" where
  "release_output h result = emit (effect.Release (hd_request h) (hd_channel h) result)"

definition resident_cell :: "core_state \<Rightarrow> request_id \<Rightarrow> (cell_id \<times> epoch) option" where
  "resident_cell s request =
     Option.bind (bm_get (st_active_requests s) request) (\<lambda>i.
       Option.bind (bm_get (st_cells s) i) (\<lambda>c.
         map_option (\<lambda>epoch. (i, epoch)) (as_resident (c_phase c))))"

definition open_write_barrier :: "held \<Rightarrow> nat \<Rightarrow> unit core" where
  "open_write_barrier h position = do {
     found \<leftarrow> look (\<lambda>s. resident_cell s (hd_request h));
     (case found of
        None \<Rightarrow> release_output h (Err DurabilityUnproven)
      | Some (i, epoch) \<Rightarrow> open_barrier (gate_owner.Output h) i epoch position)
   }"

definition trail_open_barrier :: "held \<Rightarrow> unit core" where
  "trail_open_barrier h = do {
     s \<leftarrow> look id;
     (case bm_get (st_active_requests s) (hd_request h) of
        None \<Rightarrow> release_output h (Err DurabilityUnproven)
      | Some i \<Rightarrow>
          (case List.find (\<lambda>(_, b). b_cell b = i \<and> trailable b) (rev (st_barriers s)) of
             Some (op, _) \<Rightarrow> modify_barrier op (\<lambda>b. b\<lparr>b_followers := b_followers b @ [h]\<rparr>)
           | None \<Rightarrow> release_output h (Ok ())))
   }"

definition proven_covers :: "core_state \<Rightarrow> cell_id \<Rightarrow> epoch \<Rightarrow> nat \<Rightarrow> bool" where
  "proven_covers s i epoch observed =
     (case Option.bind (bm_get (st_cells s) i) c_proven_position of
        None \<Rightarrow> False
      | Some (proven_at, proven) \<Rightarrow> proven_at = epoch \<and> observed \<le> proven)"

definition hold_observed :: "held \<Rightarrow> cell_id \<Rightarrow> epoch \<Rightarrow> nat \<Rightarrow> unit core" where
  "hold_observed h i epoch observed = do {
     s \<leftarrow> look id;
     (case List.find (\<lambda>(_, b). b_cell b = i \<and> b_epoch b = epoch \<and> observed \<le> b_position b
              \<and> trailable b) (rev (st_barriers s)) of
        Some (op, _) \<Rightarrow> modify_barrier op (\<lambda>b. b\<lparr>b_followers := b_followers b @ [h]\<rparr>)
      | None \<Rightarrow> open_write_barrier h observed)
   }"

definition note_proven :: "cell_id \<Rightarrow> epoch \<Rightarrow> nat \<Rightarrow> unit core" where
  "note_proven i epoch position =
     modify_cell i (\<lambda>c. c\<lparr>c_proven_position :=
       Some (case c_proven_position c of
               None \<Rightarrow> (epoch, position)
             | Some (proven_at, proven) \<Rightarrow>
                 if proven_at = epoch then (epoch, max proven position)
                 else (epoch, position))\<rparr>)"

definition gate_output ::
  "request_id \<Rightarrow> channel \<Rightarrow> nat option \<Rightarrow> nat option \<Rightarrow> epoch option \<Rightarrow> unit core" where
  "gate_output request channel position observed epoch = do {
     s \<leftarrow> look id;
     let h = \<lparr>hd_request = request, hd_channel = channel\<rparr>;
     (if \<not> node_authoritative s then release_output h (Err request_error.NodeFenced)
      else if (case epoch of
                 None \<Rightarrow> False
               | Some sampled \<Rightarrow>
                   (case resident_cell s request of
                      None \<Rightarrow> True
                    | Some (_, current) \<Rightarrow> current \<noteq> sampled))
      then release_output h (Err DurabilityUnproven)
      else
        (case position of
           Some p \<Rightarrow> open_write_barrier h p
         | None \<Rightarrow>
             (case observed of
                None \<Rightarrow> trail_open_barrier h
              | Some seen \<Rightarrow>
                  (case resident_cell s request of
                     None \<Rightarrow> release_output h (Err DurabilityUnproven)
                   | Some (i, current) \<Rightarrow>
                       if proven_covers s i current seen then trail_open_barrier h
                       else hold_observed h i current seen))))
   }"

subsection \<open>Export tickets\<close>

definition open_export_barrier :: "cell_id \<Rightarrow> epoch \<Rightarrow> nat \<Rightarrow> nat \<Rightarrow> unit core" where
  "open_export_barrier i epoch position ticket = open_barrier (Export ticket) i epoch position"

definition reask_riders :: "cell_id \<Rightarrow> epoch \<Rightarrow> rider list \<Rightarrow> unit core" where
  "reask_riders i epoch riders =
     for_each riders (\<lambda>r. open_export_barrier i epoch (rd_position r) (rd_ticket r))"

definition export_ticket :: "cell_id \<Rightarrow> epoch \<Rightarrow> nat \<Rightarrow> nat \<Rightarrow> unit core" where
  "export_ticket i epoch position ticket = do {
     s \<leftarrow> look id;
     (if \<not> node_authoritative s
      then emit (ExportProven i epoch ticket (Err request_error.NodeFenced))
      else if \<not> resident_at s i epoch
      then emit (ExportProven i epoch ticket (Err DurabilityUnproven))
      else
        (case List.find (\<lambda>(_, b). b_cell b = i \<and> b_epoch b = epoch \<and> \<not> b_verifying b
                 \<and> position \<le> b_position b) (st_barriers s) of
           Some (op, _) \<Rightarrow>
             modify_barrier op (\<lambda>b. b\<lparr>b_riders :=
               b_riders b @ [\<lparr>rd_ticket = ticket, rd_position = position\<rparr>]\<rparr>)
         | None \<Rightarrow> open_export_barrier i epoch position ticket))
   }"

definition is_export :: "barrier \<Rightarrow> bool" where
  "is_export b = (case b_owner b of Export _ \<Rightarrow> True | _ \<Rightarrow> False)"

definition export_riders :: "barrier \<Rightarrow> rider list" where
  "export_riders b =
     (case b_owner b of
        Export ticket \<Rightarrow> \<lparr>rd_ticket = ticket, rd_position = b_position b\<rparr> # b_riders b
      | _ \<Rightarrow> [])"

definition hand_export_on :: "op_id \<Rightarrow> barrier \<Rightarrow> bool core" where
  "hand_export_on op gate = do {
     s \<leftarrow> look id;
     (if \<not> is_export gate then ret False
      else
        (case List.find (\<lambda>(other, b). other \<noteq> op \<and> b_cell b = b_cell gate
                 \<and> b_epoch b = b_epoch gate \<and> \<not> b_verifying b \<and> trailable b) (st_barriers s) of
           None \<Rightarrow> ret False
         | Some (host, _) \<Rightarrow> do {
             upd (\<lambda>s. s\<lparr>st_barriers := bm_remove op (st_barriers s)\<rparr>);
             modify_barrier host (\<lambda>b. b\<lparr>b_riders := b_riders b @ export_riders gate\<rparr>);
             ret True
           }))
   }"

definition take_export_riders :: "op_id \<Rightarrow> barrier \<Rightarrow> unit core" where
  "take_export_riders op gate = do {
     s \<leftarrow> look id;
     let taken = filter (\<lambda>(other, b). other \<noteq> op \<and> b_cell b = b_cell gate
           \<and> b_epoch b = b_epoch gate \<and> \<not> b_verifying b \<and> b_position b \<le> b_position gate
           \<and> is_export b) (st_barriers s);
     for_each taken (\<lambda>(other, _). upd (\<lambda>s. s\<lparr>st_barriers := bm_remove other (st_barriers s)\<rparr>));
     modify_barrier op (\<lambda>b. b\<lparr>b_riders :=
       b_riders b @ concat (map (\<lambda>(_, b'). export_riders b') taken)\<rparr>)
   }"

subsection \<open>Settling\<close>

definition release_held :: "held \<Rightarrow> (unit, request_error) result \<Rightarrow> unit core" where
  "release_held h result = do {
     pinned \<leftarrow> look (\<lambda>s. hd_request h \<in> st_gate_pinned s);
     onlyif pinned (do {
       upd (\<lambda>s. s\<lparr>st_gate_pinned := st_gate_pinned s - {hd_request h}\<rparr>);
       activity_finished (hd_request h)
     });
     release_output h result
   }"

definition fail_barrier :: "barrier \<Rightarrow> unit core" where
  "fail_barrier gate = do {
     (case b_owner gate of
        gate_owner.Output h \<Rightarrow> do {
          upd (\<lambda>s. s\<lparr>st_gate_pinned := st_gate_pinned s - {hd_request h}\<rparr>);
          release_output h (Err DurabilityUnproven)
        }
      | gate_owner.Alarm alarm _ _ \<Rightarrow> do {
          now_ms \<leftarrow> look st_now_ms;
          now_mono_ms \<leftarrow> look st_now_mono_ms;
          alarm_finished alarm (b_cell gate) (b_epoch gate) now_ms now_mono_ms
            (Err failure.Ambiguous)
        }
      | Export ticket \<Rightarrow>
          emit (ExportProven (b_cell gate) (b_epoch gate) ticket (Err DurabilityUnproven)));
     for_each (b_followers gate) (\<lambda>h. release_output h (Err DurabilityUnproven));
     for_each (b_riders gate) (\<lambda>r.
       emit (ExportProven (b_cell gate) (b_epoch gate) (rd_ticket r) (Err DurabilityUnproven)))
   }"

definition reset_cell :: "cell_id \<Rightarrow> epoch \<Rightarrow> unit core" where
  "reset_cell i epoch = do {
     s \<leftarrow> look id;
     (if \<not> resident_at s i epoch then skip
      else do {
        for_each
          (map fst (filter (\<lambda>(_, b). b_cell b = i \<and> b_epoch b = epoch) (st_barriers s)))
          (\<lambda>op. do {
             gate \<leftarrow> take_barrier op;
             (case gate of None \<Rightarrow> skip | Some g \<Rightarrow> fail_barrier g)
           });
        active \<leftarrow> look st_active_requests;
        for_each (map fst (filter (\<lambda>(_, cell). cell = i) active)) (\<lambda>request. do {
          _ \<leftarrow> deactivate_request request;
          upd (\<lambda>s. s\<lparr>st_gate_pinned := st_gate_pinned s - {request}\<rparr>)
        });
        op \<leftarrow> cell_op i;
        found \<leftarrow> get_cell i;
        (case found of
           None \<Rightarrow> skip
         | Some c \<Rightarrow> do {
             (case phase_op (c_phase c) of None \<Rightarrow> skip | Some stale \<Rightarrow> remove_cell_op stale);
             upd (\<lambda>s. s\<lparr>st_quiescing_cells := st_quiescing_cells s - {i}\<rparr>);
             c \<leftarrow> set_phase c (Cleaning op epoch Reset);
             put_cell i c
           });
        emit (StopRuntime op i epoch Reset False)
      })
   }"

definition settle_gate :: "op_id \<Rightarrow> bool \<Rightarrow> unit core" where
  "settle_gate op proven = do {
     found \<leftarrow> take_barrier op;
     (case found of
        None \<Rightarrow> skip
      | Some gate \<Rightarrow> do {
          onlyif proven (note_proven (b_cell gate) (b_epoch gate) (b_position gate));
          let result = (if proven then Ok () else Err DurabilityUnproven);
          for_each (b_riders gate) (\<lambda>r.
            emit (ExportProven (b_cell gate) (b_epoch gate) (rd_ticket r) result));
          (case b_owner gate of
             Export ticket \<Rightarrow> emit (ExportProven (b_cell gate) (b_epoch gate) ticket result)
           | _ \<Rightarrow> do {
               (case b_owner gate of
                  gate_owner.Output h \<Rightarrow> release_held h result
                | gate_owner.Alarm alarm snapshot covered \<Rightarrow> do {
                    now_ms \<leftarrow> look st_now_ms;
                    now_mono_ms \<leftarrow> look st_now_mono_ms;
                    alarm_finished alarm (b_cell gate) (b_epoch gate) now_ms now_mono_ms
                      (if proven then Ok (snapshot, covered, None) else Err failure.Ambiguous)
                  }
                | Export _ \<Rightarrow> skip);
               for_each (b_followers gate) (\<lambda>h. release_held h result);
               onlyif (\<not> proven) (reset_cell (b_cell gate) (b_epoch gate))
             })
        })
   }"

definition durable_reached ::
  "op_id \<Rightarrow> (nat, failure) result \<Rightarrow> proof_source \<Rightarrow> unit core" where
  "durable_reached op result source = do {
     found \<leftarrow> look (\<lambda>s. bm_get (st_barriers s) op);
     (case found of
        None \<Rightarrow> skip
      | Some gate \<Rightarrow>
          let proven = (case result of Ok durable \<Rightarrow> b_position gate \<le> durable | Err _ \<Rightarrow> False) in
          if proven \<and> source = Bucket then do {
            handed \<leftarrow> hand_export_on op gate;
            (if handed then skip
             else do {
               take_export_riders op gate;
               modify_barrier op (\<lambda>b. b\<lparr>b_verifying := True\<rparr>);
               emit (VerifyOwnership op (b_cell gate) (b_epoch gate))
             })
          }
          else if proven then do {
            modify_barrier op (\<lambda>b. b\<lparr>b_riders := []\<rparr>);
            settle_gate op True;
            reask_riders (b_cell gate) (b_epoch gate) (b_riders gate)
          }
          else settle_gate op proven)
   }"

definition ownership_verified :: "op_id \<Rightarrow> (unit, failure) result \<Rightarrow> unit core" where
  "ownership_verified op result = do {
     present \<leftarrow> look (\<lambda>s. bm_has (st_barriers s) op);
     (if \<not> present then skip else settle_gate op (is_ok result))
   }"

definition cancel_cell_outputs :: "cell_id \<Rightarrow> unit core" where
  "cancel_cell_outputs i = do {
     s \<leftarrow> look id;
     for_each
       (map fst (filter (\<lambda>(_, b). b_cell b = i
          \<and> (case b_owner b of gate_owner.Output _ \<Rightarrow> True | _ \<Rightarrow> False)) (st_barriers s)))
       (\<lambda>op. do {
          found \<leftarrow> take_barrier op;
          (case found of
             None \<Rightarrow> skip
           | Some gate \<Rightarrow>
               (case b_owner gate of
                  gate_owner.Output h \<Rightarrow> do {
                    release_held h (Err DurabilityUnproven);
                    for_each (b_followers gate) (\<lambda>f. release_held f (Err DurabilityUnproven));
                    reask_riders (b_cell gate) (b_epoch gate) (b_riders gate)
                  }
                | _ \<Rightarrow> skip))
        })
   }"

section \<open>The handlers keep the invariant\<close>

text \<open>The acknowledgements a barrier stands for.\<close>

definition barrier_acks :: "barrier \<Rightarrow> effect list" where
  "barrier_acks b =
     map (\<lambda>r. ExportProven (b_cell b) (b_epoch b) (rd_ticket r) (Ok ())) (b_riders b) @
     (case b_owner b of
        Export ticket \<Rightarrow> [ExportProven (b_cell b) (b_epoch b) ticket (Ok ())]
      | gate_owner.Output h \<Rightarrow> [effect.Release (hd_request h) (hd_channel h) (Ok ())]
      | gate_owner.Alarm _ _ _ \<Rightarrow> []) @
     map (\<lambda>h. effect.Release (hd_request h) (hd_channel h) (Ok ())) (b_followers b)"

definition acks_allowed :: "permission \<Rightarrow> op_id \<Rightarrow> core_state \<Rightarrow> bool" where
  "acks_allowed P op s =
     (\<forall>b. bm_get (st_barriers s) op = Some b \<longrightarrow> (\<forall>e\<in>set (barrier_acks b). emits P e))"

text \<open>
  When an output that wrote nothing leaves at once: this node is authoritative, the cell still runs at
  the sampled epoch, what the handler observed is proven, and no barrier of the cell is open.
\<close>

definition untrailed :: "core_state \<Rightarrow> request_id \<Rightarrow> bool" where
  "untrailed s request =
     (case bm_get (st_active_requests s) request of
        None \<Rightarrow> False
      | Some i \<Rightarrow> \<not> list_ex (\<lambda>b. b_cell b = i \<and> trailable b) (bm_values (st_barriers s)))"

definition output_clear ::
  "core_state \<Rightarrow> request_id \<Rightarrow> nat option \<Rightarrow> nat option \<Rightarrow> epoch option \<Rightarrow> bool" where
  "output_clear s request position observed epoch =
     (node_authoritative s \<and> position = None \<and> untrailed s request
      \<and> (epoch = None \<or> map_option snd (resident_cell s request) = epoch)
      \<and> (case observed of
           None \<Rightarrow> True
         | Some seen \<Rightarrow>
             (case resident_cell s request of
                None \<Rightarrow> False
              | Some (i, current) \<Rightarrow> proven_covers s i current seen)))"

lemma alarm_settled_phase:
  "tri anything (\<lambda>s. phase_at i s = p) (alarm_settled op now_ms now_mono_ms (Err f))
     (\<lambda>_ s. phase_at i s = p)"
proof -
  have 1: "tri anything (\<lambda>s. phase_at i s = p) (take_cell_op op q) (\<lambda>_ s. phase_at i s = p)" for q
    unfolding take_cell_op_def by (rule phase_struct | simp add: benign_def)+
  have 2: "tri anything (\<lambda>s. phase_at i s = p)
      (do {
         found \<leftarrow> take_cell j;
         (case found of
            None \<Rightarrow> skip
          | Some c \<Rightarrow>
              (case c_alarm c of
                 Some (Firing _ at_ms generation covered observed) \<Rightarrow> do {
                   put_cell j (c\<lparr>c_alarm := Some (Armed at_ms generation covered)\<rparr>);
                   emit (ScheduleTimer (CellAlarm j generation) (sat_add now_mono_ms 500))
                 }
               | _ \<Rightarrow> put_cell j c))
       }) (\<lambda>_ s. phase_at i s = p)" for j
    by (auto simp: tri_def take_cell_def put_cell_def get_cell_def phase_at_def core_le_def
        emits_only_def bm.lookup_insert bm.lookup_remove split: option.split alarm_state.split)
  show ?thesis
    unfolding alarm_settled_def result.case by (rule tri_same_bind [OF 1]) (auto split: option.split intro: phase_skip 2)
qed

context core_proof begin

lemma modify_barrier_ok [core_ok]: "tri P (core_inv h) (modify_barrier op f) (\<lambda>_. core_inv h)"
  unfolding modify_barrier_def by (rule core_struct) (simp add: benign_def)

lemma take_barrier_ok [core_ok]: "tri P (core_inv h) (take_barrier op) (\<lambda>_. core_inv h)"
  unfolding take_barrier_def by (rule core_struct | simp add: benign_def)+

lemma release_output_ok [core_ok]:
  "(result = Ok () \<Longrightarrow> emits P (effect.Release (hd_request out) (hd_channel out) (Ok ()))) \<Longrightarrow>
   tri P (core_inv h) (release_output out result) (\<lambda>_. core_inv h)"
  unfolding release_output_def by (rule inv_emit) (cases result; simp add: quiet acked_def)

lemma open_write_barrier_ok [core_ok]:
  "tri P (core_inv h) (open_write_barrier out position) (\<lambda>_. core_inv h)"
  unfolding open_write_barrier_def by (rule core_ok core_struct | simp)+

lemma trail_open_barrier_ok:
  assumes "untrailed s (hd_request out) \<Longrightarrow> emits P (effect.Release (hd_request out) (hd_channel out) (Ok ()))"
  shows "tri P (\<lambda>s'. core_inv h s' \<and> s' = s) (trail_open_barrier out) (\<lambda>_. core_inv h)"
  unfolding trail_open_barrier_def
proof (rule tri_bind_state, intro tri_option tri_prod)
  fix s' i
  assume "core_inv h s' \<and> s' = s" and active: "bm_get (st_active_requests s') (hd_request out) = Some i"
    and "List.find (\<lambda>(_, b). b_cell b = i \<and> trailable b) (rev (st_barriers s')) = None"
  then have "untrailed s (hd_request out)"
    by (auto simp: untrailed_def find_None_iff list_ex_iff bm_values_def)
  then show "tri P (\<lambda>s''. (core_inv h s'' \<and> s'' = s) \<and> s'' = s') (release_output out (Ok ()))
      (\<lambda>_. core_inv h)"
    using assms by - (rule tri_state_drop, rule tri_state_drop, rule release_output_ok, simp)
qed (rule tri_state_drop core_ok | simp)+

lemma hold_observed_ok [core_ok]:
  "tri P (core_inv h) (hold_observed out i epoch observed) (\<lambda>_. core_inv h)"
  unfolding hold_observed_def by (rule core_ok core_struct | simp)+

lemma note_proven_ok [core_ok]: "tri P (core_inv h) (note_proven i epoch position) (\<lambda>_. core_inv h)"
  unfolding note_proven_def by (rule core_struct) simp

lemma gate_output_ok:
  "tri P (\<lambda>s. core_inv h s \<and>
      (output_clear s request position observed epoch \<longrightarrow> emits P (effect.Release request channel (Ok ()))))
     (gate_output request channel position observed epoch) (\<lambda>_. core_inv h)"
    (is "tri P ?I _ _")
  unfolding gate_output_def Let_def
proof (rule tri_bind_state)
  fix s
  assume I: "?I s"
  have drop: "tri P (core_inv h) m Q \<Longrightarrow> tri P (\<lambda>s'. ?I s' \<and> s' = s) m Q" for m :: "unit core" and Q
    by (erule tri_pre) simp
  have trail: "tri P (\<lambda>s'. ?I s' \<and> s' = s) (trail_open_barrier \<lparr>hd_request = request, hd_channel = channel\<rparr>)
      (\<lambda>_. core_inv h)" if "untrailed s request \<Longrightarrow> output_clear s request position observed epoch"
    by (rule tri_pre [OF trail_open_barrier_ok [of s]]) (use that I in auto)
  show "tri P (\<lambda>s'. ?I s' \<and> s' = s)
     (if \<not> node_authoritative s
      then release_output \<lparr>hd_request = request, hd_channel = channel\<rparr> (Err request_error.NodeFenced)
      else if (case epoch of
                 None \<Rightarrow> False
               | Some sampled \<Rightarrow>
                   (case resident_cell s request of
                      None \<Rightarrow> True
                    | Some (_, current) \<Rightarrow> current \<noteq> sampled))
      then release_output \<lparr>hd_request = request, hd_channel = channel\<rparr> (Err DurabilityUnproven)
      else
        (case position of
           Some p \<Rightarrow> open_write_barrier \<lparr>hd_request = request, hd_channel = channel\<rparr> p
         | None \<Rightarrow>
             (case observed of
                None \<Rightarrow> trail_open_barrier \<lparr>hd_request = request, hd_channel = channel\<rparr>
              | Some seen \<Rightarrow>
                  (case resident_cell s request of
                     None \<Rightarrow>
                       release_output \<lparr>hd_request = request, hd_channel = channel\<rparr> (Err DurabilityUnproven)
                   | Some (i, current) \<Rightarrow>
                       if proven_covers s i current seen
                       then trail_open_barrier \<lparr>hd_request = request, hd_channel = channel\<rparr>
                       else hold_observed \<lparr>hd_request = request, hd_channel = channel\<rparr> i current seen))))
     (\<lambda>_. core_inv h)"
    by (rule tri_if tri_option tri_prod trail drop core_ok
      | simp; fail | auto simp: output_clear_def split: option.splits; fail)+
qed

lemma reask_riders_ok [core_ok]: "tri P (core_inv h) (reask_riders i epoch riders) (\<lambda>_. core_inv h)"
  unfolding reask_riders_def open_export_barrier_def by (rule core_ok core_struct)+

lemma export_ticket_ok [core_ok]:
  "tri P (core_inv h) (export_ticket i epoch position ticket) (\<lambda>_. core_inv h)"
  unfolding export_ticket_def open_export_barrier_def
  by (rule core_ok core_struct | simp add: acked_def)+

lemma hand_export_on_ok [core_ok]: "tri P (core_inv h) (hand_export_on op gate) (\<lambda>_. core_inv h)"
  unfolding hand_export_on_def by (rule core_ok core_struct | simp add: benign_def)+

lemma take_export_riders_ok [core_ok]: "tri P (core_inv h) (take_export_riders op gate) (\<lambda>_. core_inv h)"
  unfolding take_export_riders_def by (rule core_ok core_struct | simp add: benign_def)+

lemma release_held_ok [core_ok]:
  "(result = Ok () \<Longrightarrow> emits P (effect.Release (hd_request out) (hd_channel out) (Ok ()))) \<Longrightarrow>
   tri P (core_inv h) (release_held out result) (\<lambda>_. core_inv h)"
  unfolding release_held_def by (rule core_ok core_struct | simp add: benign_def)+

lemma fail_barrier_ok [core_ok]: "tri P (core_inv none_held) (fail_barrier gate) (\<lambda>_. core_inv none_held)"
  unfolding fail_barrier_def
  by (rule core_ok tri_owner core_struct | simp add: benign_def acked_def)+

lemma fail_barrier_phase:
  "tri anything (\<lambda>s. phase_at i s = p) (fail_barrier gate) (\<lambda>_ s. phase_at i s = p)"
  unfolding fail_barrier_def release_output_def alarm_finished_def
  by (rule phase_struct tri_owner alarm_settled_phase | simp add: benign_def)+

lemma cell_op_phase:
  "tri anything (\<lambda>s. phase_at i s = p) (cell_op j) (\<lambda>_ s. phase_at i s = p)"
  unfolding cell_op_def fresh_op_def by (rule phase_struct | simp add: benign_def)+

lemma deactivate_request_phase:
  "tri anything (\<lambda>s. phase_at i s = p) (deactivate_request request) (\<lambda>_ s. phase_at i s = p)"
  unfolding deactivate_request_def by (rule phase_struct | simp add: benign_def)+

lemma take_barrier_phase:
  "tri anything (\<lambda>s. phase_at i s = p) (take_barrier op) (\<lambda>_ s. phase_at i s = p)"
  unfolding take_barrier_def by (rule phase_struct | simp add: benign_def)+

lemma reset_cell_ok [core_ok]: "tri P (core_inv none_held) (reset_cell i epoch) (\<lambda>_. core_inv none_held)"
  unfolding reset_cell_def
proof (rule tri_bind_state, intro tri_if)
  fix s :: core_state
  let ?I = "\<lambda>s. core_inv none_held s \<and> phase_at i s = Some (Resident epoch)"
  assume "\<not> \<not> resident_at s i epoch"
  then have s: "phase_at i s = Some (Resident epoch)"
    by (auto simp: resident_at_def phase_at_def split: option.splits)
  show "tri P (\<lambda>s'. core_inv none_held s' \<and> s' = s)
     (do {
        for_each
          (map fst (filter (\<lambda>(_, b). b_cell b = i \<and> b_epoch b = epoch) (st_barriers s)))
          (\<lambda>op. do {
             gate \<leftarrow> take_barrier op;
             (case gate of None \<Rightarrow> skip | Some g \<Rightarrow> fail_barrier g)
           });
        active \<leftarrow> look st_active_requests;
        for_each (map fst (filter (\<lambda>(_, cell). cell = i) active)) (\<lambda>request. do {
          _ \<leftarrow> deactivate_request request;
          upd (\<lambda>s. s\<lparr>st_gate_pinned := st_gate_pinned s - {request}\<rparr>)
        });
        op \<leftarrow> cell_op i;
        found \<leftarrow> get_cell i;
        (case found of
           None \<Rightarrow> skip
         | Some c \<Rightarrow> do {
             (case phase_op (c_phase c) of None \<Rightarrow> skip | Some stale \<Rightarrow> remove_cell_op stale);
             upd (\<lambda>s. s\<lparr>st_quiescing_cells := st_quiescing_cells s - {i}\<rparr>);
             c \<leftarrow> set_phase c (Cleaning op epoch Reset);
             put_cell i c
           });
        emit (StopRuntime op i epoch Reset False)
      }) (\<lambda>_. core_inv none_held)"
    by (rule tri_pre [where I = ?I]; (use s in auto)?)
      (rule phase_bind_get phase_bind core_ok fail_barrier_phase cell_op_phase deactivate_request_phase
        take_barrier_phase phase_struct with_struct core_struct | simp add: benign_def acked_def occ_def)+
qed (rule tri_skip, simp)

lemma take_barrier_acks:
  "tri P (\<lambda>s. core_inv h s \<and> (proven \<longrightarrow> acks_allowed P op s)) (take_barrier op)
     (\<lambda>r s. (\<forall>b. r = Some b \<longrightarrow> proven \<longrightarrow> (\<forall>e\<in>set (barrier_acks b). emits P e)) \<and> core_inv h s)"
  unfolding take_barrier_def
proof (rule tri_bind [OF tri_look])
  fix r
  let ?A = "\<forall>b. r = Some b \<longrightarrow> proven \<longrightarrow> (\<forall>e\<in>set (barrier_acks b). emits P e)"
  have "tri P (\<lambda>s. ?A \<and> core_inv h s)
      (do {
         upd (\<lambda>s. s\<lparr>st_barriers := bm_remove op (st_barriers s)\<rparr>);
         ret r
       }) (\<lambda>r s. (\<forall>b. r = Some b \<longrightarrow> proven \<longrightarrow> (\<forall>e\<in>set (barrier_acks b). emits P e)) \<and> core_inv h s)"
    by (rule tri_pure, rule inv_bind [OF inv_upd tri_ret]) (simp_all add: benign_def)
  then show "tri P (\<lambda>s. (core_inv h s \<and> (proven \<longrightarrow> acks_allowed P op s)) \<and>
        r = bm_get (st_barriers s) op)
      (do {
         upd (\<lambda>s. s\<lparr>st_barriers := bm_remove op (st_barriers s)\<rparr>);
         ret r
       }) (\<lambda>r s. (\<forall>b. r = Some b \<longrightarrow> proven \<longrightarrow> (\<forall>e\<in>set (barrier_acks b). emits P e)) \<and> core_inv h s)"
    by (rule tri_pre) (auto simp: acks_allowed_def)
qed

lemma proven_emit:
  "(result = Ok () \<Longrightarrow> emits P (ExportProven i epoch ticket (Ok ()))) \<Longrightarrow>
   tri P (core_inv h) (emit (ExportProven i epoch ticket result)) (\<lambda>_. core_inv h)"
  by (rule inv_emit) (cases result; simp add: quiet acked_def)

lemma settle_gate_ok:
  "tri P (\<lambda>s. core_inv none_held s \<and> (proven \<longrightarrow> acks_allowed P op s)) (settle_gate op proven)
     (\<lambda>_. core_inv none_held)"
  unfolding settle_gate_def
  by (rule tri_bind [OF take_barrier_acks], rule tri_pure)
    (rule proven_emit core_ok tri_owner core_struct
      | force simp: barrier_acks_def acked_def split: if_splits)+

lemma settle_gate_unproven_ok [core_ok]:
  "\<not> proven \<Longrightarrow> tri P (core_inv none_held) (settle_gate op proven) (\<lambda>_. core_inv none_held)"
  by (rule tri_pre [OF settle_gate_ok]) simp

lemma fleet_proof_ok:
  assumes "\<forall>e\<in>set (barrier_acks (gate\<lparr>b_riders := []\<rparr>)). emits P e"
  shows "tri P (\<lambda>s. core_inv none_held s \<and> Some gate = bm_get (st_barriers s) op)
    (do {
       modify_barrier op (\<lambda>b. b\<lparr>b_riders := []\<rparr>);
       settle_gate op True;
       reask_riders (b_cell gate) (b_epoch gate) (b_riders gate)
     }) (\<lambda>_. core_inv none_held)"
  unfolding modify_barrier_def
proof (rule tri_bind)
  let ?f = "\<lambda>s. s\<lparr>st_barriers := bm_modify op (\<lambda>b. b\<lparr>b_riders := []\<rparr>) (st_barriers s)\<rparr>"
  let ?I = "\<lambda>s. core_inv none_held s \<and> acks_allowed P op s"
  have "?I (?f s)" if "core_inv none_held s" "Some gate = bm_get (st_barriers s) op" for s :: core_state
    using assms that benign_inv [of s "?f s" none_held]
    by (auto simp: acks_allowed_def bm_get_modify benign_def dest: sym)
  then show "tri P (\<lambda>s. core_inv none_held s \<and> Some gate = bm_get (st_barriers s) op) (upd ?f)
      (\<lambda>_. ?I)"
    by (auto intro: tri_upd simp: core_le_def emits_only_def)
  show "tri P ?I
      (do {
         settle_gate op True;
         reask_riders (b_cell gate) (b_epoch gate) (b_riders gate)
       }) (\<lambda>_. core_inv none_held)"
    by (rule tri_bind [OF tri_pre [OF settle_gate_ok] reask_riders_ok]) simp
qed

lemma bucket_proof_ok:
  assumes "emits P (VerifyOwnership op (b_cell gate) (b_epoch gate))"
  shows "tri P (core_inv none_held)
    (do {
       handed \<leftarrow> hand_export_on op gate;
       (if handed then skip
        else do {
          take_export_riders op gate;
          modify_barrier op (\<lambda>b. b\<lparr>b_verifying := True\<rparr>);
          emit (VerifyOwnership op (b_cell gate) (b_epoch gate))
        })
     }) (\<lambda>_. core_inv none_held)"
  by (rule inv_emit [of P, OF assms] core_ok core_struct)+

lemma durable_reached_ok:
  "tri P (\<lambda>s. core_inv none_held s \<and>
      (\<forall>gate durable. bm_get (st_barriers s) op = Some gate \<longrightarrow> result = Ok durable \<longrightarrow>
         b_position gate \<le> durable \<longrightarrow>
         (if source = Bucket then emits P (VerifyOwnership op (b_cell gate) (b_epoch gate))
          else \<forall>e\<in>set (barrier_acks (gate\<lparr>b_riders := []\<rparr>)). emits P e)))
     (durable_reached op result source) (\<lambda>_. core_inv none_held)"
    (is "tri P ?I _ _")
  unfolding durable_reached_def
proof (rule tri_bind [OF tri_look], rule tri_option)
  fix found and gate :: barrier
  assume found: "found = Some gate"
  let ?proven = "case result of Ok durable \<Rightarrow> b_position gate \<le> durable | Err _ \<Rightarrow> False"
  let ?J = "\<lambda>s. ?I s \<and> found = bm_get (st_barriers s) op"
  let ?allowed = "if source = Bucket then emits P (VerifyOwnership op (b_cell gate) (b_epoch gate))
    else \<forall>e\<in>set (barrier_acks (gate\<lparr>b_riders := []\<rparr>)). emits P e"
  have drop: "tri P (core_inv none_held) m Q \<Longrightarrow> tri P ?J m Q" for m :: "unit core" and Q
    by (erule tri_pre) simp
  have proven: "tri P ?J m Q" if "?proven" and "?allowed \<Longrightarrow> tri P ?J m Q" for m :: "unit core" and Q
  proof (cases ?allowed)
    case False
    obtain durable where "result = Ok durable" "b_position gate \<le> durable"
      using \<open>?proven\<close> by (cases result) auto
    then have "\<not> ?J s" for s using False found by metis
    then show ?thesis by (rule tri_absurd)
  qed (rule that(2))
  show "tri P ?J
      (let proven = ?proven in
       if proven \<and> source = Bucket then do {
         handed \<leftarrow> hand_export_on op gate;
         (if handed then skip
          else do {
            take_export_riders op gate;
            modify_barrier op (\<lambda>b. b\<lparr>b_verifying := True\<rparr>);
            emit (VerifyOwnership op (b_cell gate) (b_epoch gate))
          })
       }
       else if proven then do {
         modify_barrier op (\<lambda>b. b\<lparr>b_riders := []\<rparr>);
         settle_gate op True;
         reask_riders (b_cell gate) (b_epoch gate) (b_riders gate)
       }
       else settle_gate op proven) (\<lambda>_. core_inv none_held)"
    unfolding Let_def
    by (rule tri_if, rule proven, blast, rule drop, rule bucket_proof_ok, simp,
        rule tri_if, rule proven, assumption, rule tri_pre, rule fleet_proof_ok, simp, simp add: found,
        rule drop, rule settle_gate_unproven_ok)
qed (rule tri_skip, simp)

lemma ownership_verified_ok:
  "tri P (\<lambda>s. core_inv none_held s \<and> (is_ok result \<longrightarrow> acks_allowed P op s)) (ownership_verified op result)
     (\<lambda>_. core_inv none_held)"
  unfolding ownership_verified_def
  by (rule tri_same_bind [OF tri_same_look], rule tri_if) (rule tri_skip settle_gate_ok | simp)+

lemma cancel_cell_outputs_ok [core_ok]: "tri P (core_inv h) (cancel_cell_outputs i) (\<lambda>_. core_inv h)"
  unfolding cancel_cell_outputs_def
  by (rule core_ok tri_owner core_struct | simp add: benign_def acked_def)+

end

end
