(* ===== verification/Runtime.thy ===== *)
theory Runtime
  imports Ownership OutputGate
begin

text \<open>
  The runtime of a cell (\<open>lib.rs\<close>): restore, start, publication, stop and the failed stop; the generation
  swap; and the drain pump of a shutdown handoff.
\<close>

section \<open>Definitions\<close>

subsection \<open>From restore to publication\<close>

definition as_restoring :: "phase \<Rightarrow> (op_id \<times> restore_spec) option" where
  "as_restoring p = (case p of Restoring op spec \<Rightarrow> Some (op, spec) | _ \<Rightarrow> None)"

definition seed_alarm :: "cell_id \<Rightarrow> cell \<Rightarrow> restored_alarm option \<Rightarrow> cell core" where
  "seed_alarm i c restored =
     (case restored of
        None \<Rightarrow> ret c
      | Some alarm \<Rightarrow>
          if ra_at_ms alarm < 0 then ret c
          else do {
            generation \<leftarrow> fresh_timer_generation;
            s \<leftarrow> look id;
            schedule_alarm_timer i generation (ra_at_ms alarm) (st_now_ms s) (st_now_mono_ms s);
            ret (c\<lparr>c_alarm := Some (Armed (ra_at_ms alarm) generation (ra_covered alarm))\<rparr>)
          })"

definition start_runtime :: "cell_id \<Rightarrow> cell \<Rightarrow> epoch \<Rightarrow> cell core" where
  "start_runtime i c epoch = do {
     op \<leftarrow> cell_op i;
     c \<leftarrow> set_phase c (Starting op epoch);
     emit (StartRuntime op i epoch);
     ret c
   }"

text \<open>A restore or a start that failed leaves the cell dormant and fails its callers.\<close>

definition fail_activation :: "cell_id \<Rightarrow> cell \<Rightarrow> epoch \<Rightarrow> request_error \<Rightarrow> cell core" where
  "fail_activation i c epoch e = do {
     c \<leftarrow> set_phase c (Dormant epoch);
     finish_requests i c (Err e)
   }"

definition restore_completed :: "op_id \<Rightarrow> (restore_outcome, failure) result \<Rightarrow> unit core" where
  "restore_completed op result = do {
     found \<leftarrow> claim_op_cell op (\<lambda>c. map_option fst (as_restoring (c_phase c)) = Some op);
     (case found of
        None \<Rightarrow> skip
      | Some (i, c) \<Rightarrow>
          (case as_restoring (c_phase c) of
             None \<Rightarrow> put_cell i c
           | Some (_, spec) \<Rightarrow>
               (case result of
                  Ok outcome \<Rightarrow> do {
                    onlyif (ro_restored outcome)
                      (modify_activity (\<lambda>a. a\<lparr>ac_restored := sat_add (ac_restored a) 1\<rparr>));
                    c \<leftarrow> seed_alarm i c (ro_alarm outcome);
                    c \<leftarrow> start_runtime i c (rs_epoch spec);
                    put_cell i c;
                    pump_capacity
                  }
                | Err _ \<Rightarrow> do {
                    c \<leftarrow> fail_activation i c (rs_epoch spec) RestoreFailed;
                    put_cell i c;
                    onlyif (c_resume_demand c) (settle_local_resume i);
                    pump_capacity
                  })))
   }"

definition as_started :: "phase \<Rightarrow> (op_id \<times> epoch) option" where
  "as_started p = (case p of Starting op epoch \<Rightarrow> Some (op, epoch) | _ \<Rightarrow> None)"

definition runtime_started ::
  "op_id \<Rightarrow> nat option \<Rightarrow> nat \<Rightarrow> (unit, failure) result \<Rightarrow> unit core" where
  "runtime_started op isolate generation result = do {
     found \<leftarrow> claim_op_cell op (\<lambda>c. map_option fst (as_started (c_phase c)) = Some op);
     (case found of
        None \<Rightarrow> compensate_retired_runtime op result
      | Some (i, c) \<Rightarrow> do {
          upd (\<lambda>s. s\<lparr>st_timed_out_runtime_starts := st_timed_out_runtime_starts s - {op}\<rparr>);
          (case as_started (c_phase c) of
             None \<Rightarrow> put_cell i c
           | Some (_, epoch) \<Rightarrow>
               (case result of
                  Ok _ \<Rightarrow> do {
                    next \<leftarrow> cell_op i;
                    c \<leftarrow> set_phase (c\<lparr>c_isolate := isolate, c_generation := generation\<rparr>)
                           (Publishing next epoch);
                    emit (Publish next i epoch);
                    put_cell i c;
                    pump_capacity
                  }
                | Err _ \<Rightarrow> do {
                    c \<leftarrow> fail_activation i c epoch RuntimeFailed;
                    put_cell i c;
                    onlyif (c_resume_demand c) (settle_local_resume i);
                    pump_capacity
                  }))
        })
   }"

definition runtime_start_timed_out :: "op_id \<Rightarrow> unit core" where
  "runtime_start_timed_out op = do {
     target \<leftarrow> look (\<lambda>s. bm_get (st_cell_ops s) op);
     (case target of
        None \<Rightarrow> skip
      | Some i \<Rightarrow> do {
          found \<leftarrow> take_cell i;
          (case found of
             None \<Rightarrow> skip
           | Some c \<Rightarrow>
               if starting_op (c_phase c) \<noteq> Some op then put_cell i c
               else do {
                 upd (\<lambda>s. s\<lparr>st_timed_out_runtime_starts :=
                   insert op (st_timed_out_runtime_starts s)\<rparr>);
                 c \<leftarrow> finish_requests i c (Err RuntimeFailed);
                 put_cell i c
               })
        })
   }"

definition as_publishing :: "phase \<Rightarrow> (op_id \<times> epoch) option" where
  "as_publishing p = (case p of Publishing op epoch \<Rightarrow> Some (op, epoch) | _ \<Rightarrow> None)"

definition published :: "op_id \<Rightarrow> (unit, failure) result \<Rightarrow> unit core" where
  "published op result = do {
     found \<leftarrow> claim_op_cell op (\<lambda>c. map_option fst (as_publishing (c_phase c)) = Some op);
     (case found of
        None \<Rightarrow> compensate_retired_runtime op result
      | Some (i, c) \<Rightarrow>
          (case as_publishing (c_phase c) of
             None \<Rightarrow> put_cell i c
           | Some (_, epoch) \<Rightarrow> do {
               let completing_resume = c_resume_demand c;
               c \<leftarrow> (case result of
                       Ok _ \<Rightarrow> do {
                         c \<leftarrow> set_phase c (Resident epoch);
                         finish_requests i (c\<lparr>c_swapping := False, c_swap_cancelled := False\<rparr>)
                           (Ok Local)
                       }
                     | Err _ \<Rightarrow> do {
                         next \<leftarrow> cell_op i;
                         c \<leftarrow> set_phase c (Cleaning next epoch Cleanup);
                         emit (StopRuntime next i epoch Cleanup False);
                         ret c
                       });
               put_cell i c;
               onlyif completing_resume (settle_local_resume i)
             }))
   }"

subsection \<open>Stopping\<close>

text \<open>The cell after its runtime stopped, by the cause of the stop.\<close>

definition stopped_by_reset :: "cell_id \<Rightarrow> cell \<Rightarrow> cell core" where
  "stopped_by_reset i c = do {
     c \<leftarrow> set_phase c Inactive;
     (case firing_op (c_alarm c) of None \<Rightarrow> skip | Some op \<Rightarrow> remove_cell_op op);
     finish_requests i (c\<lparr>c_alarm := None, c_alarm_wake := False, c_websockets := []\<rparr>)
       (Err DurabilityUnproven)
   }"

definition stopped_by_eviction :: "cell_id \<Rightarrow> cell \<Rightarrow> epoch \<Rightarrow> bool \<Rightarrow> cell core" where
  "stopped_by_eviction i c epoch released = do {
     draining \<leftarrow> look st_draining;
     (if c_requests c = {} \<or> (draining \<and> released) then do {
        c \<leftarrow> set_phase c (Dormant epoch);
        upd (\<lambda>s. s\<lparr>st_eviction_permits := st_eviction_permits s - {i}\<rparr>);
        (if released then do {
           op \<leftarrow> cell_op i;
           upd (\<lambda>s. s\<lparr>st_releasing_cells := insert i (st_releasing_cells s)\<rparr>);
           emit (ReleaseOwner op i epoch);
           ret (c\<lparr>c_releasing := Some op\<rparr>)
         }
         else ret c)
      }
      else do {
        upd (\<lambda>s. s\<lparr>st_eviction_permits := st_eviction_permits s - {i}\<rparr>);
        admit_or_queue_activation i c cold_start.ReadOwner
      })
   }"

definition stopped_by_swap :: "cell_id \<Rightarrow> cell \<Rightarrow> epoch \<Rightarrow> cell core" where
  "stopped_by_swap i c epoch = do {
     draining \<leftarrow> look st_draining;
     (if draining then fail_activation i c epoch PublishFailed else start_runtime i c epoch)
   }"

text \<open>
  No fenced cell waits for its runtime: a cell under \<open>Fence\<close> is not in phase \<open>Cleaning\<close>, so the last
  arm, which the source marks unreachable, leaves the cell as it is.
\<close>

definition settle_stop :: "cell_id \<Rightarrow> cell \<Rightarrow> epoch \<Rightarrow> stop_cause \<Rightarrow> cell core" where
  "settle_stop i c epoch cause =
     (case cause of
        Cleanup \<Rightarrow> fail_activation i c epoch PublishFailed
      | Reset \<Rightarrow> stopped_by_reset i c
      | stop_cause.Evict released \<Rightarrow> stopped_by_eviction i c epoch released
      | Swap \<Rightarrow> stopped_by_swap i c epoch
      | Fence \<Rightarrow> ret c)"

definition is_evict_cause :: "stop_cause \<Rightarrow> bool" where
  "is_evict_cause cause = (case cause of stop_cause.Evict _ \<Rightarrow> True | _ \<Rightarrow> False)"

definition runtime_stopped :: "op_id \<Rightarrow> unit core" where
  "runtime_stopped op = do {
     found \<leftarrow> claim_op_cell op (\<lambda>c. map_option fst (as_cleaning (c_phase c)) = Some op);
     (case found of
        None \<Rightarrow> skip
      | Some (i, c) \<Rightarrow>
          (case as_cleaning (c_phase c) of
             None \<Rightarrow> put_cell i c
           | Some (_, epoch, cause) \<Rightarrow> do {
               onlyif (is_evict_cause cause) (finish_eviction op (Ok Evicted));
               c \<leftarrow> settle_stop i (c\<lparr>c_isolate := None\<rparr>) epoch cause;
               put_cell i c;
               pump_capacity;
               shed_toward_floor;
               now \<leftarrow> look st_now_mono_ms;
               evict_idle now
             }))
   }"

text \<open>
  A bounded stop gave up. Only an eviction stop is bounded; the source asserts it, and for any other
  cause the model puts the cell back unchanged.
\<close>

definition runtime_stop_failed :: "op_id \<Rightarrow> evict_error \<Rightarrow> unit core" where
  "runtime_stop_failed op e = do {
     found \<leftarrow> claim_op_cell op (\<lambda>c. map_option fst (as_cleaning (c_phase c)) = Some op);
     (case found of
        None \<Rightarrow> skip
      | Some (i, c) \<Rightarrow>
          (case as_cleaning (c_phase c) of
             None \<Rightarrow> put_cell i c
           | Some (_, epoch, cause) \<Rightarrow>
               if \<not> is_evict_cause cause then put_cell i c
               else do {
                 finish_eviction op (Err e);
                 now \<leftarrow> look st_now_mono_ms;
                 upd (\<lambda>s. s\<lparr>st_eviction_permits := st_eviction_permits s - {i}\<rparr>);
                 c \<leftarrow> start_runtime i
                   (c\<lparr>c_isolate := None, c_evict_rebalance := False, c_handoff := False,
                      c_eviction_refused_mono_ms := Some now, c_swapping := True\<rparr>) epoch;
                 put_cell i c
               }))
   }"

subsection \<open>The generation swap\<close>

definition generation_changed :: "nat \<Rightarrow> nat \<Rightarrow> string list \<Rightarrow> unit core" where
  "generation_changed generation max_age_ms eager_classes =
     upd (\<lambda>s.
       if generation \<le> st_current_generation s then s
       else s\<lparr>st_current_generation := generation,
              st_generation_changed_mono_ms := st_now_mono_ms s,
              st_swap_max_age_ms := max_age_ms, st_swap_eager_classes := set eager_classes\<rparr>)"

definition swap_is_eager :: "core_state \<Rightarrow> cell_id \<Rightarrow> bool" where
  "swap_is_eager s i =
     ((case split_once CHR '':'' i of None \<Rightarrow> i | Some (klass, _) \<Rightarrow> klass) \<in> st_swap_eager_classes s)"

definition swap_safe_point :: "core_state \<Rightarrow> cell_id \<Rightarrow> bool" where
  "swap_safe_point s i =
     (case bm_get (st_cells s) i of
        None \<Rightarrow> False
      | Some c \<Rightarrow>
          \<not> bm_has (st_active_cells s) i
          \<and> \<not> list_ex pins_cell (bm_values (c_websockets c))
          \<and> \<not> is_firing (c_alarm c)
          \<and> \<not> list_ex (\<lambda>b. b_cell b = i \<and> trailable b) (bm_values (st_barriers s)))"

definition swap_stale :: "core_state \<Rightarrow> cell \<Rightarrow> bool" where
  "swap_stale s c =
     (is_resident (c_phase c) \<and> \<not> c_swapping c \<and> \<not> c_quiescing c \<and> c_releasing c = None
      \<and> c_generation c \<noteq> st_current_generation s)"

definition nominate_swap :: "cell_id \<Rightarrow> unit core" where
  "nominate_swap i = do {
     modify_cell i (\<lambda>c. c\<lparr>c_swapping := True, c_quiescing := True\<rparr>);
     upd (\<lambda>s. s\<lparr>st_quiescing_cells := insert i (st_quiescing_cells s)\<rparr>)
   }"

definition active_on :: "core_state \<Rightarrow> cell_id \<Rightarrow> request_id list" where
  "active_on s i = map fst (filter (\<lambda>(_, cell). cell = i) (st_active_requests s))"

definition swap_cell :: "bool \<Rightarrow> cell_id \<Rightarrow> unit core" where
  "swap_cell forced_by_age i = do {
     s \<leftarrow> look id;
     (case bm_get (st_cells s) i of
        None \<Rightarrow> skip
      | Some c \<Rightarrow>
          if \<not> swap_safe_point s i then
            (if \<not> (forced_by_age \<or> swap_is_eager s i) \<or> c_swap_cancelled c then skip
             else do {
               modify_cell i (\<lambda>c. c\<lparr>c_swap_cancelled := True\<rparr>);
               emit (CancelCellActivity i (active_on s i)
                 (map fst (filter (\<lambda>(_, kind). kind \<noteq> Hibernatable) (c_websockets c)))
                 (firing_op (c_alarm c)) True)
             })
          else
            (case as_resident (c_phase c) of
               None \<Rightarrow> skip
             | Some epoch \<Rightarrow> do {
                 op \<leftarrow> cell_op i;
                 set_phase_of i (Cleaning op epoch Swap);
                 upd (\<lambda>s. s\<lparr>st_quiescing_cells := st_quiescing_cells s - {i}\<rparr>);
                 emit (StopRuntime op i epoch Swap False)
               }))
   }"

definition pump_swap :: "unit core" where
  "pump_swap = do {
     s \<leftarrow> look id;
     (if st_current_generation s = 0 \<or> st_draining s \<or> st_fenced s \<or> \<not> node_authoritative s
      then skip
      else do {
        let forced_by_age =
          (st_swap_max_age_ms s \<le> st_now_mono_ms s - st_generation_changed_mono_ms s);
        let in_flight = length (filter c_swapping (bm_values (st_cells s)));
        let room = cf_max_releases (st_config s) - in_flight;
        for_each (take room (map fst (filter (\<lambda>(_, c). swap_stale s c) (st_cells s))))
          nominate_swap;
        nominated \<leftarrow> look (\<lambda>s. map fst (filter (\<lambda>(_, c).
          c_swapping c \<and> c_quiescing c \<and> is_resident (c_phase c)) (st_cells s)));
        for_each nominated (swap_cell forced_by_age)
      })
   }"

section \<open>The handlers keep the invariant\<close>

lemma runtime_views [simp]:
  "as_restoring p = Some (op, spec) \<longleftrightarrow> p = Restoring op spec"
  "as_started p = Some (op, epoch) \<longleftrightarrow> p = Starting op epoch"
  "as_publishing p = Some (op, epoch) \<longleftrightarrow> p = Publishing op epoch"
  by (auto simp: as_restoring_def as_started_def as_publishing_def split: phase.splits)

lemma tri_stop_cause:
  "(x = Cleanup \<Longrightarrow> tri P I m1 Q) \<Longrightarrow> (x = Fence \<Longrightarrow> tri P I m2 Q) \<Longrightarrow>
   (\<And>released. x = stop_cause.Evict released \<Longrightarrow> tri P I (m3 released) Q) \<Longrightarrow>
   (x = Reset \<Longrightarrow> tri P I m4 Q) \<Longrightarrow> (x = Swap \<Longrightarrow> tri P I m5 Q) \<Longrightarrow>
   tri P I
     (case x of
        Cleanup \<Rightarrow> m1
      | Fence \<Rightarrow> m2
      | stop_cause.Evict released \<Rightarrow> m3 released
      | Reset \<Rightarrow> m4
      | Swap \<Rightarrow> m5) Q"
  by (simp split: stop_cause.split)

context core_proof begin

lemma bind_seed_alarm:
  assumes "n = occ c" and "\<And>c'. c_phase c' = c_phase c \<Longrightarrow> tri P (core_inv (A, occ c')) (f c') Q"
  shows "tri P (core_inv (A, n)) (State_Monad.bind (seed_alarm i c restored) f) Q"
proof -
  have "tri P (core_inv (A, n)) (seed_alarm i c restored)
      (\<lambda>c' s. c_phase c' = c_phase c \<and> core_inv (A, occ c') s)"
    unfolding seed_alarm_def schedule_alarm_timer_def
    by (rule inv_bind core_ok tri_option tri_if tri_ret inv_look | simp add: assms(1) acked_def)+
  then show ?thesis
    by (rule tri_bind) (rule tri_pure, rule assms(2))
qed

lemma start_runtime_ok [core_ok]:
  "n = occ c \<Longrightarrow> phase_occupies_capacity (c_phase c) \<Longrightarrow>
   tri P (core_inv (A, n)) (start_runtime i c epoch) (\<lambda>c. core_inv (A, occ c))"
  unfolding start_runtime_def
  by (rule core_ok core_struct | simp add: benign_def acked_def)+

lemma fail_activation_ok [core_ok]:
  "n = occ c \<Longrightarrow> tri P (core_inv (A, n)) (fail_activation i c epoch e) (\<lambda>c. core_inv (A, occ c))"
  unfolding fail_activation_def
  by (rule core_ok core_struct | simp add: benign_def acked_def)+

lemma restore_completed_ok [core_ok]:
  "tri P (core_inv none_held) (restore_completed op result) (\<lambda>_. core_inv none_held)"
  unfolding restore_completed_def
  by (rule core_ok inv_bind_claim_case bind_seed_alarm core_struct | simp add: benign_def acked_def)+

lemma runtime_started_ok [core_ok]:
  "tri P (core_inv none_held) (runtime_started op isolate generation result) (\<lambda>_. core_inv none_held)"
  unfolding runtime_started_def
  by (rule core_ok inv_bind_claim_case core_struct | simp add: benign_def acked_def)+

lemma runtime_start_timed_out_ok [core_ok]:
  "tri P (core_inv none_held) (runtime_start_timed_out op) (\<lambda>_. core_inv none_held)"
  unfolding runtime_start_timed_out_def
  by (rule core_ok inv_bind_claim_case core_struct | simp add: benign_def acked_def)+

lemma published_ok [core_ok]:
  "tri P (core_inv none_held) (published op result) (\<lambda>_. core_inv none_held)"
  unfolding published_def
  by (rule core_ok inv_bind_claim_case core_struct | simp add: benign_def acked_def)+

lemma stopped_by_reset_ok [core_ok]:
  "n = occ c \<Longrightarrow> tri P (core_inv (A, n)) (stopped_by_reset i c) (\<lambda>c. core_inv (A, occ c))"
  unfolding stopped_by_reset_def
  by (rule core_ok core_struct | simp add: benign_def acked_def)+

lemma stopped_by_eviction_ok [core_ok]:
  "n = occ c \<Longrightarrow> tri P (core_inv (A, n)) (stopped_by_eviction i c epoch released) (\<lambda>c. core_inv (A, occ c))"
  unfolding stopped_by_eviction_def
  by (rule core_ok core_struct | simp add: benign_def acked_def)+

lemma stopped_by_swap_ok [core_ok]:
  "n = occ c \<Longrightarrow> phase_occupies_capacity (c_phase c) \<Longrightarrow>
   tri P (core_inv (A, n)) (stopped_by_swap i c epoch) (\<lambda>c. core_inv (A, occ c))"
  unfolding stopped_by_swap_def
  by (rule core_ok core_struct | simp add: benign_def acked_def)+

lemma settle_stop_ok [core_ok]:
  "n = occ c \<Longrightarrow> phase_occupies_capacity (c_phase c) \<Longrightarrow>
   tri P (core_inv (A, n)) (settle_stop i c epoch cause) (\<lambda>c. core_inv (A, occ c))"
  unfolding settle_stop_def
  by (rule core_ok tri_stop_cause core_struct | simp add: benign_def acked_def)+

lemma runtime_stopped_ok [core_ok]:
  "tri P (core_inv none_held) (runtime_stopped op) (\<lambda>_. core_inv none_held)"
  unfolding runtime_stopped_def
  by (rule core_ok inv_bind_claim_case core_struct | simp add: benign_def acked_def)+

lemma runtime_stop_failed_ok [core_ok]:
  "tri P (core_inv none_held) (runtime_stop_failed op e) (\<lambda>_. core_inv none_held)"
  unfolding runtime_stop_failed_def
  by (rule core_ok inv_bind_claim_case core_struct | simp add: benign_def acked_def)+

lemma generation_changed_ok [core_ok]:
  "tri P (core_inv none_held) (generation_changed generation max_age_ms eager_classes) (\<lambda>_. core_inv none_held)"
  unfolding generation_changed_def
  by (rule core_ok inv_bind_claim_case core_struct | simp add: benign_def acked_def)+

lemma nominate_swap_ok [core_ok]:
  "tri P (core_inv none_held) (nominate_swap i) (\<lambda>_. core_inv none_held)"
  unfolding nominate_swap_def
  by (rule core_ok inv_bind_claim_case core_struct | simp add: benign_def acked_def)+

lemma set_phase_of_resident:
  "tri P (\<lambda>s. core_inv h s \<and> phase_at i s = Some (Resident epoch)) (set_phase_of i p) (\<lambda>_. core_inv h)"
  by (rule tri_pre [OF inv_set_phase_of_occupied]) (auto simp: phase_at_def)

lemma swap_cell_ok [core_ok]: "tri P (core_inv none_held) (swap_cell forced i) (\<lambda>_. core_inv none_held)"
  unfolding swap_cell_def
proof (rule tri_bind_state, intro tri_option tri_if)
  fix s :: core_state and c epoch
  assume "bm_get (st_cells s) i = Some c" and "as_resident (c_phase c) = Some epoch"
  then have "phase_at i s = Some (Resident epoch)" by (simp add: phase_at_def)
  then show "tri P (\<lambda>s'. core_inv none_held s' \<and> s' = s)
      (do {
         op \<leftarrow> cell_op i;
         set_phase_of i (Cleaning op epoch Swap);
         upd (\<lambda>s. s\<lparr>st_quiescing_cells := st_quiescing_cells s - {i}\<rparr>);
         emit (StopRuntime op i epoch Swap False)
       }) (\<lambda>_. core_inv none_held)"
    by - (rule tri_pre, rule phase_bind [OF cell_op_ok cell_op_phase], rule tri_bind [OF set_phase_of_resident],
        (rule core_ok core_struct | simp add: benign_def acked_def)+)
qed (rule tri_state_drop core_ok core_struct | simp add: acked_def)+

lemma pump_swap_ok [core_ok]:
  "tri P (core_inv none_held) pump_swap (\<lambda>_. core_inv none_held)"
  unfolding pump_swap_def
  by (rule core_ok inv_bind_claim_case core_struct | simp add: benign_def acked_def)+

end

end
