(* ===== verification/Handoff.thy ===== *)
theory Handoff
  imports Runtime
begin

text \<open>
  The shutdown handoff (\<open>lib.rs\<close>): \<open>release_all\<close> marks the node draining, and \<open>pump_release\<close> keeps at most
  \<open>max_releases\<close> handoffs in flight. Its three loops return once the batch is full, so each handles
  the first \<open>max_releases - in_flight\<close> entries of its list.
\<close>

section \<open>Definitions\<close>

definition dormant_owned :: "core_state \<Rightarrow> (cell_id \<Rightarrow> bool) \<Rightarrow> (cell_id \<times> epoch) list" where
  "dormant_owned s p =
     List.map_filter (\<lambda>(i, c).
       if c_releasing c = None \<and> p i
       then map_option (\<lambda>epoch. (i, epoch)) (as_dormant (c_phase c)) else None) (st_cells s)"

definition release_queue :: "cell_id \<times> epoch \<Rightarrow> unit core" where
  "release_queue = (\<lambda>(i, epoch). do {
     op \<leftarrow> cell_op i;
     modify_cell i (\<lambda>c. c\<lparr>c_releasing := Some op\<rparr>);
     upd (\<lambda>s. s\<lparr>st_releasing_cells := insert i (st_releasing_cells s)\<rparr>);
     emit (ReleaseOwner op i epoch)
   })"

text \<open>Queue brokers first, then the most used, the newest request, the newest use, the least id.\<close>

definition drain_key :: "cell_id \<times> cell \<Rightarrow> bool \<times> int \<times> int \<times> int \<times> cell_id" where
  "drain_key = (\<lambda>(i, c).
     (\<not> is_queue_broker i, - int (c_local_request_count c), - int (c_last_used_request c),
      - int (c_last_used_mono_ms c), i))"

definition drain_order :: "core_state \<Rightarrow> cell_id list" where
  "drain_order s =
     map fst (sort_key drain_key
       (filter (\<lambda>(_, c). \<not> c_quiescing c \<and> is_resident (c_phase c)) (st_cells s)))"

definition quiesce_resident :: "cell_id \<Rightarrow> unit core" where
  "quiesce_resident i = do {
     s \<leftarrow> look id;
     (case bm_get (st_cells s) i of
        None \<Rightarrow> skip
      | Some c \<Rightarrow> do {
          modify_cell i (\<lambda>c. c\<lparr>c_quiescing := True\<rparr>);
          upd (\<lambda>s. s\<lparr>st_quiescing_cells := insert i (st_quiescing_cells s)\<rparr>);
          cancel_cell_outputs i;
          emit (CancelCellActivity i (active_on s i) (bm_keys (c_websockets c))
            (firing_op (c_alarm c)) False);
          _ \<leftarrow> begin_eviction i True;
          skip
        })
   }"

definition pump_release :: "unit core" where
  "pump_release = do {
     s \<leftarrow> look id;
     (if \<not> st_draining s then skip
      else do {
        let in_flight = handoffs_in_flight s;
        let ceiling = cf_max_releases (st_config s);
        for_each (sorted_list_of_set (st_quiescing_cells s)) (\<lambda>i. do {
          _ \<leftarrow> begin_eviction i True;
          skip
        });
        (if ceiling \<le> in_flight then skip
         else do {
           queues \<leftarrow> look (\<lambda>s. take (ceiling - in_flight) (dormant_owned s is_queue_broker));
           for_each queues release_queue;
           let in_flight = in_flight + length queues;
           leaving \<leftarrow> look (\<lambda>s. take (ceiling - in_flight) (drain_order s));
           for_each leaving quiesce_resident;
           let in_flight = in_flight + length leaving;
           dormant \<leftarrow> look (\<lambda>s. take (ceiling - in_flight) (dormant_owned s (\<lambda>_. True)));
           for_each dormant (\<lambda>(i, epoch). release_dormant i epoch)
         })
      })
   }"

definition release_all :: "unit core" where
  "release_all = do {
     upd (\<lambda>s. s\<lparr>st_draining := True\<rparr>);
     pump_release
   }"

section \<open>The handlers keep the invariant\<close>

context core_proof begin

lemma release_queue_ok [core_ok]: "tri P (core_inv h) (release_queue x) (\<lambda>_. core_inv h)"
  unfolding release_queue_def by (rule core_ok core_struct | simp add: benign_def acked_def)+

lemma quiesce_resident_ok [core_ok]: "tri P (core_inv h) (quiesce_resident i) (\<lambda>_. core_inv h)"
  unfolding quiesce_resident_def by (rule core_ok core_struct | simp add: benign_def acked_def)+

lemma pump_release_ok [core_ok]: "tri P (core_inv h) pump_release (\<lambda>_. core_inv h)"
  unfolding pump_release_def by (rule core_ok core_struct | simp add: benign_def acked_def)+

lemma release_all_ok [core_ok]: "tri P (core_inv h) release_all (\<lambda>_. core_inv h)"
  unfolding release_all_def by (rule core_ok core_struct | simp add: benign_def)+

end

end
