(* ===== verification/Events.thy ===== *)
theory Events
  imports Handoff
begin

text \<open>
  The entry point of the core (\<open>lib.rs\<close>): deadlines of the operations an event starts, their expiry, the
  timers, the clocks an event carries, and \<open>on_event\<close>, which dispatches, runs the three pumps and arms the
  deadlines. \<open>validate\<close> is the consistency gate that a debug build runs after every event.
\<close>

section \<open>Definitions\<close>

subsection \<open>Deadlines\<close>

definition watched_op :: "effect \<Rightarrow> op_id option" where
  "watched_op e =
     (case e of
        effect.ReadOwner op _ \<Rightarrow> Some op
      | ReadNodeLease op _ _ \<Rightarrow> Some op
      | RecoverNodeLog op _ _ \<Rightarrow> Some op
      | ReadCapacityPeers op _ \<Rightarrow> Some op
      | CasOwner op _ _ _ _ \<Rightarrow> Some op
      | StartRuntime op _ _ \<Rightarrow> Some op
      | Publish op _ _ \<Rightarrow> Some op
      | EnsureDurable op _ _ _ \<Rightarrow> Some op
      | ReleaseOwner op _ _ \<Rightarrow> Some op
      | AdoptReleased op _ _ _ \<Rightarrow> Some op
      | AwaitDurable op _ _ _ \<Rightarrow> Some op
      | FireAlarm op _ _ _ \<Rightarrow> Some op
      | _ \<Rightarrow> None)"

definition arm_operation_deadlines :: "core_state \<Rightarrow> effect list \<Rightarrow> effect list" where
  "arm_operation_deadlines s effects =
     (case cf_operation_deadline_ms (st_config s) of
        None \<Rightarrow> effects
      | Some deadline_ms \<Rightarrow>
          let at_mono_ms = sat_add (st_now_mono_ms s) deadline_ms
          in effects @ map (\<lambda>op. ScheduleTimer (OperationDeadline op) at_mono_ms)
                         (List.map_filter watched_op effects))"

text \<open>Expiry of the operation a phase waits on, through that stage's own failure handling.\<close>

definition expire_phase :: "op_id \<Rightarrow> nat \<Rightarrow> phase \<Rightarrow> unit core" where
  "expire_phase op now_ms p =
     (case p of
        ReadingOwner _ \<Rightarrow> owner_read op 0 (Err Definite)
      | ReadingNodeLease _ _ _ _ \<Rightarrow> node_lease_read op now_ms (Err Definite)
      | RecoveringOwnerLog _ _ \<Rightarrow> node_log_recovered op (Err failure.Ambiguous)
      | ReadingCapacity _ _ _ \<Rightarrow> capacity_peers_read op now_ms (Err Definite)
      | Acquiring _ _ _ \<Rightarrow> owner_cas_completed op (Err failure.Ambiguous)
      | ReconcilingAcquire _ _ _ \<Rightarrow> owner_read op now_ms (Err Definite)
      | Starting _ _ \<Rightarrow> runtime_start_timed_out op
      | Publishing _ _ \<Rightarrow> published op (Err failure.Ambiguous)
      | EnsuringDurability _ _ \<Rightarrow> durability_checked op (Err DurabilityTimeout)
      | _ \<Rightarrow> skip)"

definition expire_cell_operation :: "op_id \<Rightarrow> nat \<Rightarrow> cell_id \<Rightarrow> cell \<Rightarrow> unit core" where
  "expire_cell_operation op now_ms i c =
     (if c_releasing c = Some op then owner_released op (Err Definite)
      else if map_option fst (as_adopting (c_phase c)) = Some op
      then successor_adopted op (Err Definite)
      else if firing_op (c_alarm c) = Some op then do {
        now_mono_ms \<leftarrow> look st_now_mono_ms;
        alarm_finished op i (case as_resident (c_phase c) of None \<Rightarrow> 0 | Some epoch \<Rightarrow> epoch)
          now_ms now_mono_ms (Err failure.Ambiguous)
      }
      else if phase_op (c_phase c) \<noteq> Some op then skip
      else expire_phase op now_ms (c_phase c))"

definition expire_operation :: "op_id \<Rightarrow> nat \<Rightarrow> unit core" where
  "expire_operation op now_ms = do {
     s \<leftarrow> look id;
     (if bm_has (st_barriers s) op then durable_reached op (Err failure.Ambiguous) Bucket
      else
        (case bm_get (st_cell_ops s) op of
           None \<Rightarrow> skip
         | Some i \<Rightarrow>
             (case bm_get (st_cells s) i of
                None \<Rightarrow> skip
              | Some c \<Rightarrow> expire_cell_operation op now_ms i c)))
   }"

definition timer_fired :: "timer \<Rightarrow> nat \<Rightarrow> nat \<Rightarrow> unit core" where
  "timer_fired timer now_ms now_mono_ms =
     (case timer of
        CellAlarm i generation \<Rightarrow> cell_alarm_timer i generation now_ms now_mono_ms
      | OperationDeadline op \<Rightarrow> expire_operation op now_ms
      | QueuedActivation i generation \<Rightarrow> do {
          expire_queued i generation;
          pump_activations;
          pump_capacity
        }
      | OwnerLogRecoveryRetry i generation \<Rightarrow> retry_owner_log_recovery i generation
      | NodeLeaseRenew _ \<Rightarrow> node_lease_timer timer now_ms now_mono_ms
      | NodeLeaseFence _ \<Rightarrow> node_lease_timer timer now_ms now_mono_ms)"

subsection \<open>Clocks\<close>

definition event_now_ms :: "event \<Rightarrow> nat option" where
  "event_now_ms e =
     (case e of
        StartNodeLease now_ms _ _ \<Rightarrow> Some now_ms
      | SelfNodeLeaseRead _ now_ms _ _ \<Rightarrow> Some now_ms
      | OwnerRead _ now_ms _ \<Rightarrow> Some now_ms
      | NodeLeaseRead _ now_ms _ \<Rightarrow> Some now_ms
      | TimerFired _ now_ms _ \<Rightarrow> Some now_ms
      | AlarmObserved _ _ _ now_ms _ \<Rightarrow> Some now_ms
      | AlarmFinished _ _ _ now_ms _ _ \<Rightarrow> Some now_ms
      | _ \<Rightarrow> None)"

definition event_mono_ms :: "event \<Rightarrow> nat option" where
  "event_mono_ms e =
     (case e of
        StartNodeLease _ now_mono_ms _ \<Rightarrow> Some now_mono_ms
      | SelfNodeLeaseRead _ _ now_mono_ms _ \<Rightarrow> Some now_mono_ms
      | NodeLeaseCasCompleted _ now_mono_ms _ _ \<Rightarrow> Some now_mono_ms
      | RequestAt _ _ now_mono_ms \<Rightarrow> Some now_mono_ms
      | EvictRequested _ _ now_mono_ms \<Rightarrow> Some now_mono_ms
      | CapacityRequestAt _ _ now_mono_ms \<Rightarrow> Some now_mono_ms
      | HandoffRequestAt _ _ _ now_mono_ms \<Rightarrow> Some now_mono_ms
      | WebSocketRequestAt _ _ _ _ now_mono_ms \<Rightarrow> Some now_mono_ms
      | GateRequestAt _ _ now_mono_ms \<Rightarrow> Some now_mono_ms
      | OutputAt _ _ _ _ _ now_mono_ms \<Rightarrow> Some now_mono_ms
      | WakeHintAt _ _ _ now_mono_ms \<Rightarrow> Some now_mono_ms
      | TimerFired _ _ now_mono_ms \<Rightarrow> Some now_mono_ms
      | AlarmObserved _ _ _ _ now_mono_ms \<Rightarrow> Some now_mono_ms
      | AlarmFinished _ _ _ _ now_mono_ms _ \<Rightarrow> Some now_mono_ms
      | LoadSampled _ now_mono_ms \<Rightarrow> Some now_mono_ms
      | GenerationChanged _ now_mono_ms _ _ \<Rightarrow> Some now_mono_ms
      | _ \<Rightarrow> None)"

definition tick :: "event \<Rightarrow> core_state \<Rightarrow> core_state" where
  "tick e s =
     (let s = (case event_mono_ms e of
                 None \<Rightarrow> s
               | Some now \<Rightarrow> s\<lparr>st_now_mono_ms := max (st_now_mono_ms s) now\<rparr>)
      in (case event_now_ms e of
            None \<Rightarrow> s
          | Some now \<Rightarrow> s\<lparr>st_now_ms := max (st_now_ms s) now\<rparr>))"

subsection \<open>Dispatch\<close>

definition dispatch :: "event \<Rightarrow> unit core" where
  "dispatch e =
     (case e of
        StartNodeLease now_ms _ spec \<Rightarrow> start_node_lease now_ms spec
      | NodeLogRecovered op result \<Rightarrow> node_log_recovered op result
      | NudgeNodeLease now_ms now_mono_ms \<Rightarrow> nudge_node_lease now_ms now_mono_ms
      | SelfNodeLeaseRead op now_ms now_mono_ms result \<Rightarrow>
          read_self_node_lease op now_ms now_mono_ms result
      | NodeLeaseCasCompleted op now_mono_ms result stamped_log_state \<Rightarrow>
          node_lease_cas_completed op now_mono_ms result stamped_log_state
      | LocalCellsRead result \<Rightarrow> local_cells_read result
      | TimerFired timer now_ms now_mono_ms \<Rightarrow> timer_fired timer now_ms now_mono_ms
      | Request request i \<Rightarrow> request_route request i False False
      | RequestAt request i _ \<Rightarrow> request_route request i False False
      | CapacityRequestAt request i _ \<Rightarrow> request_route request i True False
      | HandoffRequestAt request i _ _ \<Rightarrow> request_route request i True True
      | WebSocketRequestAt request i websocket _ _ \<Rightarrow> websocket_request request i websocket
      | GateRequestAt request i _ \<Rightarrow> gate_request request i
      | WorkerRequest request \<Rightarrow> worker_request request
      | BeginPreserve \<Rightarrow> begin_preserve
      | Cancel request \<Rightarrow> cancel request
      | ActivityFinished request \<Rightarrow> activity_finished request
      | event.Output request channel position observed epoch \<Rightarrow>
          gate_output request channel position observed epoch
      | OutputAt request channel position observed epoch _ \<Rightarrow>
          gate_output request channel position observed epoch
      | DurableReached op result source \<Rightarrow> durable_reached op result source
      | OwnershipVerified op result \<Rightarrow> ownership_verified op result
      | ExportTicket i epoch position ticket \<Rightarrow> export_ticket i epoch position ticket
      | WebSocketOpened i websocket kind \<Rightarrow> websocket_opened i websocket kind
      | WebSocketClosed i websocket \<Rightarrow> websocket_closed i websocket
      | AlarmObserved i alarm covered now_ms now_mono_ms \<Rightarrow>
          alarm_observed i \<lparr>ao_alarm = alarm, ao_covered = covered, ao_firing_settled = False\<rparr>
            now_ms now_mono_ms
      | AlarmFinished op i epoch now_ms now_mono_ms result \<Rightarrow>
          alarm_finished op i epoch now_ms now_mono_ms result
      | WakeHint i entry_ms scope \<Rightarrow> wake_hint i entry_ms scope
      | WakeHintAt i entry_ms scope _ \<Rightarrow> wake_hint i entry_ms scope
      | OwnerRead op now_ms result \<Rightarrow> owner_read op now_ms result
      | NodeLeaseRead op now_ms result \<Rightarrow> node_lease_read op now_ms result
      | CapacityPeersRead op now_ms result \<Rightarrow> capacity_peers_read op now_ms result
      | OwnerCasCompleted op result \<Rightarrow> owner_cas_completed op result
      | OwnerReleased op result \<Rightarrow> owner_released op result
      | SuccessorAdopted op result \<Rightarrow> successor_adopted op result
      | RestoreCompleted op result \<Rightarrow> restore_completed op result
      | RuntimeStarted op isolate generation result \<Rightarrow> runtime_started op isolate generation result
      | GenerationChanged generation _ max_age_ms eager_classes \<Rightarrow>
          generation_changed generation max_age_ms eager_classes
      | Published op result \<Rightarrow> published op result
      | DurabilityChecked op result \<Rightarrow>
          durability_checked op (case result of Ok u \<Rightarrow> Ok u | Err _ \<Rightarrow> Err Durability)
      | RuntimeStopped op \<Rightarrow> runtime_stopped op
      | RuntimeStopFailed op \<Rightarrow> runtime_stop_failed op (evict_error.Failed RuntimeStop)
      | RuntimeStopCancelled op \<Rightarrow> runtime_stop_failed op (Cancelled Activity)
      | event.Evict i \<Rightarrow> evict i
      | EvictRequested request i _ \<Rightarrow> evict_requested request i
      | LoadSampled load now_mono_ms \<Rightarrow> load_sampled load now_mono_ms
      | InvalidateRemote i node epoch \<Rightarrow> invalidate_remote i node epoch
      | event.NodeFenced \<Rightarrow> fence_node NodeLeaseExpired
      | ReleaseAll \<Rightarrow> release_all
      | Rebalance cells \<Rightarrow> rebalance cells)"

definition handle_event :: "event \<Rightarrow> unit core" where
  "handle_event e = do {
     upd (tick e);
     dispatch e;
     pump_activations;
     pump_release;
     pump_swap
   }"

definition on_event :: "core_state \<Rightarrow> event \<Rightarrow> core_state \<times> effect list" where
  "on_event s e =
     (case runs (handle_event e) s of (_, s', effects) \<Rightarrow> (s', arm_operation_deadlines s' effects))"

section \<open>Every event keeps the invariant\<close>

text \<open>What an event must be for the invariant: a listing of the disk names one live epoch of a cell.\<close>

definition event_ok :: "event \<Rightarrow> bool" where
  "event_ok e = (case e of LocalCellsRead result \<Rightarrow> one_live_epoch result | _ \<Rightarrow> True)"

text \<open>
  The acknowledgements an event may cause in a state: the output it brings when the gate is clear, and
  what a barrier holds when its proof arrives. A fleet proof that covers the barrier acknowledges it
  without its riders; a bucket proof that covers it only asks for the ownership read, whose answer
  acknowledges it.
\<close>

definition may_ack :: "core_state \<Rightarrow> event \<Rightarrow> effect \<Rightarrow> bool" where
  "may_ack s e x =
     (case e of
        event.Output request channel position observed epoch \<Rightarrow>
          output_clear s request position observed epoch \<and> x = effect.Release request channel (Ok ())
      | OutputAt request channel position observed epoch _ \<Rightarrow>
          output_clear s request position observed epoch \<and> x = effect.Release request channel (Ok ())
      | DurableReached op (Ok durable) proof_source.Fleet \<Rightarrow>
          (case bm_get (st_barriers s) op of
             None \<Rightarrow> False
           | Some gate \<Rightarrow>
               b_position gate \<le> durable \<and> x \<in> set (barrier_acks (gate\<lparr>b_riders := []\<rparr>)))
      | DurableReached op (Ok durable) Bucket \<Rightarrow>
          (case bm_get (st_barriers s) op of
             None \<Rightarrow> False
           | Some gate \<Rightarrow>
               b_position gate \<le> durable \<and> x = VerifyOwnership op (b_cell gate) (b_epoch gate))
      | OwnershipVerified op (Ok _) \<Rightarrow>
          (case bm_get (st_barriers s) op of
             None \<Rightarrow> False
           | Some gate \<Rightarrow> x \<in> set (barrier_acks gate))
      | _ \<Rightarrow> False)"

text \<open>The timers and the events that concern the lease of the node; no other event moves its authority.\<close>

definition lease_timer :: "timer \<Rightarrow> bool" where
  "lease_timer t = (case t of NodeLeaseRenew _ \<Rightarrow> True | NodeLeaseFence _ \<Rightarrow> True | _ \<Rightarrow> False)"

definition lease_event :: "event \<Rightarrow> bool" where
  "lease_event e =
     (case e of
        StartNodeLease _ _ _ \<Rightarrow> True
      | NudgeNodeLease _ _ \<Rightarrow> True
      | SelfNodeLeaseRead _ _ _ _ \<Rightarrow> True
      | NodeLeaseCasCompleted _ _ _ _ \<Rightarrow> True
      | event.NodeFenced \<Rightarrow> True
      | TimerFired t _ _ \<Rightarrow> lease_timer t
      | _ \<Rightarrow> False)"

lemma tick_benign: "benign s (tick e s)"
  by (simp add: tick_def benign_def split: option.split)

lemma tri_timer:
  "(\<And>g. x = NodeLeaseRenew g \<Longrightarrow> tri P I (m1 g) Q) \<Longrightarrow> (\<And>g. x = NodeLeaseFence g \<Longrightarrow> tri P I (m2 g) Q) \<Longrightarrow>
   (\<And>i g. x = CellAlarm i g \<Longrightarrow> tri P I (m3 i g) Q) \<Longrightarrow>
   (\<And>op. x = OperationDeadline op \<Longrightarrow> tri P I (m4 op) Q) \<Longrightarrow>
   (\<And>i g. x = QueuedActivation i g \<Longrightarrow> tri P I (m5 i g) Q) \<Longrightarrow>
   (\<And>i g. x = OwnerLogRecoveryRetry i g \<Longrightarrow> tri P I (m6 i g) Q) \<Longrightarrow>
   tri P I
     (case x of
        NodeLeaseRenew g \<Rightarrow> m1 g
      | NodeLeaseFence g \<Rightarrow> m2 g
      | CellAlarm i g \<Rightarrow> m3 i g
      | OperationDeadline op \<Rightarrow> m4 op
      | QueuedActivation i g \<Rightarrow> m5 i g
      | OwnerLogRecoveryRetry i g \<Rightarrow> m6 i g) Q"
  by (simp split: timer.split)

context core_proof begin

lemma expire_phase_ok [core_ok]:
  "tri P (core_inv none_held) (expire_phase op now_ms p) (\<lambda>_. core_inv none_held)"
  unfolding expire_phase_def by (cases p) (simp_all, (rule core_ok core_struct)+)

lemma expire_cell_operation_ok [core_ok]:
  "tri P (core_inv none_held) (expire_cell_operation op now_ms i c) (\<lambda>_. core_inv none_held)"
  unfolding expire_cell_operation_def by (rule core_ok core_struct)+

lemma durable_failed_ok [core_ok]:
  "tri P (core_inv none_held) (durable_reached op (Err f) source) (\<lambda>_. core_inv none_held)"
  by (rule tri_pre [OF durable_reached_ok]) simp

lemma expire_operation_ok [core_ok]:
  "tri P (core_inv none_held) (expire_operation op now_ms) (\<lambda>_. core_inv none_held)"
  unfolding expire_operation_def by (rule core_ok core_struct)+

lemma quiet_timer_ok:
  "\<not> lease_timer timer \<Longrightarrow>
   tri P (core_inv none_held) (timer_fired timer now_ms now_mono_ms) (\<lambda>_. core_inv none_held)"
  unfolding timer_fired_def by (cases timer) (simp_all add: lease_timer_def, (rule core_ok core_struct)+)

lemma quiet_dispatch_ok:
  assumes "event_ok e" and quiet: "\<not> lease_event e"
  shows "tri P (\<lambda>s. core_inv none_held s \<and> (\<forall>x. may_ack s e x \<longrightarrow> emits P x)) (dispatch e)
    (\<lambda>_. core_inv none_held)"
proof -
  have drop: "tri P (core_inv none_held) m Q \<Longrightarrow>
      tri P (\<lambda>s. core_inv none_held s \<and> (\<forall>x. may_ack s e' x \<longrightarrow> emits P x)) m Q"
    for m :: "unit core" and Q e'
    by (erule tri_pre) simp
  show ?thesis
  proof (cases e)
    case (Output request channel position observed epoch)
    show ?thesis
      unfolding Output dispatch_def event.case
      by (rule tri_pre [OF gate_output_ok]) (simp add: may_ack_def)
  next
    case (OutputAt request channel position observed epoch now)
    show ?thesis
      unfolding OutputAt dispatch_def event.case
      by (rule tri_pre [OF gate_output_ok]) (simp add: may_ack_def)
  next
    case (DurableReached op result source)
    show ?thesis
      unfolding DurableReached dispatch_def event.case
      by (rule tri_pre [OF durable_reached_ok], cases source) (auto simp: may_ack_def)
  next
    case (OwnershipVerified op result)
    show ?thesis
      unfolding OwnershipVerified dispatch_def event.case
      by (rule tri_pre [OF ownership_verified_ok], cases result) (auto simp: may_ack_def acks_allowed_def)
  next
    case (LocalCellsRead result)
    then have "one_live_epoch result" using assms by (simp add: event_ok_def)
    then show ?thesis
      unfolding LocalCellsRead dispatch_def event.case
      by - (rule tri_pre [OF local_cells_read_ok], auto)
  next
    case (TimerFired timer now_ms now_mono_ms)
    then show ?thesis
      using quiet quiet_timer_ok [of timer now_ms now_mono_ms]
      by (auto simp: dispatch_def lease_event_def intro: drop)
  qed (use quiet in \<open>simp add: lease_event_def; fail\<close> |
      simp only: dispatch_def event.case, rule drop, (rule core_ok)+)+
qed

lemma handle_dispatched:
  assumes "tri P (\<lambda>s. core_inv none_held s \<and> (\<forall>x. may_ack s e x \<longrightarrow> emits P x)) (dispatch e)
    (\<lambda>_. core_inv none_held)"
  shows "tri P (\<lambda>s. core_inv none_held s \<and> (\<forall>x. may_ack (tick e s) e x \<longrightarrow> emits P x)) (handle_event e)
    (\<lambda>_. core_inv none_held)"
  unfolding handle_event_def
proof (rule tri_bind [of _ _ _ "\<lambda>_ s. core_inv none_held s \<and> (\<forall>x. may_ack s e x \<longrightarrow> emits P x)"])
  show "tri P (\<lambda>s. core_inv none_held s \<and> (\<forall>x. may_ack (tick e s) e x \<longrightarrow> emits P x)) (upd (tick e))
      (\<lambda>_ s. core_inv none_held s \<and> (\<forall>x. may_ack s e x \<longrightarrow> emits P x))"
    by (rule tri_upd) (auto intro: benign_inv [OF tick_benign] benign_le [OF tick_benign])
  show "tri P (\<lambda>s. core_inv none_held s \<and> (\<forall>x. may_ack s e x \<longrightarrow> emits P x))
      (do {
         dispatch e;
         pump_activations;
         pump_release;
         pump_swap
       }) (\<lambda>_. core_inv none_held)"
    by (rule tri_bind [OF assms]) (rule core_ok core_struct)+
qed

end

context lease_proof begin

lemma timer_fired_ok [core_ok]:
  "tri P (core_inv none_held) (timer_fired timer now_ms now_mono_ms) (\<lambda>_. core_inv none_held)"
  unfolding timer_fired_def by (rule core_ok tri_timer core_struct)+

lemma lease_dispatch_ok:
  "lease_event e \<Longrightarrow> tri P (core_inv none_held) (dispatch e) (\<lambda>_. core_inv none_held)"
  by (cases e) (simp_all add: lease_event_def dispatch_def, (rule core_ok)+)

lemma handle_event_ok:
  assumes "event_ok e"
  shows "tri P (\<lambda>s. core_inv none_held s \<and> (\<forall>x. may_ack (tick e s) e x \<longrightarrow> emits P x)) (handle_event e)
    (\<lambda>_. core_inv none_held)"
proof (rule handle_dispatched, cases "lease_event e")
  case True
  then show "tri P (\<lambda>s. core_inv none_held s \<and> (\<forall>x. may_ack s e x \<longrightarrow> emits P x)) (dispatch e)
      (\<lambda>_. core_inv none_held)"
    using lease_dispatch_ok by (auto intro: tri_pre)
qed (rule quiet_dispatch_ok [OF assms])

end

end
