(* ===== verification/Pumps.thy ===== *)
theory Pumps
  imports Events
begin

text \<open>
  Progress of the activation queue. \<open>on_event\<close> runs \<open>pump_activations\<close> after the handler of the event, and two more
  pumps after it. The pump is a bounded loop in the model; here the bound is shown to be enough, in the form that matters
  to a waiting cell: after every event the queue is empty or every activation permit is taken.

  The locale \<open>queues_view\<close> is the interface the proofs need of the operations that the pumps call: a predicate that reads
  only the two queues, the permits and the configuration is kept by all of them. \<open>activation_view\<close> adds the operations
  that may append to the capacity queue.
\<close>

section \<open>Definitions\<close>

definition activations_settled :: "core_state \<Rightarrow> bool" where
  "activations_settled s \<longleftrightarrow>
     st_activation_waiters s = [] \<or> cf_max_activations (st_config s) \<le> card (st_activation_permits s)"

definition at_most_waiting :: "nat \<Rightarrow> core_state \<Rightarrow> bool" where
  "at_most_waiting n s \<longleftrightarrow> length (st_activation_waiters s) \<le> n"

definition at_most_queued :: "nat \<Rightarrow> core_state \<Rightarrow> bool" where
  "at_most_queued n s \<longleftrightarrow> length (st_capacity_waiters s) \<le> n"

definition capacity_settled :: "core_state \<Rightarrow> bool" where
  "capacity_settled s \<longleftrightarrow> st_capacity_waiters s = [] \<or> \<not> has_capacity s"

named_theorems view_ok

section \<open>Operations that leave the activation queue alone\<close>

locale queues_view =
  fixes I :: "core_state \<Rightarrow> bool"
  assumes view: "I s \<Longrightarrow> st_activation_waiters s' = st_activation_waiters s
    \<Longrightarrow> st_activation_permits s' = st_activation_permits s \<Longrightarrow> st_config s' = st_config s
    \<Longrightarrow> st_capacity_waiters s' = st_capacity_waiters s \<Longrightarrow> I s'"
begin

lemma upd_ok [view_ok]:
  assumes "\<And>s. st_activation_waiters (f s) = st_activation_waiters s"
    "\<And>s. st_activation_permits (f s) = st_activation_permits s" "\<And>s. st_config (f s) = st_config s"
    "\<And>s. st_capacity_waiters (f s) = st_capacity_waiters s"
  shows "along (keeps I) (upd f)"
  by (rule keeps_upd) (rule view, assumption, simp_all add: assms)

lemmas view_rules = kp.along_rules keeps_emit conjI allI impI

lemma cell_ops_ok [view_ok]:
  "along (keeps I) (take_cell i)" "along (keeps I) (put_cell i c)" "along (keeps I) (modify_cell i f)"
  "along (keeps I) (modify_activity g)" "along (keeps I) (activate_request request i)" "along (keeps I) (take_barrier op)"
  "along (keeps I) fresh_op" "along (keeps I) fresh_timer_generation"
  unfolding take_cell_def get_cell_def put_cell_def modify_cell_def modify_activity_def activate_request_def take_barrier_def
    fresh_op_def fresh_timer_generation_def
  by (rule view_rules view_ok | simp)+

lemma cell_op_ok [view_ok]: "along (keeps I) (cell_op i)"
  unfolding cell_op_def by (rule view_rules view_ok | simp)+

lemma set_phase_ok [view_ok]: "along (keeps I) (set_phase c p)"
  unfolding set_phase_def by (rule view_rules view_ok | simp)+

lemma begin_eviction_ok [view_ok]: "along (keeps I) (begin_eviction i r)"
  unfolding begin_eviction_def by (rule view_rules view_ok | simp)+

lemma shed_one_ok [view_ok]: "along (keeps I) shed_one"
  unfolding shed_one_def by (rule view_rules view_ok | simp)+

lemma complete_request_ok [view_ok]: "along (keeps I) (complete_request i request result)"
  unfolding complete_request_def by (rule view_rules view_ok | simp split: result.split route.split)+

lemma finish_requests_ok [view_ok]: "along (keeps I) (finish_requests i c result)"
  unfolding finish_requests_def by (rule view_rules view_ok | simp)+

lemma watch_queued_ok [view_ok]: "along (keeps I) (watch_queued i c)"
  unfolding watch_queued_def by (rule view_rules view_ok | simp)+

lemma refuse_claim_ok [view_ok]: "along (keeps I) (refuse_claim i c act)"
  unfolding refuse_claim_def refuse_new_ownership_during_drain_def
  by (rule view_rules view_ok | simp split: activation.split)+

lemma start_activation_ok [view_ok]: "along (keeps I) (start_activation i c act)"
  unfolding start_activation_def by (rule view_rules view_ok | simp split: activation.split)+

lemma begin_activation_ok [view_ok]: "along (keeps I) (begin_activation i c act)"
  unfolding begin_activation_def by (rule view_rules view_ok | simp)+

lemma deactivate_request_ok [view_ok]: "along (keeps I) (deactivate_request request)"
  unfolding deactivate_request_def by (rule view_rules view_ok | simp)+

lemma activity_finished_ok [view_ok]: "along (keeps I) (activity_finished request)"
  unfolding activity_finished_def by (rule view_rules view_ok | simp)+

lemma release_held_ok [view_ok]: "along (keeps I) (release_held output result)"
  unfolding release_held_def release_output_def by (rule view_rules view_ok | simp)+

lemma open_barrier_ok [view_ok]: "along (keeps I) (open_barrier owner i epoch position)"
  unfolding open_barrier_def by (rule view_rules view_ok | simp)+

lemma reask_riders_ok [view_ok]: "along (keeps I) (reask_riders i epoch riders)"
  unfolding reask_riders_def open_export_barrier_def by (rule view_rules view_ok | simp)+

lemma cancel_cell_outputs_ok [view_ok]: "along (keeps I) (cancel_cell_outputs i)"
  unfolding cancel_cell_outputs_def by (rule view_rules view_ok | simp split: gate_owner.split)+

lemma pump_release_ok [view_ok]: "along (keeps I) pump_release"
  unfolding pump_release_def release_queue_def quiesce_resident_def release_dormant_def
  by (rule view_rules view_ok | simp)+

lemma pump_swap_ok [view_ok]: "along (keeps I) pump_swap"
  unfolding pump_swap_def nominate_swap_def swap_cell_def set_phase_of_def get_cell_def
  by (rule view_rules view_ok | simp)+

end

locale activation_view = queues_view +
  assumes capacity_view: "I s \<Longrightarrow> I (s\<lparr>st_capacity_waiters := ws\<rparr>)"
begin

lemma capacity_upd_ok: "along (keeps I) (upd (\<lambda>s. s\<lparr>st_capacity_waiters := f s\<rparr>))"
  by (rule keeps_upd) (rule capacity_view)

lemma activate_or_wait_ok [view_ok]: "along (keeps I) (activate_or_wait i c act w)"
  unfolding activate_or_wait_def by (rule view_rules capacity_upd_ok view_ok | simp)+

lemma begin_cold_route_ok [view_ok]: "along (keeps I) (begin_cold_route i c start)"
  unfolding begin_cold_route_def by (rule view_rules view_ok | simp split: cold_start.split)+

end

section \<open>The pump reaches its end\<close>

interpretation aw: activation_view "at_most_waiting n" for n
  by unfold_locales (simp_all add: at_most_waiting_def)

interpretation se: activation_view activations_settled
  by unfold_locales (simp_all add: activations_settled_def)

lemma keeps_run: "along (keeps I) m \<Longrightarrow> I (fst c) \<Longrightarrow> I (fst (snd (run_state m c)))"
  unfolding along_def keeps_def by blast

lemma admit_waiter_adds_none: "along (keeps (at_most_waiting n)) (admit_waiter i)"
proof -
  have permit: "along (keeps (at_most_waiting n)) (upd (\<lambda>s. s\<lparr>st_activation_permits := insert i (st_activation_permits s)\<rparr>))"
    by (rule keeps_upd) (simp add: at_most_waiting_def)
  show ?thesis unfolding admit_waiter_def by (rule aw.view_rules view_ok permit | simp)+
qed

lemma pump_loop_settles:
  "at_most_waiting n s \<Longrightarrow> activations_settled (fst (snd (run_state (pump_activations_loop n) (s, es))))"
proof (induction n arbitrary: s es)
  case 0
  then show ?case by (simp add: activations_settled_def at_most_waiting_def)
next
  case (Suc n)
  show ?case
  proof (cases "card (st_activation_permits s) < cf_max_activations (st_config s) \<and> st_activation_waiters s \<noteq> []")
    case True
    then obtain i rest where w: "st_activation_waiters s = i # rest" by (auto simp: neq_Nil_conv)
    let ?s = "s\<lparr>st_activation_waiters := rest\<rparr>"
    obtain u t es' where t: "run_state (admit_waiter i) (?s, es) = (u, t, es')" by (metis prod_cases3)
    have "at_most_waiting n ?s" using Suc.prems w by (simp add: at_most_waiting_def)
    then have "at_most_waiting n t"
      using keeps_run [OF admit_waiter_adds_none, of n "(?s, es)" i] t by simp
    then show ?thesis using Suc.IH [of t es'] True w t by simp
  next
    case False
    then show ?thesis by (auto simp: activations_settled_def split: list.split)
  qed
qed

lemma pump_activations_settles: "activations_settled (fst (snd (run_state pump_activations (s, es))))"
  by (simp add: pump_activations_def pump_loop_settles at_most_waiting_def)

section \<open>The capacity queue\<close>

interpretation cq: queues_view "at_most_queued n" for n
  by unfold_locales (simp add: at_most_queued_def)

lemma admit_capacity_waiter_adds_none: "along (keeps (at_most_queued n)) (admit_capacity_waiter i)"
  unfolding admit_capacity_waiter_def by (rule cq.view_rules view_ok | simp)+

lemma pump_capacity_loop_settles:
  "at_most_queued n s \<Longrightarrow> capacity_settled (fst (snd (run_state (pump_capacity_loop n) (s, es))))"
proof (induction n arbitrary: s es)
  case 0
  then show ?case by (simp add: capacity_settled_def at_most_queued_def)
next
  case (Suc n)
  show ?case
  proof (cases "has_capacity s \<and> st_capacity_waiters s \<noteq> []")
    case True
    then obtain i rest where w: "st_capacity_waiters s = i # rest" by (auto simp: neq_Nil_conv)
    let ?s = "s\<lparr>st_capacity_waiters := rest\<rparr>"
    obtain u t es' where t: "run_state (admit_capacity_waiter i) (?s, es) = (u, t, es')" by (metis prod_cases3)
    have "at_most_queued n ?s" using Suc.prems w by (simp add: at_most_queued_def)
    then have "at_most_queued n t"
      using keeps_run [OF admit_capacity_waiter_adds_none, of n "(?s, es)" i] t by simp
    then show ?thesis using Suc.IH [of t es'] True w t by simp
  next
    case False
    then show ?thesis by (auto simp: capacity_settled_def split: list.split)
  qed
qed

lemma begin_eviction_keeps_room: "along (keeps capacity_settled) (begin_eviction i r)"
proof -
  have "capacity_settled (fst (snd (run_state (begin_eviction i r) (s, es)))) = capacity_settled s" for s es
    by (auto simp: begin_eviction_def cell_op_def fresh_op_def set_phase_def put_cell_def capacity_settled_def has_capacity_def
        as_resident_def split: option.split phase.splits)
  then show ?thesis by (auto simp: along_def keeps_def)
qed

lemma pump_capacity_settles: "capacity_settled (fst (snd (run_state pump_capacity (s, es))))"
proof -
  have shed: "along (keeps capacity_settled) shed_one"
    unfolding shed_one_def by (rule kp.along_rules begin_eviction_keeps_room)+
  obtain u t es' where t: "run_state (pump_capacity_loop (length (st_capacity_waiters s))) (s, es) = (u, t, es')"
    by (metis prod_cases3)
  have "capacity_settled t"
    using pump_capacity_loop_settles [of "length (st_capacity_waiters s)" s es] t by (simp add: at_most_queued_def)
  then show ?thesis using keeps_run [OF shed, of "(t, es')"] t by (simp add: pump_capacity_def)
qed

section \<open>The eviction loops\<close>

definition resident_count :: "core_state \<Rightarrow> nat" where
  "resident_count s = length (filter (\<lambda>(_, c). is_resident (c_phase c)) (st_cells s))"

lemma resident_count_bound: "resident_count s \<le> length (st_cells s)"
  by (simp add: resident_count_def)

lemma filter_insert_less:
  assumes "bm_ok m" "bm_get m i = Some c" "P c" "\<not> P c'"
  shows "length (filter (\<lambda>(_, c). P c) (bm_insert i c' m)) < length (filter (\<lambda>(_, c). P c) m)"
  using assms
proof (induction m)
  case (Cons kv m)
  obtain k v where kv: "kv = (k, v)" by (cases kv)
  show ?case using Cons bm_get_less [of k v m i] by (auto simp: kv bm_ok_Cons split: if_splits dest: order.strict_implies_order)
qed simp

text \<open>An eviction that starts takes its cell out of the \<open>Resident\<close> phase.\<close>

lemma begin_eviction_takes_a_resident:
  assumes "run_state (begin_eviction i r) (s, es) = (Ok op, s', es')" "bm_ok (st_cells s)"
  shows "resident_count s' < resident_count s" "bm_ok (st_cells s')"
proof -
  obtain c epoch where c: "bm_get (st_cells s) i = Some c" "c_phase c = Resident epoch"
    and cells: "st_cells s' = bm_insert i (cell_with_phase (c\<lparr>c_evict_rebalance := r\<rparr>) (EnsuringDurability op epoch)) (st_cells s)"
    using assms(1)
    by (auto simp: begin_eviction_def cell_op_def fresh_op_def set_phase_def put_cell_def as_resident_def
        split: option.splits if_splits phase.splits)
  then show "resident_count s' < resident_count s" "bm_ok (st_cells s')"
    using assms(2) filter_insert_less [OF assms(2) c(1), of "\<lambda>c. is_resident (c_phase c)"] by (auto simp: resident_count_def is_resident_def)
qed

lemma evict_idle_fuel:
  assumes "bm_ok (st_cells s)" "resident_count s < n" "resident_count s < m"
  shows "run_state (evict_idle_loop n now idle) (s, es) = run_state (evict_idle_loop m now idle) (s, es)"
  using assms
proof (induction n arbitrary: m s es)
  case (Suc n)
  obtain m' where m: "m = Suc m'" using Suc.prems(3) by (cases m) auto
  have "run_state (evict_idle_loop n now idle) (s', es') = run_state (evict_idle_loop m' now idle) (s', es')"
    if "run_state (begin_eviction i r) (s, es) = (Ok op, s', es')" for i r op s' es'
    using begin_eviction_takes_a_resident [OF that Suc.prems(1)] Suc.prems(2,3) by (intro Suc.IH) (simp_all add: m)
  then show ?case by (auto simp: m split: option.split result.split prod.split)
qed simp

lemma shed_toward_floor_fuel:
  assumes "bm_ok (st_cells s)" "resident_count s < n" "resident_count s < m"
  shows "run_state (shed_toward_floor_loop n) (s, es) = run_state (shed_toward_floor_loop m) (s, es)"
  using assms
proof (induction n arbitrary: m s es)
  case (Suc n)
  obtain m' where m: "m = Suc m'" using Suc.prems(3) by (cases m) auto
  have "run_state (shed_toward_floor_loop n) (s', es') = run_state (shed_toward_floor_loop m') (s', es')"
    if "run_state (begin_eviction i r) (s, es) = (Ok op, s', es')" for i r op s' es'
    using begin_eviction_takes_a_resident [OF that Suc.prems(1)] Suc.prems(2,3) by (intro Suc.IH) (simp_all add: m)
  then show ?case by (auto simp: m split: option.split result.split prod.split)
qed simp

text \<open>One more than the number of cells is enough: with any more fuel the loops do the same.\<close>

lemma evict_idle_enough:
  "bm_ok (st_cells s) \<Longrightarrow> length (st_cells s) < n \<Longrightarrow>
   run_state (evict_idle_loop n now idle) (s, es) = run_state (evict_idle_loop (Suc (length (st_cells s))) now idle) (s, es)"
  using resident_count_bound [of s] by (intro evict_idle_fuel) simp_all

lemma shed_toward_floor_enough:
  "bm_ok (st_cells s) \<Longrightarrow> length (st_cells s) < n \<Longrightarrow>
   run_state (shed_toward_floor_loop n) (s, es) = run_state (shed_toward_floor_loop (Suc (length (st_cells s)))) (s, es)"
  using resident_count_bound [of s] by (intro shed_toward_floor_fuel) simp_all

section \<open>Property\<close>

text \<open>
  C6. No event leaves a cell waiting for an activation permit while one is free. Whatever the state and whatever the
  event, after \<open>on_event\<close> the queue of cells that wait for an activation is empty or the permits are all taken: a permit
  that an event frees is handed on within that event, and neither the handoff pump nor the swap pump that follow undo it.
\<close>

theorem no_activation_permit_idles: "activations_settled (fst (on_event s e))"
proof -
  define c1 where "c1 = snd (run_state (do { upd (tick e); dispatch e }) (s, []))"
  have keep: "activations_settled (fst c) \<Longrightarrow> activations_settled (fst (snd (run_state (do { pump_release; pump_swap }) c)))" for c
    by (rule keeps_run [OF kp.along_bind [OF se.pump_release_ok se.pump_swap_ok]])
  have "snd (run_state (handle_event e) (s, [])) = snd (run_state (do { pump_release; pump_swap }) (snd (run_state pump_activations c1)))"
    by (simp add: handle_event_def c1_def split: prod.split)
  moreover have "activations_settled (fst (snd (run_state pump_activations c1)))"
    using pump_activations_settles [of "fst c1" "snd c1"] by simp
  ultimately show ?thesis using keep by (simp add: on_event_def runs_def split: prod.split) (metis fst_conv snd_conv)
qed

end
