(* ===== verification/WalReader.thy ===== *)
theory WalReader
  imports Prelude "HOL-Library.Word"
begin

text \<open>
  The reader of SQLite write-ahead logs, \<open>crates/ltx/src/wal.rs\<close>, with \<open>wal_checksum\<close> of \<open>crates/ltx/src/lib.rs\<close>.
  A reader walks a buffer frame by frame, checks salts and the cumulative checksum, and stops at the first frame that is
  not a valid continuation. Bytes and the scalar fields are words of their width, and the checksum wraps. A computation
  that can panic is an option: \<open>wal_checksum\<close> asserts that it gets whole units of eight bytes. A reader that fails has
  still moved its running checksum, so every read returns the reader beside its result.
\<close>

section \<open>Definitions\<close>

type_synonym byte = "8 word"
type_synonym u32 = "32 word"

definition WAL_HEADER_SIZE :: nat where
  "WAL_HEADER_SIZE = 32"

definition WAL_FRAME_HEADER_SIZE :: nat where
  "WAL_FRAME_HEADER_SIZE = 24"

definition WAL_VERSION :: u32 where
  "WAL_VERSION = 3007000"

definition WAL_MAGIC_LITTLE_ENDIAN :: u32 where
  "WAL_MAGIC_LITTLE_ENDIAN = 0x377f0682"

definition WAL_MAGIC_BIG_ENDIAN :: u32 where
  "WAL_MAGIC_BIG_ENDIAN = 0x377f0683"

datatype wal_error =
    Eof
  | InvalidMagic u32
  | UnsupportedVersion u32
  | BufferSize nat u32
  | OffsetTooSmall int int
  | UnalignedOffset int u32
  | PrevFrameMismatch

text \<open>\<open>u32::from_be_bytes\<close> on the first four bytes; every caller passes at least four.\<close>

fun be_u32 :: "byte list \<Rightarrow> u32" where
  "be_u32 (a # b # c # d # _) = of_nat (((unat a * 256 + unat b) * 256 + unat c) * 256 + unat d)"
| "be_u32 _ = 0"

definition le_u32 :: "byte list \<Rightarrow> u32" where
  "le_u32 bs = be_u32 (rev (take 4 bs))"

definition checksum_word :: "bool \<Rightarrow> byte list \<Rightarrow> u32" where
  "checksum_word big_endian bs = (if big_endian then be_u32 bs else le_u32 bs)"

function checksum_loop :: "bool \<Rightarrow> u32 \<Rightarrow> u32 \<Rightarrow> byte list \<Rightarrow> u32 \<times> u32" where
  "checksum_loop big_endian s0 s1 b =
     (if b = [] then (s0, s1)
      else
        let w0 = checksum_word big_endian b;
            w1 = checksum_word big_endian (drop 4 b);
            s0 = s0 + w0 + s1;
            s1 = s1 + w1 + s0 in
        checksum_loop big_endian s0 s1 (drop 8 b))"
  by pat_completeness auto
termination
  by (relation "measure (\<lambda>(_, _, _, b). length b)") auto

declare checksum_loop.simps [simp del]

definition wal_checksum :: "bool \<Rightarrow> u32 \<Rightarrow> u32 \<Rightarrow> byte list \<Rightarrow> (u32 \<times> u32) option" where
  "wal_checksum big_endian s0 s1 b = (if length b mod 8 = 0 then Some (checksum_loop big_endian s0 s1 b) else None)"

record wal_reader =
  wr_data :: "byte list"
  wr_tail_base :: nat
  wr_frame_n :: int
  wr_big_endian :: bool
  wr_page_size :: u32
  wr_salt1 :: u32
  wr_salt2 :: u32
  wr_chksum1 :: u32
  wr_chksum2 :: u32

definition wal_read_at :: "wal_reader \<Rightarrow> int \<Rightarrow> nat \<Rightarrow> byte list option" where
  "wal_read_at r offset n =
     (if offset < 0 then None
      else
        case (if wr_tail_base r = 0 \<or> nat offset < WAL_HEADER_SIZE then Some (nat offset)
              else if nat offset < wr_tail_base r then None
              else Some (WAL_HEADER_SIZE + (nat offset - wr_tail_base r))) of
          None \<Rightarrow> None
        | Some start \<Rightarrow>
            if length (wr_data r) < start + n then None else Some (take n (drop start (wr_data r))))"

definition read_header :: "wal_reader \<Rightarrow> (wal_reader, wal_error) result option" where
  "read_header r =
     (case wal_read_at r 0 WAL_HEADER_SIZE of
        None \<Rightarrow> Some (Err Eof)
      | Some hdr \<Rightarrow>
          let magic = be_u32 hdr in
          if magic \<noteq> WAL_MAGIC_LITTLE_ENDIAN \<and> magic \<noteq> WAL_MAGIC_BIG_ENDIAN then Some (Err (InvalidMagic magic))
          else
            let big_endian = (magic = WAL_MAGIC_BIG_ENDIAN);
                chksum1 = be_u32 (drop 24 hdr);
                chksum2 = be_u32 (drop 28 hdr) in
            (case wal_checksum big_endian 0 0 (take 24 hdr) of
               None \<Rightarrow> None
             | Some (v0, v1) \<Rightarrow>
                 if v0 \<noteq> chksum1 \<or> v1 \<noteq> chksum2 then Some (Err Eof)
                 else if be_u32 (drop 4 hdr) \<noteq> WAL_VERSION then Some (Err (UnsupportedVersion (be_u32 (drop 4 hdr))))
                 else Some (Ok (r\<lparr>wr_big_endian := big_endian, wr_page_size := be_u32 (drop 8 hdr),
                   wr_salt1 := be_u32 (drop 16 hdr), wr_salt2 := be_u32 (drop 20 hdr),
                   wr_chksum1 := chksum1, wr_chksum2 := chksum2\<rparr>))))"

definition new_with_offset_inner :: "byte list \<Rightarrow> nat \<Rightarrow> (wal_reader, wal_error) result option" where
  "new_with_offset_inner data tail_base =
     read_header \<lparr>wr_data = data, wr_tail_base = tail_base, wr_frame_n = 0, wr_big_endian = False, wr_page_size = 0,
       wr_salt1 = 0, wr_salt2 = 0, wr_chksum1 = 0, wr_chksum2 = 0\<rparr>"

definition wal_new :: "byte list \<Rightarrow> (wal_reader, wal_error) result option" where
  "wal_new data =
     read_header \<lparr>wr_data = data, wr_tail_base = 0, wr_frame_n = 0, wr_big_endian = False, wr_page_size = 0,
       wr_salt1 = 0, wr_salt2 = 0, wr_chksum1 = 0, wr_chksum2 = 0\<rparr>"

definition frame_size :: "wal_reader \<Rightarrow> int" where
  "frame_size r = int (unat (wr_page_size r)) + int WAL_FRAME_HEADER_SIZE"

definition frame_at :: "wal_reader \<Rightarrow> int" where
  "frame_at r = int WAL_HEADER_SIZE + wr_frame_n r * frame_size r"

text \<open>The running checksum over the first eight bytes of the frame header and then the page.\<close>

definition frame_checksum :: "bool \<Rightarrow> u32 \<Rightarrow> u32 \<Rightarrow> byte list \<Rightarrow> byte list \<Rightarrow> (u32 \<times> u32) option" where
  "frame_checksum big_endian s0 s1 prefix page =
     (case wal_checksum big_endian s0 s1 prefix of
        None \<Rightarrow> None
      | Some (c0, c1) \<Rightarrow> wal_checksum big_endian c0 c1 page)"

text \<open>\<open>read_frame_inner\<close> on a buffer of \<open>len\<close> bytes; the page it copies out is part of the answer.\<close>

definition read_frame_inner ::
  "nat \<Rightarrow> bool \<Rightarrow> wal_reader \<Rightarrow> (wal_reader \<times> (u32 \<times> u32 \<times> byte list, wal_error) result) option" where
  "read_frame_inner len verify_checksum r =
     (if len \<noteq> unat (wr_page_size r) then Some (r, Err (BufferSize len (wr_page_size r)))
      else
        case wal_read_at r (frame_at r) WAL_FRAME_HEADER_SIZE of
          None \<Rightarrow> Some (r, Err Eof)
        | Some hdr \<Rightarrow>
            (case wal_read_at r (frame_at r + int WAL_FRAME_HEADER_SIZE) len of
               None \<Rightarrow> Some (r, Err Eof)
             | Some page \<Rightarrow>
                 if wr_salt1 r \<noteq> be_u32 (drop 8 hdr) \<or> wr_salt2 r \<noteq> be_u32 (drop 12 hdr) then Some (r, Err Eof)
                 else
                   let chksum1 = be_u32 (drop 16 hdr);
                       chksum2 = be_u32 (drop 20 hdr) in
                   (case (if verify_checksum
                          then frame_checksum (wr_big_endian r) (wr_chksum1 r) (wr_chksum2 r) (take 8 hdr) page
                          else Some (chksum1, chksum2)) of
                      None \<Rightarrow> None
                    | Some (c0, c1) \<Rightarrow>
                        let r = r\<lparr>wr_chksum1 := c0, wr_chksum2 := c1\<rparr> in
                        if c0 \<noteq> chksum1 \<or> c1 \<noteq> chksum2 then Some (r, Err Eof)
                        else Some (r\<lparr>wr_frame_n := wr_frame_n r + 1\<rparr>, Ok (be_u32 hdr, be_u32 (drop 4 hdr), page)))))"

definition read_frame :: "nat \<Rightarrow> wal_reader \<Rightarrow> (wal_reader \<times> (u32 \<times> u32 \<times> byte list, wal_error) result) option" where
  "read_frame len r = read_frame_inner len True r"

definition seek_to_offset :: "int \<Rightarrow> u32 \<Rightarrow> u32 \<Rightarrow> wal_reader \<Rightarrow> (wal_reader, wal_error) result option" where
  "seek_to_offset offset salt1 salt2 r =
     (let r = r\<lparr>wr_salt1 := salt1, wr_salt2 := salt2\<rparr> in
      if (offset - int WAL_HEADER_SIZE) mod frame_size r \<noteq> 0 then Some (Err (UnalignedOffset offset (wr_page_size r)))
      else
        let r = r\<lparr>wr_frame_n := (offset - int WAL_HEADER_SIZE) div frame_size r - 1\<rparr> in
        (case read_frame_inner (unat (wr_page_size r)) False r of
           None \<Rightarrow> None
         | Some (_, Err _) \<Rightarrow> Some (Err PrevFrameMismatch)
         | Some (r, Ok _) \<Rightarrow> Some (Ok r)))"

definition new_with_offset :: "byte list \<Rightarrow> int \<Rightarrow> u32 \<Rightarrow> u32 \<Rightarrow> (wal_reader, wal_error) result option" where
  "new_with_offset data offset salt1 salt2 =
     (if offset \<le> int WAL_HEADER_SIZE then Some (Err (OffsetTooSmall offset (int WAL_HEADER_SIZE)))
      else
        case new_with_offset_inner data 0 of
          None \<Rightarrow> None
        | Some (Err e) \<Rightarrow> Some (Err e)
        | Some (Ok r) \<Rightarrow> seek_to_offset offset salt1 salt2 r)"

definition new_with_offset_over_tail ::
  "byte list \<Rightarrow> int \<Rightarrow> int \<Rightarrow> u32 \<Rightarrow> u32 \<Rightarrow> (wal_reader, wal_error) result option" where
  "new_with_offset_over_tail data tail_base offset salt1 salt2 =
     (if tail_base < int WAL_HEADER_SIZE \<or> offset < tail_base
      then Some (Err (OffsetTooSmall offset (int WAL_HEADER_SIZE)))
      else
        case new_with_offset_inner data (nat tail_base) of
          None \<Rightarrow> None
        | Some (Err e) \<Rightarrow> Some (Err e)
        | Some (Ok r) \<Rightarrow> seek_to_offset offset salt1 salt2 r)"

definition wal_offset :: "wal_reader \<Rightarrow> int" where
  "wal_offset r =
     (if wr_frame_n r = 0 then 0
      else int WAL_HEADER_SIZE + (wr_frame_n r - 1) * (int WAL_FRAME_HEADER_SIZE + int (unat (wr_page_size r))))"

text \<open>A frame that is read moves the reader on inside its buffer, so every loop over frames ends.\<close>

definition reader_room :: "wal_reader \<Rightarrow> nat" where
  "reader_room r = nat (int (length (wr_data r)) + int (wr_tail_base r) + int WAL_HEADER_SIZE - frame_at r)"

lemma read_at_bound:
  assumes "wal_read_at r offset n = Some bs"
  shows "0 \<le> offset" "offset + int n \<le> int (length (wr_data r)) + int (wr_tail_base r)" "length bs = n"
  using assms by (auto simp: wal_read_at_def Let_def split: if_splits)

lemma read_frame_inner_ok:
  assumes "read_frame_inner len verify r = Some (r', Ok (pgno, commit, page))"
  shows "len = unat (wr_page_size r)" "wr_data r' = wr_data r" "wr_tail_base r' = wr_tail_base r" "wr_frame_n r' = wr_frame_n r + 1"
    "wr_page_size r' = wr_page_size r" "wr_big_endian r' = wr_big_endian r" "wr_salt1 r' = wr_salt1 r" "wr_salt2 r' = wr_salt2 r"
    "\<exists>hdr. wal_read_at r (frame_at r) WAL_FRAME_HEADER_SIZE = Some hdr \<and>
       wal_read_at r (frame_at r + int WAL_FRAME_HEADER_SIZE) len = Some page \<and>
       be_u32 hdr = pgno \<and> be_u32 (drop 4 hdr) = commit \<and> be_u32 (drop 8 hdr) = wr_salt1 r \<and> be_u32 (drop 12 hdr) = wr_salt2 r \<and>
       be_u32 (drop 16 hdr) = wr_chksum1 r' \<and> be_u32 (drop 20 hdr) = wr_chksum2 r' \<and>
       (verify \<longrightarrow> frame_checksum (wr_big_endian r) (wr_chksum1 r) (wr_chksum2 r) (take 8 hdr) page = Some (wr_chksum1 r', wr_chksum2 r'))"
  using assms by (auto simp: read_frame_inner_def Let_def split: if_splits option.splits)

lemma read_frame_room:
  assumes "read_frame_inner len verify r = Some (r', Ok (pgno, commit, page))"
  shows "reader_room r' < reader_room r"
proof -
  obtain hdr where h: "wal_read_at r (frame_at r) WAL_FRAME_HEADER_SIZE = Some hdr"
    using read_frame_inner_ok(9) [OF assms] by blast
  have "frame_size r' = frame_size r" by (simp add: frame_size_def read_frame_inner_ok(5) [OF assms])
  then have "frame_at r' = frame_at r + frame_size r"
    by (simp add: frame_at_def read_frame_inner_ok(4) [OF assms] algebra_simps)
  moreover have "24 \<le> frame_size r" by (simp add: frame_size_def WAL_FRAME_HEADER_SIZE_def)
  moreover note read_frame_inner_ok(2,3) [OF assms]
  ultimately show ?thesis
    using read_at_bound(2) [OF h] by (simp add: reader_room_def WAL_HEADER_SIZE_def WAL_FRAME_HEADER_SIZE_def)
qed

type_synonym page_offsets = "(u32, int) bmap"

definition promote :: "page_offsets \<Rightarrow> page_offsets \<Rightarrow> page_offsets" where
  "promote tx_map m = fold (\<lambda>(p, offset) m. bm_insert p offset m) tx_map m"

function page_map_loop ::
  "page_offsets \<Rightarrow> page_offsets \<Rightarrow> u32 \<Rightarrow> wal_reader \<Rightarrow> (wal_reader \<times> (page_offsets \<times> u32, wal_error) result) option" where
  "page_map_loop m tx_map commit r =
     (case read_frame (unat (wr_page_size r)) r of
        None \<Rightarrow> None
      | Some (r, Err e) \<Rightarrow> Some (r, if e = Eof then Ok (m, commit) else Err e)
      | Some (r, Ok (pgno, fcommit, _)) \<Rightarrow>
          let tx_map = bm_insert pgno (wal_offset r) tx_map in
          if fcommit \<noteq> 0 then page_map_loop (promote tx_map m) [] fcommit r else page_map_loop m tx_map commit r)"
  by pat_completeness auto
termination
  by (relation "measure (\<lambda>(_, _, _, r). reader_room r)") (auto simp: read_frame_def dest: read_frame_room)

declare page_map_loop.simps [simp del]

definition page_map :: "wal_reader \<Rightarrow> (wal_reader \<times> (page_offsets \<times> int \<times> u32, wal_error) result) option" where
  "page_map r =
     (case page_map_loop [] [] 0 r of
        None \<Rightarrow> None
      | Some (r, Err e) \<Rightarrow> Some (r, Err e)
      | Some (r, Ok (m, commit)) \<Rightarrow>
          let m = filter (\<lambda>(pgno, _). pgno \<le> commit) m in
          if m = [] then Some (r, Ok (m, 0, 0))
          else
            let top = fold (\<lambda>(_, offset) top. if top = 0 \<or> top < offset then offset else top) m 0 in
            Some (r, Ok (m, top + int WAL_FRAME_HEADER_SIZE + int (unat (wr_page_size r)), commit)))"

text \<open>
  \<open>frame_salts_until_with\<close>: the scan of the frame headers, whose reads are a function of the offset. It need not end for
  an arbitrary function.
\<close>

partial_function (option) salts_scan ::
  "(u32 \<times> u32) \<Rightarrow> (int \<Rightarrow> byte list option) \<Rightarrow> int \<Rightarrow> int \<Rightarrow> (u32 \<times> u32) set \<Rightarrow> (u32 \<times> u32) set option" where
  "salts_scan until frame_header_at step offset m =
     (case frame_header_at offset of
        None \<Rightarrow> Some m
      | Some hdr \<Rightarrow>
          let salt = (be_u32 (drop 8 hdr), be_u32 (drop 12 hdr)) in
          if salt = until then Some (insert salt m)
          else salts_scan until frame_header_at step (offset + step) (insert salt m))"

definition frame_salts_until :: "(u32 \<times> u32) \<Rightarrow> wal_reader \<Rightarrow> (u32 \<times> u32) set option" where
  "frame_salts_until until r =
     salts_scan until (\<lambda>offset. wal_read_at r offset WAL_FRAME_HEADER_SIZE) (frame_size r) (int WAL_HEADER_SIZE) {}"

text \<open>A file is its bytes; a read past its length is not attempted.\<close>

definition frame_salts_until_in_file ::
  "byte list \<Rightarrow> (u32 \<times> u32) \<Rightarrow> ((u32 \<times> u32) set, wal_error) result option" where
  "frame_salts_until_in_file bytes until =
     (if length bytes < WAL_HEADER_SIZE then Some (Err Eof)
      else
        case wal_new (take WAL_HEADER_SIZE bytes) of
          None \<Rightarrow> None
        | Some (Err e) \<Rightarrow> Some (Err e)
        | Some (Ok rd) \<Rightarrow>
            map_option Ok (salts_scan until
              (\<lambda>offset. if length bytes < nat offset + WAL_FRAME_HEADER_SIZE then None
                        else Some (take WAL_FRAME_HEADER_SIZE (drop (nat offset) bytes)))
              (frame_size rd) (int WAL_HEADER_SIZE) {}))"

end
