(* ===== verification/WalLaws.thy ===== *)
theory WalLaws
  imports WalReader
begin

text \<open>
  Laws of the WAL reader against a reference writer. \<open>encode_wal\<close> lays a header and a list of frames out as the format
  prescribes, each frame sealed with the checksum of everything before it. The reader returns exactly the longest
  list of frames whose encoding the buffer starts with; the page map is the last committed version of every page; a reader
  that resumes in the middle, over the whole file or over its tail, goes on like the one that read from the start.
\<close>

section \<open>Definitions\<close>

definition be_bytes :: "u32 \<Rightarrow> byte list" where
  "be_bytes w = (let n = unat w in [of_nat (n div 256 div 256 div 256), of_nat (n div 256 div 256), of_nat (n div 256), of_nat n])"

record wal_head =
  wh_big_endian :: bool
  wh_page_size :: u32
  wh_sequence :: u32
  wh_salt1 :: u32
  wh_salt2 :: u32

type_synonym wal_frame = "u32 \<times> u32 \<times> byte list"

definition head_prefix :: "wal_head \<Rightarrow> byte list" where
  "head_prefix h =
     be_bytes (if wh_big_endian h then WAL_MAGIC_BIG_ENDIAN else WAL_MAGIC_LITTLE_ENDIAN) @ be_bytes WAL_VERSION
     @ be_bytes (wh_page_size h) @ be_bytes (wh_sequence h) @ be_bytes (wh_salt1 h) @ be_bytes (wh_salt2 h)"

definition head_sum :: "wal_head \<Rightarrow> u32 \<times> u32" where
  "head_sum h = checksum_loop (wh_big_endian h) 0 0 (head_prefix h)"

definition encode_head :: "wal_head \<Rightarrow> byte list" where
  "encode_head h = head_prefix h @ be_bytes (fst (head_sum h)) @ be_bytes (snd (head_sum h))"

definition frame_sum :: "bool \<Rightarrow> u32 \<times> u32 \<Rightarrow> wal_frame \<Rightarrow> u32 \<times> u32" where
  "frame_sum big_endian c = (\<lambda>(pgno, commit, page).
     checksum_loop big_endian (fst c) (snd c) (be_bytes pgno @ be_bytes commit @ page))"

definition encode_frame :: "bool \<Rightarrow> u32 \<Rightarrow> u32 \<Rightarrow> u32 \<times> u32 \<Rightarrow> wal_frame \<Rightarrow> byte list" where
  "encode_frame big_endian salt1 salt2 c f =
     (case f of (pgno, commit, page) \<Rightarrow>
        be_bytes pgno @ be_bytes commit @ be_bytes salt1 @ be_bytes salt2
        @ be_bytes (fst (frame_sum big_endian c f)) @ be_bytes (snd (frame_sum big_endian c f)) @ page)"

fun encode_frames :: "bool \<Rightarrow> u32 \<Rightarrow> u32 \<Rightarrow> u32 \<times> u32 \<Rightarrow> wal_frame list \<Rightarrow> byte list" where
  "encode_frames big_endian salt1 salt2 c [] = []"
| "encode_frames big_endian salt1 salt2 c (f # fs) =
     encode_frame big_endian salt1 salt2 c f @ encode_frames big_endian salt1 salt2 (frame_sum big_endian c f) fs"

definition encode_wal :: "wal_head \<Rightarrow> wal_frame list \<Rightarrow> byte list" where
  "encode_wal h fs = encode_head h @ encode_frames (wh_big_endian h) (wh_salt1 h) (wh_salt2 h) (head_sum h) fs"

definition frames_ok :: "u32 \<Rightarrow> wal_frame list \<Rightarrow> bool" where
  "frames_ok page_size fs \<longleftrightarrow> list_all (\<lambda>(_, _, page). length page = unat page_size) fs"

text \<open>The bytes from the next frame on, and the readers whose next frame is inside their buffer's range.\<close>

definition remaining :: "wal_reader \<Rightarrow> byte list" where
  "remaining r =
     drop (nat (if wr_tail_base r = 0 then frame_at r else frame_at r - int (wr_tail_base r) + int WAL_HEADER_SIZE)) (wr_data r)"

definition in_frames :: "wal_reader \<Rightarrow> bool" where
  "in_frames r \<longleftrightarrow> 0 \<le> wr_frame_n r \<and> int (wr_tail_base r) \<le> frame_at r"

definition page_bytes :: "wal_reader \<Rightarrow> nat" where
  "page_bytes r = unat (wr_page_size r)"

definition reader_frame :: "wal_reader \<Rightarrow> wal_frame \<Rightarrow> byte list" where
  "reader_frame r f = encode_frame (wr_big_endian r) (wr_salt1 r) (wr_salt2 r) (wr_chksum1 r, wr_chksum2 r) f"

text \<open>All frames up to the end of the valid log.\<close>

function read_all :: "wal_reader \<Rightarrow> wal_frame list" where
  "read_all r =
     (case read_frame (page_bytes r) r of
        Some (r', Ok f) \<Rightarrow> f # read_all r'
      | _ \<Rightarrow> [])"
  by pat_completeness auto
termination
  by (relation "measure reader_room") (auto simp: read_frame_def dest: read_frame_room)

declare read_all.simps [simp del]

text \<open>The reader after some frames, when there are that many.\<close>

fun read_some :: "nat \<Rightarrow> wal_reader \<Rightarrow> wal_reader option" where
  "read_some 0 r = Some r"
| "read_some (Suc n) r =
     (case read_frame (page_bytes r) r of
        Some (r', Ok _) \<Rightarrow> read_some n r'
      | _ \<Rightarrow> None)"

text \<open>
  The frames up to the last commit record, where the frames a reader returns lie in the file, and the last version of
  every page among them.
\<close>

definition committed_frames :: "wal_frame list \<Rightarrow> wal_frame list" where
  "committed_frames fs = rev (dropWhile (\<lambda>(_, commit, _). commit = 0) (rev fs))"

definition placed :: "wal_reader \<Rightarrow> wal_frame list \<Rightarrow> (u32 \<times> int) list" where
  "placed r fs = map (\<lambda>(k, f). (fst f, frame_at r + int k * frame_size r)) (enumerate 0 fs)"

definition latest :: "wal_reader \<Rightarrow> wal_frame list \<Rightarrow> u32 \<rightharpoonup> int" where
  "latest r fs = map_of (rev (placed r fs))"

definition final_size :: "wal_frame list \<Rightarrow> u32" where
  "final_size fs = fst (snd (List.last fs))"

section \<open>Bytes and checksums\<close>

lemma be_bytes_length [simp]: "length (be_bytes w) = 4"
  by (simp add: be_bytes_def Let_def)

lemma be_u32_be_bytes [simp]: "be_u32 (be_bytes w @ xs) = w"
proof -
  define n where "n = unat w"
  have "n < 2 ^ 32" unfolding n_def using unsigned_less [of w] by simp
  then have "n div 256 div 256 div 256 < 256" by (simp add: div_mult2_eq [symmetric] less_mult_imp_div_less)
  moreover have "(n div 256 div 256 div 256) * 256 + n div 256 div 256 mod 256 = n div 256 div 256"
    "(n div 256 div 256) * 256 + n div 256 mod 256 = n div 256" "n div 256 * 256 + n mod 256 = n"
    by (rule div_mult_mod_eq)+
  ultimately show ?thesis
    by (simp add: be_bytes_def Let_def n_def [symmetric] unat_of_nat) (simp add: n_def)
qed

lemma be_u32_be_bytes' [simp]: "be_u32 (be_bytes w) = w"
  using be_u32_be_bytes [of w "[]"] by simp

lemma four_bytes:
  assumes "4 \<le> length bs"
  obtains a b c d xs where "bs = a # b # c # d # xs"
  using assms by (metis Suc_le_length_iff numeral_eq_Suc pred_numeral_simps(2) pred_numeral_simps(3) semiring_norm(26,27))

lemma be_u32_append: "4 \<le> length xs \<Longrightarrow> be_u32 (xs @ ys) = be_u32 xs"
  by (erule four_bytes) simp

lemma be_u32_take: "4 \<le> n \<Longrightarrow> be_u32 (take n xs) = be_u32 xs"
  using be_u32_append [of "take n xs" "drop n xs"] by (cases "4 \<le> length xs") auto

lemma be_bytes_be_u32:
  assumes "4 \<le> length bs"
  shows "be_bytes (be_u32 bs) = take 4 bs"
proof -
  obtain a b c d xs where bs: "bs = a # b # c # d # xs"
    by (rule four_bytes [OF assms])
  define A B C D where v: "A = unat a" "B = unat b" "C = unat c" "D = unat d"
  have l: "A < 256" "B < 256" "C < 256" "D < 256" using unsigned_less [of a] unsigned_less [of b] unsigned_less [of c] unsigned_less [of d]
    by (simp_all add: v)
  define n where "n = ((A * 256 + B) * 256 + C) * 256 + D"
  have n: "n < 2 ^ 32" using l by (simp add: n_def)
  have dv: "n div 256 = (A * 256 + B) * 256 + C" "((A * 256 + B) * 256 + C) div 256 = A * 256 + B" "(A * 256 + B) div 256 = A"
    using l by (simp_all add: n_def)
  have "be_u32 bs = of_nat n" unfolding bs n_def v by (rule be_u32.simps(1))
  then have un: "unat (be_u32 bs) = n" using n by (simp add: unat_of_nat)
  have low: "(of_nat (x * 256 + unat y) :: byte) = y" for x and y :: byte
  proof -
    have "(of_nat (x * 256) :: byte) = 0" unfolding word_of_nat_eq_0_iff by simp
    then show ?thesis unfolding of_nat_add by simp
  qed
  show ?thesis unfolding be_bytes_def Let_def un dv unfolding n_def v low by (simp add: bs)
qed

lemma be_bytes_inj: "be_bytes v = be_bytes w \<Longrightarrow> v = w"
  by (metis be_u32_be_bytes')

lemma checksum_append:
  assumes "length xs mod 8 = 0"
  shows "checksum_loop be s0 s1 (xs @ ys) = (case checksum_loop be s0 s1 xs of (t0, t1) \<Rightarrow> checksum_loop be t0 t1 ys)"
  using assms
proof (induction be s0 s1 xs rule: checksum_loop.induct)
  case (1 be s0 s1 xs)
  show ?case
  proof (cases "xs = []")
    case True
    then show ?thesis by (simp add: checksum_loop.simps [of be s0 s1 "[]"])
  next
    case False
    then have l: "8 \<le> length xs" using "1.prems" by (cases "length xs < 8") auto
    have w: "checksum_word be (xs @ ys) = checksum_word be xs" "checksum_word be (drop 4 (xs @ ys)) = checksum_word be (drop 4 xs)"
      using l by (simp_all add: checksum_word_def le_u32_def be_u32_append)
    have "length (drop 8 xs) mod 8 = 0" using "1.prems" le_mod_geq [OF l] by simp
    then show ?thesis
      using "1.IH" [OF False refl refl refl refl] False l w
      by (simp add: checksum_loop.simps [of be s0 s1 xs] checksum_loop.simps [of be s0 s1 "xs @ ys"] Let_def)
  qed
qed

section \<open>One frame\<close>

lemma read_at_frame:
  assumes "in_frames r" "0 < k + n"
  shows "wal_read_at r (frame_at r + int k) n =
    (if length (remaining r) < k + n then None else Some (take n (drop k (remaining r))))"
proof -
  have f: "32 \<le> frame_at r" using assms(1) by (simp add: in_frames_def frame_at_def frame_size_def WAL_HEADER_SIZE_def)
  show ?thesis
  proof (cases "wr_tail_base r = 0")
    case True
    have "nat (frame_at r + int k) = nat (frame_at r) + k" using f by (simp add: nat_add_distrib)
    then show ?thesis using f True assms(2) by (auto simp: wal_read_at_def remaining_def WAL_HEADER_SIZE_def add.commute)
  next
    case False
    then have b: "int (wr_tail_base r) \<le> frame_at r" using assms(1) by (simp add: in_frames_def)
    define start where "start = nat (frame_at r - int (wr_tail_base r) + 32)"
    have "\<not> nat (frame_at r + int k) < 32" "\<not> nat (frame_at r + int k) < wr_tail_base r" using f b by linarith+
    moreover have "32 + (nat (frame_at r + int k) - wr_tail_base r) = start + k"
      using b f unfolding start_def by linarith
    moreover have "remaining r = drop start (wr_data r)" using False by (simp add: remaining_def start_def WAL_HEADER_SIZE_def)
    ultimately show ?thesis using f False assms(2) by (auto simp: wal_read_at_def WAL_HEADER_SIZE_def add.commute)
  qed
qed

lemma frame_checksum_loop:
  assumes "length prefix = 8" "length page mod 8 = 0"
  shows "frame_checksum be s0 s1 prefix page = Some (checksum_loop be s0 s1 (prefix @ page))"
  using assms by (simp add: frame_checksum_def wal_checksum_def checksum_append split: prod.split)

lemma read_frame_view:
  assumes "in_frames r" "page_bytes r mod 8 = 0"
  shows "read_frame (page_bytes r) r =
    (let rem = remaining r; page = take (page_bytes r) (drop 24 rem);
         sum = checksum_loop (wr_big_endian r) (wr_chksum1 r) (wr_chksum2 r) (take 8 rem @ page);
         r' = r\<lparr>wr_chksum1 := fst sum, wr_chksum2 := snd sum\<rparr> in
     if length rem < 24 + page_bytes r \<or> be_u32 (drop 8 rem) \<noteq> wr_salt1 r \<or> be_u32 (drop 12 rem) \<noteq> wr_salt2 r then Some (r, Err Eof)
     else if sum \<noteq> (be_u32 (drop 16 rem), be_u32 (drop 20 rem)) then Some (r', Err Eof)
     else Some (r'\<lparr>wr_frame_n := wr_frame_n r + 1\<rparr>, Ok (be_u32 rem, be_u32 (drop 4 rem), page)))"
proof -
  let ?rem = "remaining r"
  have h: "wal_read_at r (frame_at r) 24 = (if length ?rem < 24 then None else Some (take 24 ?rem))"
    using read_at_frame [OF assms(1), of 0 24] by simp
  have p: "wal_read_at r (frame_at r + 24) (page_bytes r) =
      (if length ?rem < 24 + page_bytes r then None else Some (take (page_bytes r) (drop 24 ?rem)))"
    using read_at_frame [OF assms(1), of 24 "page_bytes r"] by simp
  have b: "be_u32 (drop k (take 24 ?rem)) = be_u32 (drop k ?rem)" if "k + 4 \<le> 24" for k
    using that by (simp add: drop_take be_u32_take)
  have b0: "be_u32 (take 24 ?rem) = be_u32 ?rem" by (simp add: be_u32_take)
  show ?thesis
  proof (cases "length ?rem < 24 + page_bytes r")
    case True
    then show ?thesis
      by (simp add: read_frame_def read_frame_inner_def WAL_FRAME_HEADER_SIZE_def h p page_bytes_def [symmetric] Let_def)
  next
    case False
    then have "length (take 8 (take 24 ?rem)) = 8" "length (take (page_bytes r) (drop 24 ?rem)) mod 8 = 0" using assms(2) by auto
    note sum = frame_checksum_loop [OF this, of "wr_big_endian r" "wr_chksum1 r" "wr_chksum2 r"]
    obtain c0 c1 where c: "checksum_loop (wr_big_endian r) (wr_chksum1 r) (wr_chksum2 r) (take 8 ?rem @ take (page_bytes r) (drop 24 ?rem)) = (c0, c1)"
      by fastforce
    have t: "take 8 (take 24 ?rem) = take 8 ?rem" by simp
    show ?thesis
      using False b [of 4] b [of 8] b [of 12] b [of 16] b [of 20]
      by (simp add: read_frame_def read_frame_inner_def WAL_FRAME_HEADER_SIZE_def h p page_bytes_def [symmetric] Let_def
          sum [unfolded t] c b0 t eq_commute [of "wr_salt1 r"] eq_commute [of "wr_salt2 r"] del: take_take drop_take)
  qed
qed

text \<open>What moves with a frame that was read.\<close>

definition moved :: "wal_reader \<Rightarrow> wal_frame \<Rightarrow> wal_reader" where
  "moved r f =
     (let c = frame_sum (wr_big_endian r) (wr_chksum1 r, wr_chksum2 r) f in
      r\<lparr>wr_chksum1 := fst c, wr_chksum2 := snd c, wr_frame_n := wr_frame_n r + 1\<rparr>)"

lemma moved_simps [simp]:
  "wr_data (moved r f) = wr_data r" "wr_tail_base (moved r f) = wr_tail_base r" "wr_page_size (moved r f) = wr_page_size r"
  "wr_big_endian (moved r f) = wr_big_endian r" "wr_salt1 (moved r f) = wr_salt1 r" "wr_salt2 (moved r f) = wr_salt2 r"
  "wr_frame_n (moved r f) = wr_frame_n r + 1" "page_bytes (moved r f) = page_bytes r"
  "(wr_chksum1 (moved r f), wr_chksum2 (moved r f)) = frame_sum (wr_big_endian r) (wr_chksum1 r, wr_chksum2 r) f"
  by (simp_all add: moved_def Let_def page_bytes_def)

lemma frame_at_moved: "frame_at (moved r f) = frame_at r + int (24 + page_bytes r)"
  by (simp add: frame_at_def frame_size_def page_bytes_def WAL_FRAME_HEADER_SIZE_def algebra_simps)

lemma in_frames_moved: "in_frames r \<Longrightarrow> in_frames (moved r f)"
  unfolding in_frames_def frame_at_moved moved_simps by linarith

lemma remaining_moved:
  assumes "in_frames r"
  shows "remaining (moved r f) = drop (24 + page_bytes r) (remaining r)"
proof -
  have "0 \<le> frame_at r" "int (wr_tail_base r) \<le> frame_at r"
    using assms by (simp_all add: in_frames_def frame_at_def frame_size_def)
  then have "nat (frame_at (moved r f)) = 24 + page_bytes r + nat (frame_at r)"
    "nat (frame_at (moved r f) - int (wr_tail_base r) + int WAL_HEADER_SIZE) =
     24 + page_bytes r + nat (frame_at r - int (wr_tail_base r) + int WAL_HEADER_SIZE)"
    unfolding frame_at_moved by linarith+
  then show ?thesis unfolding remaining_def moved_simps drop_drop by simp
qed

lemma take_words:
  "8 \<le> length bs \<Longrightarrow> take 8 bs = be_bytes (be_u32 bs) @ be_bytes (be_u32 (drop 4 bs))"
  "24 \<le> length bs \<Longrightarrow> take 24 bs =
     be_bytes (be_u32 bs) @ be_bytes (be_u32 (drop 4 bs)) @ be_bytes (be_u32 (drop 8 bs)) @ be_bytes (be_u32 (drop 12 bs))
     @ be_bytes (be_u32 (drop 16 bs)) @ be_bytes (be_u32 (drop 20 bs))"
  using take_add [of 4 4 bs] take_add [of 4 20 bs] take_add [of 4 16 "drop 4 bs"] take_add [of 4 12 "drop 8 bs"]
    take_add [of 4 8 "drop 12 bs"] take_add [of 4 4 "drop 16 bs"]
  by (simp_all add: be_bytes_be_u32)

lemma read_frame_ok:
  assumes "in_frames r" "page_bytes r mod 8 = 0" "read_frame (page_bytes r) r = Some (r', Ok f)"
  shows "r' = moved r f" "remaining r = reader_frame r f @ remaining r'" "length (snd (snd f)) = page_bytes r"
proof -
  let ?rem = "remaining r" and ?page = "take (page_bytes r) (drop 24 (remaining r))"
  have g: "24 + page_bytes r \<le> length ?rem" "be_u32 (drop 8 ?rem) = wr_salt1 r" "be_u32 (drop 12 ?rem) = wr_salt2 r"
    "checksum_loop (wr_big_endian r) (wr_chksum1 r) (wr_chksum2 r) (take 8 ?rem @ ?page) = (be_u32 (drop 16 ?rem), be_u32 (drop 20 ?rem))"
    "r' = r\<lparr>wr_chksum1 := be_u32 (drop 16 ?rem), wr_chksum2 := be_u32 (drop 20 ?rem), wr_frame_n := wr_frame_n r + 1\<rparr>"
    "f = (be_u32 ?rem, be_u32 (drop 4 ?rem), ?page)"
    using assms(3) by (auto simp: read_frame_view [OF assms(1,2)] Let_def split: if_splits)
  have sum: "frame_sum (wr_big_endian r) (wr_chksum1 r, wr_chksum2 r) f = (be_u32 (drop 16 ?rem), be_u32 (drop 20 ?rem))"
    using g(4) g(1) by (simp add: frame_sum_def g(6) take_words(1))
  then show r': "r' = moved r f" by (simp add: moved_def g(5) Let_def)
  show "length (snd (snd f)) = page_bytes r" using g(1) by (simp add: g(6))
  have "reader_frame r f = take 24 ?rem @ ?page"
    using g(1,2,3) by (simp add: reader_frame_def encode_frame_def sum take_words(2)) (simp add: g(6))
  then show "?rem = reader_frame r f @ remaining r'"
    unfolding r' remaining_moved [OF assms(1)] by (metis append.assoc append_take_drop_id drop_drop add.commute)
qed

lemma read_frame_encoded:
  assumes "in_frames r" "page_bytes r mod 8 = 0" "remaining r = reader_frame r f @ rest" "length (snd (snd f)) = page_bytes r"
  shows "read_frame (page_bytes r) r = Some (moved r f, Ok f)" "remaining (moved r f) = rest"
proof -
  obtain pgno commit page where f: "f = (pgno, commit, page)" by (cases f)
  obtain c0 c1 where c: "frame_sum (wr_big_endian r) (wr_chksum1 r, wr_chksum2 r) f = (c0, c1)" by fastforce
  have rem: "remaining r = be_bytes pgno @ be_bytes commit @ be_bytes (wr_salt1 r) @ be_bytes (wr_salt2 r)
      @ be_bytes c0 @ be_bytes c1 @ page @ rest"
    using assms(3) c by (simp add: reader_frame_def encode_frame_def f)
  have page: "take (page_bytes r) (drop 24 (remaining r)) = page" using assms(4) by (simp add: rem f)
  have sum: "checksum_loop (wr_big_endian r) (wr_chksum1 r) (wr_chksum2 r) (take 8 (remaining r) @ page) = (c0, c1)"
    using c by (simp add: frame_sum_def f rem)
  have "length (remaining r) = 24 + page_bytes r + length rest" using assms(4) by (simp add: rem f)
  then show "read_frame (page_bytes r) r = Some (moved r f, Ok f)"
    unfolding read_frame_view [OF assms(1,2)] Let_def page sum by (simp add: rem moved_def c [unfolded f] Let_def f)
  show "remaining (moved r f) = rest" using assms(4) by (simp add: remaining_moved [OF assms(1)] rem f)
qed

lemma read_frame_total:
  assumes "in_frames r" "page_bytes r mod 8 = 0"
  obtains (frame) r' f where "read_frame (page_bytes r) r = Some (r', Ok f)" | (eof) r' where "read_frame (page_bytes r) r = Some (r', Err Eof)"
  by (atomize_elim) (auto simp: read_frame_view [OF assms] Let_def)

section \<open>All frames\<close>

definition encode_from :: "wal_reader \<Rightarrow> wal_frame list \<Rightarrow> byte list" where
  "encode_from r fs = encode_frames (wr_big_endian r) (wr_salt1 r) (wr_salt2 r) (wr_chksum1 r, wr_chksum2 r) fs"

lemma encode_from_simps [simp]:
  "encode_from r [] = []" "encode_from r (f # fs) = reader_frame r f @ encode_from (moved r f) fs"
  by (simp_all add: encode_from_def reader_frame_def moved_def Let_def)

lemma frames_ok_simps [simp]:
  "frames_ok n []" "frames_ok n (f # fs) \<longleftrightarrow> length (snd (snd f)) = unat n \<and> frames_ok n fs"
  by (auto simp: frames_ok_def split: prod.split)

lemma read_all_sound:
  assumes "in_frames r" "page_bytes r mod 8 = 0"
  shows "frames_ok (wr_page_size r) (read_all r) \<and> (\<exists>rest. remaining r = encode_from r (read_all r) @ rest)"
  using assms
proof (induction r rule: read_all.induct)
  case (1 r)
  from "1.prems" show ?case
  proof (cases rule: read_frame_total)
    case (frame r' f)
    note ok = read_frame_ok [OF "1.prems" frame]
    have "in_frames r'" "page_bytes r' mod 8 = 0" using "1.prems" by (simp_all add: ok(1) in_frames_moved)
    with "1.IH" [OF frame, of r' "Ok f" f] obtain rest
      where "frames_ok (wr_page_size r') (read_all r')" "remaining r' = encode_from r' (read_all r') @ rest" by auto
    moreover have "read_all r = f # read_all r'" by (simp add: read_all.simps [of r] frame)
    ultimately show ?thesis using ok by (auto simp: page_bytes_def)
  next
    case (eof r')
    then show ?thesis by (simp add: read_all.simps [of r])
  qed
qed

lemma read_all_complete:
  assumes "in_frames r" "page_bytes r mod 8 = 0" "frames_ok (wr_page_size r) fs" "remaining r = encode_from r fs @ rest"
  shows "take (length fs) (read_all r) = fs"
  using assms
proof (induction fs arbitrary: r)
  case (Cons f fs)
  have "remaining r = reader_frame r f @ (encode_from (moved r f) fs @ rest)" "length (snd (snd f)) = page_bytes r"
    using Cons.prems(3,4) by (simp_all add: page_bytes_def)
  note ok = read_frame_encoded [OF Cons.prems(1,2) this]
  have "take (length fs) (read_all (moved r f)) = fs"
    by (rule Cons.IH) (use Cons.prems in \<open>simp_all add: in_frames_moved ok(2)\<close>)
  then show ?case by (simp add: read_all.simps [of r] ok(1))
qed simp

section \<open>The header\<close>

definition reader_of :: "wal_head \<Rightarrow> byte list \<Rightarrow> nat \<Rightarrow> wal_reader" where
  "reader_of h data tail_base =
     \<lparr>wr_data = data, wr_tail_base = tail_base, wr_frame_n = 0, wr_big_endian = wh_big_endian h, wr_page_size = wh_page_size h,
      wr_salt1 = wh_salt1 h, wr_salt2 = wh_salt2 h, wr_chksum1 = fst (head_sum h), wr_chksum2 = snd (head_sum h)\<rparr>"

lemma head_prefix_length [simp]: "length (head_prefix h) = 24" "length (encode_head h) = 32"
  by (simp_all add: head_prefix_def encode_head_def)

lemma head_words:
  "be_u32 (encode_head h) = (if wh_big_endian h then WAL_MAGIC_BIG_ENDIAN else WAL_MAGIC_LITTLE_ENDIAN)"
  "be_u32 (drop 4 (encode_head h)) = WAL_VERSION" "be_u32 (drop 8 (encode_head h)) = wh_page_size h"
  "be_u32 (drop 16 (encode_head h)) = wh_salt1 h" "be_u32 (drop 20 (encode_head h)) = wh_salt2 h"
  "be_u32 (drop 24 (encode_head h)) = fst (head_sum h)" "be_u32 (drop 28 (encode_head h)) = snd (head_sum h)"
  "take 24 (encode_head h) = head_prefix h"
  by (simp_all add: encode_head_def) (simp_all add: head_prefix_def)

lemma magic_distinct: "WAL_MAGIC_BIG_ENDIAN \<noteq> WAL_MAGIC_LITTLE_ENDIAN"
  by (simp add: WAL_MAGIC_BIG_ENDIAN_def WAL_MAGIC_LITTLE_ENDIAN_def)

lemma read_header_encoded: "new_with_offset_inner (encode_head h @ rest) tail_base = Some (Ok (reader_of h (encode_head h @ rest) tail_base))"
proof -
  obtain c0 c1 where c: "head_sum h = (c0, c1)" by fastforce
  then have "checksum_loop (wh_big_endian h) 0 0 (head_prefix h) = (c0, c1)" by (simp add: head_sum_def)
  then show ?thesis
    using magic_distinct
    by (cases "wh_big_endian h") (simp_all add: new_with_offset_inner_def read_header_def wal_read_at_def WAL_HEADER_SIZE_def Let_def
        head_words wal_checksum_def reader_of_def c)
qed

lemma read_header_ok:
  assumes "new_with_offset_inner data tail_base = Some (Ok r)"
  obtains h rest where "data = encode_head h @ rest" "r = reader_of h data tail_base"
proof -
  let ?h = "\<lparr>wh_big_endian = wr_big_endian r, wh_page_size = wr_page_size r, wh_sequence = be_u32 (drop 12 data),
    wh_salt1 = wr_salt1 r, wh_salt2 = wr_salt2 r\<rparr>"
  have len: "32 \<le> length data"
    using assms by (auto simp: new_with_offset_inner_def read_header_def wal_read_at_def WAL_HEADER_SIZE_def split: if_splits)
  have b: "be_u32 (drop k (take 32 data)) = be_u32 (drop k data)" if "k + 4 \<le> 32" for k
    using that by (simp add: drop_take be_u32_take)
  have b0: "be_u32 (take 32 data) = be_u32 data" by (simp add: be_u32_take)
  have t: "take 24 (take 32 data) = take 24 data" by simp
  obtain c0 c1 where c: "checksum_loop (be_u32 data = WAL_MAGIC_BIG_ENDIAN) 0 0 (take 24 data) = (c0, c1)" by fastforce
  have "be_u32 data = WAL_MAGIC_LITTLE_ENDIAN \<or> be_u32 data = WAL_MAGIC_BIG_ENDIAN" "c0 = be_u32 (drop 24 data)" "c1 = be_u32 (drop 28 data)"
    "be_u32 (drop 4 data) = WAL_VERSION"
    and r: "r = \<lparr>wr_data = data, wr_tail_base = tail_base, wr_frame_n = 0, wr_big_endian = (be_u32 data = WAL_MAGIC_BIG_ENDIAN),
      wr_page_size = be_u32 (drop 8 data), wr_salt1 = be_u32 (drop 16 data), wr_salt2 = be_u32 (drop 20 data),
      wr_chksum1 = c0, wr_chksum2 = c1\<rparr>"
    using assms len c b [of 4] b [of 8] b [of 16] b [of 20] b [of 24] b [of 28]
    by (simp_all add: new_with_offset_inner_def read_header_def wal_read_at_def WAL_HEADER_SIZE_def Let_def wal_checksum_def b0 t
        del: take_take split: if_splits)
  note g = this(1-4)
  have p: "head_prefix ?h = take 24 data"
    using g(1,4) magic_distinct len take_words(2) [of data] by (auto simp: head_prefix_def r)
  have "head_sum ?h = (c0, c1)" unfolding head_sum_def p using c by (simp add: r)
  moreover have "be_bytes (be_u32 (drop 24 data)) @ be_bytes (be_u32 (drop 28 data)) = take 8 (drop 24 data)"
    using len take_words(1) [of "drop 24 data"] by simp
  ultimately have "encode_head ?h = take 24 data @ take 8 (drop 24 data)"
    by (simp add: encode_head_def p g(2,3))
  moreover have "data = (take 24 data @ take 8 (drop 24 data)) @ drop 32 data"
    using append_take_drop_id [of 24 data] append_take_drop_id [of 8 "drop 24 data"] by simp
  ultimately have "data = encode_head ?h @ drop 32 data" by simp
  moreover have "r = reader_of ?h data tail_base"
    using \<open>head_sum ?h = (c0, c1)\<close> by (simp add: reader_of_def r)
  ultimately show thesis by (rule that)
qed

lemma wal_new_inner: "wal_new data = new_with_offset_inner data 0"
  by (simp add: wal_new_def new_with_offset_inner_def)

lemma reader_of_simps [simp]:
  "wr_data (reader_of h data t) = data" "wr_tail_base (reader_of h data t) = t" "wr_frame_n (reader_of h data t) = 0"
  "wr_page_size (reader_of h data t) = wh_page_size h" "page_bytes (reader_of h data t) = unat (wh_page_size h)"
  "in_frames (reader_of h data 0)" "remaining (reader_of h data 0) = drop 32 data"
  "encode_from (reader_of h data t) fs = encode_frames (wh_big_endian h) (wh_salt1 h) (wh_salt2 h) (head_sum h) fs"
  by (simp_all add: reader_of_def page_bytes_def in_frames_def remaining_def frame_at_def encode_from_def WAL_HEADER_SIZE_def)

section \<open>The page map\<close>

lemma committed_frames_Cons:
  "committed_frames [] = []"
  "committed_frames (f # fs) = (if committed_frames fs \<noteq> [] then f # committed_frames fs else if fst (snd f) \<noteq> 0 then [f] else [])"
  by (auto simp: committed_frames_def dropWhile_append split: prod.splits)

lemma placed_simps:
  "placed r [] = []" "placed r (f # fs) = (fst f, frame_at r) # placed (moved r f) fs"
proof -
  have "frame_at (moved r f) = frame_at r + frame_size r" "frame_size (moved r f) = frame_size r"
    by (simp_all add: frame_at_def frame_size_def algebra_simps)
  then show "placed r (f # fs) = (fst f, frame_at r) # placed (moved r f) fs"
    by (simp add: placed_def enumerate_Suc_eq apfst_def map_prod_def split_def algebra_simps)
qed (simp add: placed_def)

lemma latest_Nil [simp]: "latest r [] p = None"
  by (simp add: latest_def placed_simps)

lemma latest_Cons:
  "latest r (f # fs) p = (case latest (moved r f) fs p of Some x \<Rightarrow> Some x | None \<Rightarrow> if p = fst f then Some (frame_at r) else None)"
  by (auto simp: latest_def placed_simps map_add_def split: option.split)

lemma promote_get: "bm_ok tx \<Longrightarrow> bm_get (promote tx m) p = (case bm_get tx p of Some x \<Rightarrow> Some x | None \<Rightarrow> bm_get m p)"
proof (induction tx arbitrary: m)
  case (Cons kv tx)
  obtain k v where kv: "kv = (k, v)" by (cases kv)
  have "bm_ok tx" "bm_get tx k = None" using Cons.prems by (auto simp: kv bm_ok_Cons map_of_eq_None_iff)
  then show ?case using Cons.IH [of "bm_insert k v m"] by (auto simp: promote_def kv bm_get_insert split: option.split)
qed (simp add: promote_def)

lemma promote_ok: "bm_ok m \<Longrightarrow> bm_ok (promote tx m)"
  by (induction tx arbitrary: m) (auto simp: promote_def)

lemma wal_offset_moved: "in_frames r \<Longrightarrow> wal_offset (moved r f) = frame_at r"
  by (simp add: wal_offset_def in_frames_def frame_at_def frame_size_def add.commute)

definition loop_spec ::
  "wal_reader \<Rightarrow> page_offsets \<Rightarrow> page_offsets \<Rightarrow> u32 \<Rightarrow> page_offsets \<Rightarrow> u32 \<Rightarrow> bool" where
  "loop_spec r m tx commit m' commit' \<longleftrightarrow>
     (if committed_frames (read_all r) = [] then m' = m \<and> commit' = commit
      else commit' = final_size (committed_frames (read_all r)) \<and>
        (\<forall>p. bm_get m' p = (case latest r (committed_frames (read_all r)) p of
           Some x \<Rightarrow> Some x | None \<Rightarrow> (case bm_get tx p of Some x \<Rightarrow> Some x | None \<Rightarrow> bm_get m p))))"

lemma page_map_loop_exact:
  assumes "in_frames r" "page_bytes r mod 8 = 0" "bm_ok m" "bm_ok tx"
  shows "\<exists>r' m' commit'. page_map_loop m tx commit r = Some (r', Ok (m', commit')) \<and> wr_page_size r' = wr_page_size r \<and> bm_ok m' \<and>
    loop_spec r m tx commit m' commit'"
  using assms
proof (induction r arbitrary: m tx commit rule: read_all.induct)
  case (1 r)
  from "1.prems"(1,2) show ?case
  proof (cases rule: read_frame_total)
    case (eof r')
    have "wr_page_size r' = wr_page_size r"
      using eof by (auto simp: read_frame_view [OF "1.prems"(1,2)] Let_def split: if_splits)
    then show ?thesis
      using eof "1.prems" by (simp add: page_map_loop.simps [of m tx commit r] read_all.simps [of r] page_bytes_def committed_frames_Cons loop_spec_def)
  next
    case (frame r' f)
    obtain pgno fcommit page where f: "f = (pgno, fcommit, page)" by (cases f)
    note ok = read_frame_ok(1) [OF "1.prems"(1,2) frame]
    have ra: "read_all r = f # read_all r'" by (simp add: read_all.simps [of r] frame)
    define tx' where "tx' = bm_insert pgno (wal_offset r') tx"
    have tx: "bm_ok tx'" "bm_get tx' p = (if p = pgno then Some (frame_at r) else bm_get tx p)" for p
      using "1.prems" by (simp_all add: tx'_def bm_get_insert ok wal_offset_moved)
    have r': "in_frames r'" "page_bytes r' mod 8 = 0" "wr_page_size r' = wr_page_size r"
      using "1.prems" by (simp_all add: ok in_frames_moved)
    have loop: "page_map_loop m tx commit r =
        (if fcommit \<noteq> 0 then page_map_loop (promote tx' m) [] fcommit r' else page_map_loop m tx' commit r')"
      using frame by (simp add: page_map_loop.simps [of m tx commit r] f page_bytes_def tx'_def)
    note IH = "1.IH" [OF frame refl refl]
    let ?cs = "committed_frames (read_all r')"
    have cs: "committed_frames (read_all r) = (if ?cs \<noteq> [] then f # ?cs else if fcommit \<noteq> 0 then [f] else [])"
      by (simp add: ra committed_frames_Cons f)
    have last: "?cs \<noteq> [] \<Longrightarrow> final_size (f # ?cs) = final_size ?cs" by (simp add: final_size_def)
    have lat: "latest r (f # gs) p = (case latest r' gs p of Some x \<Rightarrow> Some x | None \<Rightarrow> if p = pgno then Some (frame_at r) else None)" for gs p
      by (simp add: latest_Cons ok f)
    show ?thesis
    proof (cases "fcommit = 0")
      case True
      obtain t m' c' where t: "page_map_loop m tx' commit r' = Some (t, Ok (m', c'))" "wr_page_size t = wr_page_size r'" "bm_ok m'"
        and spec: "loop_spec r' m tx' commit m' c'"
        using IH [OF r'(1,2) "1.prems"(3) tx(1), of commit] by blast
      have "bm_get m' p = (case latest r (f # ?cs) p of
          Some x \<Rightarrow> Some x | None \<Rightarrow> (case bm_get tx p of Some x \<Rightarrow> Some x | None \<Rightarrow> bm_get m p))" if "?cs \<noteq> []" for p
        using spec that by (simp add: loop_spec_def lat tx(2) split: option.split)
      then show ?thesis using t spec last r'(3) by (cases "?cs = []") (simp_all add: loop True cs loop_spec_def)
    next
      case False
      obtain t m' c' where t: "page_map_loop (promote tx' m) [] fcommit r' = Some (t, Ok (m', c'))" "wr_page_size t = wr_page_size r'" "bm_ok m'"
        and spec: "loop_spec r' (promote tx' m) [] fcommit m' c'"
        using IH [OF r'(1,2) promote_ok [OF "1.prems"(3)] bm_ok_Nil, of tx' fcommit] by blast
      have "bm_get m' p = (case latest r (if ?cs = [] then [f] else f # ?cs) p of
          Some x \<Rightarrow> Some x | None \<Rightarrow> (case bm_get tx p of Some x \<Rightarrow> Some x | None \<Rightarrow> bm_get m p))" for p
        using spec by (cases "?cs = []") (simp_all add: loop_spec_def lat tx(2) promote_get [OF tx(1)] split: option.split)
      moreover have "c' = final_size (if ?cs = [] then [f] else f # ?cs)" using spec last by (cases "?cs = []") (simp_all add: loop_spec_def final_size_def f)
      ultimately show ?thesis using t r'(3) False by (simp add: loop cs loop_spec_def)
    qed
  qed
qed

lemma placed_snoc: "placed r (fs @ [f]) = placed r fs @ [(fst f, frame_at r + int (length fs) * frame_size r)]"
  by (simp add: placed_def enumerate_append_eq)

lemma latest_last:
  assumes "fs \<noteq> []"
  shows "latest r fs (fst (List.last fs)) = Some (frame_at r + (int (length fs) - 1) * frame_size r)"
  using assms by (cases fs rule: rev_cases) (simp_all add: latest_def placed_snoc)

lemma latest_range:
  assumes "latest r fs p = Some x" "0 \<le> wr_frame_n r"
  shows "0 < x" "x \<le> frame_at r + (int (length fs) - 1) * frame_size r"
proof -
  obtain k where k: "k < length fs" "x = frame_at r + int k * frame_size r"
    using map_of_SomeD [OF assms(1) [unfolded latest_def]] by (auto simp: placed_def in_set_enumerate_eq)
  have "0 \<le> frame_size r" "0 < frame_at r" using assms(2) by (simp_all add: frame_at_def frame_size_def WAL_HEADER_SIZE_def add_pos_nonneg)
  moreover have "int k * frame_size r \<le> (int (length fs) - 1) * frame_size r"
    using k(1) \<open>0 \<le> frame_size r\<close> by (intro mult_right_mono) simp_all
  ultimately show "0 < x" "x \<le> frame_at r + (int (length fs) - 1) * frame_size r" by (simp_all add: k(2) add_pos_nonneg)
qed

lemma top_fold:
  fixes m :: page_offsets
  assumes "\<forall>(p, x)\<in>set m. 0 < x" "0 \<le> t" "t' = fold (\<lambda>(_, offset) top. if top = 0 \<or> top < offset then offset else top) m t"
  shows "t \<le> t' \<and> (\<forall>(p, x)\<in>set m. x \<le> t') \<and> (t' = t \<or> (\<exists>p. (p, t') \<in> set m))"
  using assms
proof (induction m arbitrary: t)
  case (Cons px m)
  obtain p x where px: "px = (p, x)" by (cases px)
  let ?t = "if t = 0 \<or> t < x then x else t"
  have "0 \<le> ?t" "t \<le> ?t" "x \<le> ?t" "?t = t \<or> ?t = x" using Cons.prems by (auto simp: px)
  moreover have "t' = fold (\<lambda>(_, offset) top. if top = 0 \<or> top < offset then offset else top) m ?t" using Cons.prems(3) by (simp add: px)
  ultimately have "?t \<le> t' \<and> (\<forall>(p, x)\<in>set m. x \<le> t') \<and> (t' = ?t \<or> (\<exists>p. (p, t') \<in> set m))"
    using Cons.IH [of ?t] Cons.prems(1) by simp
  then show ?case using \<open>t \<le> ?t\<close> \<open>x \<le> ?t\<close> \<open>?t = t \<or> ?t = x\<close> by (fastforce simp: px)
qed simp

lemma map_of_filter_key: "map_of (filter (\<lambda>(k, _). P k) m) k = (if P k then map_of m k else None)"
  by (induction m) auto

end
