(* ===== verification/WalResume.thy ===== *)
theory WalResume
  imports WalLaws
begin

text \<open>
  Readers that resume in the middle of a log, and the properties of the WAL reader as a whole. Two readers are twins when
  they see the same remaining frames under the same checksum, wherever their bytes come from: a reader over the whole
  file and one over its header and tail are.
\<close>

section \<open>Readers that see the same frames\<close>

definition twin :: "wal_reader \<Rightarrow> wal_reader \<Rightarrow> bool" where
  "twin r t \<longleftrightarrow> in_frames r \<and> in_frames t \<and> remaining t = remaining r \<and> wr_frame_n t = wr_frame_n r
     \<and> wr_big_endian t = wr_big_endian r \<and> wr_page_size t = wr_page_size r \<and> wr_salt1 t = wr_salt1 r \<and> wr_salt2 t = wr_salt2 r
     \<and> wr_chksum1 t = wr_chksum1 r \<and> wr_chksum2 t = wr_chksum2 r"

lemma twin_sym: "twin r t \<Longrightarrow> twin t r"
  by (simp add: twin_def)

lemma twin_read:
  assumes "twin r t" "page_bytes r mod 8 = 0" "read_frame (page_bytes r) r = Some (r', Ok f)"
  shows "read_frame (page_bytes t) t = Some (moved t f, Ok f)" "twin r' (moved t f)"
proof -
  have i: "in_frames r" "in_frames t" "page_bytes t = page_bytes r" using assms(1) by (simp_all add: twin_def page_bytes_def)
  note ok = read_frame_ok [OF i(1) assms(2,3)]
  have "remaining t = reader_frame t f @ remaining r'"
    using assms(1) ok(2) by (simp add: twin_def reader_frame_def)
  note enc = read_frame_encoded [OF i(2) _ this]
  show "read_frame (page_bytes t) t = Some (moved t f, Ok f)" using enc(1) assms(2) i(3) ok(3) by simp
  show "twin r' (moved t f)"
    using enc(2) assms i(3) ok(3) in_frames_moved [OF i(1)] in_frames_moved [OF i(2)]
    by (simp add: twin_def ok(1)) (simp add: moved_def Let_def)
qed

lemma twin_page_map_loop:
  assumes "twin r t" "page_bytes r mod 8 = 0"
  shows "map_option snd (page_map_loop m tx commit t) = map_option snd (page_map_loop m tx commit r)"
  using assms
proof (induction r arbitrary: t m tx commit rule: read_all.induct)
  case (1 r)
  have i: "in_frames r" "in_frames t" "page_bytes t mod 8 = 0" "page_bytes t = page_bytes r"
    using "1.prems" by (simp_all add: twin_def page_bytes_def)
  from i(1) "1.prems"(2) show ?case
  proof (cases rule: read_frame_total)
    case (frame r' f)
    note tw = twin_read [OF "1.prems" frame]
    have "page_bytes r' mod 8 = 0" using "1.prems"(2) read_frame_ok(1) [OF i(1) "1.prems"(2) frame] by simp
    note IH = "1.IH" [OF frame refl refl tw(2) this]
    have "wal_offset (moved t f) = wal_offset r'"
      using tw(2) by (simp add: twin_def wal_offset_def)
    then have loops: "page_map_loop m tx commit r =
        (if fcommit \<noteq> 0 then page_map_loop (promote tx' m) [] fcommit r' else page_map_loop m tx' commit r')"
      "page_map_loop m tx commit t =
        (if fcommit \<noteq> 0 then page_map_loop (promote tx' m) [] fcommit (moved t f) else page_map_loop m tx' commit (moved t f))"
      if "f = (pgno, fcommit, page)" "tx' = bm_insert pgno (wal_offset r') tx" for pgno fcommit page tx'
      using frame tw(1) that
      by (simp_all only: page_map_loop.simps [of m tx commit r] page_map_loop.simps [of m tx commit t] page_bytes_def
          option.case prod.case result.case Let_def)
    obtain pgno fcommit page where f: "f = (pgno, fcommit, page)" by (rule prod_cases3)
    show ?thesis
      unfolding loops [OF f refl] by (cases "fcommit = 0") (simp_all add: IH)
  next
    case (eof r')
    from i(2,3) obtain t' where "read_frame (page_bytes t) t = Some (t', Err Eof)"
    proof (cases rule: read_frame_total)
      case (frame t' f)
      then show thesis using twin_read(1) [OF twin_sym [OF "1.prems"(1)] i(3) frame] eof by simp
    next
      case (eof t')
      then show thesis by (rule that)
    qed
    then have "page_map_loop m tx commit t = Some (t', Ok (m, commit))"
      by (simp add: page_map_loop.simps [of m tx commit t] page_bytes_def)
    moreover have "page_map_loop m tx commit r = Some (r', Ok (m, commit))"
      using eof by (simp add: page_map_loop.simps [of m tx commit r] page_bytes_def)
    ultimately show ?thesis by simp
  qed
qed

lemma twin_page_map:
  assumes "twin r t" "page_bytes r mod 8 = 0"
  shows "map_option snd (page_map t) = map_option snd (page_map r)"
proof -
  have i: "in_frames r" "in_frames t" "page_bytes t mod 8 = 0" using assms by (simp_all add: twin_def page_bytes_def)
  obtain r' m c where r: "page_map_loop [] [] 0 r = Some (r', Ok (m, c))" "wr_page_size r' = wr_page_size r"
    using page_map_loop_exact [OF i(1) assms(2) bm_ok_Nil bm_ok_Nil] by blast
  obtain t' m' c' where t: "page_map_loop [] [] 0 t = Some (t', Ok (m', c'))" "wr_page_size t' = wr_page_size t"
    using page_map_loop_exact [OF i(2,3) bm_ok_Nil bm_ok_Nil] by blast
  have "m' = m" "c' = c" using twin_page_map_loop [OF assms, of "[]" "[]" 0] r t by simp_all
  then show ?thesis using r t assms(1) by (simp add: page_map_def Let_def twin_def)
qed

lemma read_unchecked:
  assumes "in_frames r" "24 + page_bytes r \<le> length (remaining r)" "be_u32 (drop 8 (remaining r)) = wr_salt1 r" "be_u32 (drop 12 (remaining r)) = wr_salt2 r"
  shows "\<exists>f. read_frame_inner (page_bytes r) False r = Some (r\<lparr>wr_chksum1 := be_u32 (drop 16 (remaining r)),
    wr_chksum2 := be_u32 (drop 20 (remaining r)), wr_frame_n := wr_frame_n r + 1\<rparr>, Ok f)"
proof -
  have b: "be_u32 (drop k (take 24 (remaining r))) = be_u32 (drop k (remaining r))" if "k + 4 \<le> 24" for k
    using that by (simp add: drop_take be_u32_take)
  show ?thesis
    using assms(2-4) b [of 8] b [of 12] b [of 16] b [of 20] read_at_frame [OF assms(1), of 0 24] read_at_frame [OF assms(1), of 24 "page_bytes r"]
    by (simp add: read_frame_inner_def WAL_FRAME_HEADER_SIZE_def page_bytes_def [symmetric] Let_def)
qed

lemma seek_resumes:
  assumes "in_frames p" "page_bytes p mod 8 = 0" "read_frame (page_bytes p) p = Some (r, Ok f)"
    and b: "b' = b\<lparr>wr_salt1 := wr_salt1 p, wr_salt2 := wr_salt2 p, wr_frame_n := wr_frame_n p\<rparr>" "in_frames b'"
      "wr_page_size b = wr_page_size p" "remaining b' = remaining p"
  shows "seek_to_offset (frame_at r) (wr_salt1 p) (wr_salt2 p) b =
    Some (Ok (b'\<lparr>wr_chksum1 := wr_chksum1 r, wr_chksum2 := wr_chksum2 r, wr_frame_n := wr_frame_n r\<rparr>))"
proof -
  note ok = read_frame_ok(1) [OF assms(1-3)]
  have fs: "frame_size (b\<lparr>wr_salt1 := x, wr_salt2 := y\<rparr>) = frame_size p" for x y by (simp add: frame_size_def b(3))
  have pos: "0 < frame_size p" by (simp add: frame_size_def WAL_FRAME_HEADER_SIZE_def add_nonneg_pos)
  have at: "frame_at r - int WAL_HEADER_SIZE = (wr_frame_n p + 1) * frame_size p"
    by (simp add: ok frame_at_def frame_size_def)
  have g: "24 + page_bytes p \<le> length (remaining p)" "be_u32 (drop 8 (remaining p)) = wr_salt1 p" "be_u32 (drop 12 (remaining p)) = wr_salt2 p"
    "be_u32 (drop 16 (remaining p)) = wr_chksum1 r" "be_u32 (drop 20 (remaining p)) = wr_chksum2 r" "wr_frame_n r = wr_frame_n p + 1"
    using assms(3) by (auto simp: read_frame_view [OF assms(1,2)] Let_def split: if_splits)
  have sb: "wr_salt1 b' = wr_salt1 p" "wr_salt2 b' = wr_salt2 p" "wr_frame_n b' = wr_frame_n p" "page_bytes b' = page_bytes p"
    "unat (wr_page_size b') = page_bytes p"
    by (simp_all add: b(1,3) page_bytes_def)
  have r2: "b\<lparr>wr_salt1 := wr_salt1 p, wr_salt2 := wr_salt2 p\<rparr>\<lparr>wr_frame_n := wr_frame_n p\<rparr> = b'" by (simp add: b(1))
  have dm: "(wr_frame_n p + 1) * frame_size p mod frame_size p = 0" "(wr_frame_n p + 1) * frame_size p div frame_size p - 1 = wr_frame_n p"
    using pos by simp_all
  obtain f' where "read_frame_inner (page_bytes p) False b' = Some (b'\<lparr>wr_chksum1 := wr_chksum1 r, wr_chksum2 := wr_chksum2 r,
      wr_frame_n := wr_frame_n r\<rparr>, Ok f')"
    using read_unchecked [OF b(2), unfolded b(4) sb g(4,5) g(6) [symmetric]] g(1-3) by blast
  then show ?thesis
    unfolding seek_to_offset_def Let_def fs at dm r2 sb(5) by simp
qed

lemma read_some_moves:
  assumes "read_some n r = Some r'" "in_frames r" "page_bytes r mod 8 = 0"
  shows "in_frames r' \<and> wr_frame_n r' = wr_frame_n r + int n \<and> wr_data r' = wr_data r \<and> wr_tail_base r' = wr_tail_base r
    \<and> wr_page_size r' = wr_page_size r \<and> wr_big_endian r' = wr_big_endian r \<and> wr_salt1 r' = wr_salt1 r \<and> wr_salt2 r' = wr_salt2 r"
  using assms
proof (induction n arbitrary: r)
  case (Suc n)
  obtain s f where s: "read_frame (page_bytes r) r = Some (s, Ok f)" "read_some n s = Some r'"
    using Suc.prems(1) by (auto split: option.splits result.splits)
  note ok = read_frame_ok(1) [OF Suc.prems(2,3) s(1)]
  show ?case using Suc.IH [OF s(2)] Suc.prems(2,3) by (simp add: ok in_frames_moved)
qed simp

lemma read_some_last:
  assumes "read_some (Suc n) r = Some r'"
  obtains p f where "read_some n r = Some p" "read_frame (page_bytes p) p = Some (r', Ok f)"
  using assms
proof (induction n arbitrary: r thesis)
  case 0
  then show ?case by (auto split: option.splits result.splits)
next
  case (Suc n)
  obtain s f where s: "read_frame (page_bytes r) r = Some (s, Ok f)" "read_some (Suc n) s = Some r'"
    using Suc.prems(2) by (auto split: option.splits result.splits)
  obtain p g where "read_some n s = Some p" "read_frame (page_bytes p) p = Some (r', Ok g)" using Suc.IH [OF _ s(2)] by blast
  then show ?case using s(1) by (intro Suc.prems(1) [of p g]) simp_all
qed

lemma reader_of_head [simp]:
  "wr_big_endian (reader_of h data t) = wh_big_endian h" "wr_salt1 (reader_of h data t) = wh_salt1 h" "wr_salt2 (reader_of h data t) = wh_salt2 h"
  by (simp_all add: reader_of_def)

lemma tail_drop:
  assumes "length head = 32" "int tb \<le> x"
  shows "drop (nat (x - int tb + 32)) (head @ drop tb data) = drop (nat x) data"
proof -
  have "nat (x - int tb + 32) = 32 + (nat x - tb)" "nat x = tb + (nat x - tb)" using assms(2) by linarith+
  then have "drop (nat (x - int tb + 32)) (head @ drop tb data) = drop (nat x - tb) (drop tb data)" using assms(1) by simp
  also have "\<dots> = drop (nat x) data" using \<open>nat x = tb + (nat x - tb)\<close> by (metis add.commute drop_drop)
  finally show ?thesis .
qed

text \<open>The reader before its last frame, and what it shares with the one at the start.\<close>

lemma before_last_frame:
  assumes "read_some (Suc n) (reader_of h data 0) = Some r" "unat (wh_page_size h) mod 8 = 0"
  obtains p f where "read_frame (page_bytes p) p = Some (r, Ok f)" "in_frames p" "page_bytes p mod 8 = 0" "r = moved p f"
    "wr_frame_n p = int n" "wr_data p = data" "wr_tail_base p = 0" "wr_page_size p = wh_page_size h" "wr_big_endian p = wh_big_endian h"
    "wr_salt1 p = wh_salt1 h" "wr_salt2 p = wh_salt2 h" "frame_at r = frame_at p + frame_size p" "frame_size r = frame_size p"
proof -
  obtain p f where p: "read_some n (reader_of h data 0) = Some p" "read_frame (page_bytes p) p = Some (r, Ok f)"
    using read_some_last [OF assms(1)] by blast
  have q: "in_frames p" "wr_frame_n p = int n" "wr_data p = data" "wr_tail_base p = 0" "wr_page_size p = wh_page_size h"
    "wr_big_endian p = wh_big_endian h" "wr_salt1 p = wh_salt1 h" "wr_salt2 p = wh_salt2 h"
    using read_some_moves [OF p(1)] assms(2) by simp_all
  have b: "page_bytes p mod 8 = 0" using q(5) assms(2) by (simp add: page_bytes_def)
  note m = read_frame_ok(1) [OF q(1) b p(2)]
  have at: "frame_at r = frame_at p + frame_size p" "frame_size r = frame_size p"
    by (simp_all add: m frame_at_def frame_size_def algebra_simps)
  show thesis by (rule that [OF p(2) q(1) b m q(2-8) at])
qed

lemma resume_whole:
  assumes "read_some (Suc n) (reader_of h data 0) = Some r" "unat (wh_page_size h) mod 8 = 0"
    "new_with_offset_inner data 0 = Some (Ok (reader_of h data 0))"
  shows "new_with_offset data (frame_at r) (wh_salt1 h) (wh_salt2 h) = Some (Ok r)"
proof -
  from assms(1,2) obtain p f where p: "read_frame (page_bytes p) p = Some (r, Ok f)" "in_frames p" "page_bytes p mod 8 = 0" "r = moved p f"
    "wr_frame_n p = int n" "wr_data p = data" "wr_tail_base p = 0" "wr_page_size p = wh_page_size h" "wr_big_endian p = wh_big_endian h"
    "wr_salt1 p = wh_salt1 h" "wr_salt2 p = wh_salt2 h" "frame_at r = frame_at p + frame_size p"
    by (rule before_last_frame)
  let ?b = "reader_of h data 0"
  let ?b' = "?b\<lparr>wr_salt1 := wr_salt1 p, wr_salt2 := wr_salt2 p, wr_frame_n := wr_frame_n p\<rparr>"
  have "frame_at ?b' = frame_at p" using p(5,8) by (simp add: frame_at_def frame_size_def)
  then have "in_frames ?b'" "remaining ?b' = remaining p"
    using p(2,5,6,7) by (simp_all add: in_frames_def remaining_def)
  note seek = seek_resumes [OF p(2,3,1) refl this(1) _ this(2)]
  have "?b'\<lparr>wr_chksum1 := wr_chksum1 r, wr_chksum2 := wr_chksum2 r, wr_frame_n := wr_frame_n r\<rparr> = r"
    by (rule wal_reader.equality) (simp_all add: p)
  moreover have "32 < frame_at r"
  proof -
    have "32 \<le> frame_at p" using p(2) by (simp add: in_frames_def frame_at_def frame_size_def WAL_HEADER_SIZE_def)
    moreover have "0 < frame_size p" by (simp add: frame_size_def WAL_FRAME_HEADER_SIZE_def add_nonneg_pos)
    ultimately show ?thesis by (simp add: p(12))
  qed
  ultimately show ?thesis using seek p(8,10,11) assms(3) by (simp add: new_with_offset_def WAL_HEADER_SIZE_def)
qed

lemma resume_tail:
  assumes "read_some (Suc n) (reader_of h data 0) = Some r" "unat (wh_page_size h) mod 8 = 0" "data = encode_head h @ rest"
    and "32 \<le> tb" "tb \<le> frame_at r - frame_size r"
  shows "\<exists>t. new_with_offset_over_tail (take 32 data @ drop (nat tb) data) tb (frame_at r) (wh_salt1 h) (wh_salt2 h) = Some (Ok t) \<and> twin r t"
proof -
  from assms(1,2) obtain p f where p: "read_frame (page_bytes p) p = Some (r, Ok f)" "in_frames p" "page_bytes p mod 8 = 0" "r = moved p f"
    "wr_frame_n p = int n" "wr_data p = data" "wr_tail_base p = 0" "wr_page_size p = wh_page_size h" "wr_big_endian p = wh_big_endian h"
    "wr_salt1 p = wh_salt1 h" "wr_salt2 p = wh_salt2 h" "frame_at r = frame_at p + frame_size p" "frame_size r = frame_size p"
    by (rule before_last_frame)
  define image where "image = encode_head h @ drop (nat tb) data"
  have im: "take 32 data @ drop (nat tb) data = image" by (simp add: image_def assms(3))
  let ?b = "reader_of h image (nat tb)"
  let ?b' = "?b\<lparr>wr_salt1 := wr_salt1 p, wr_salt2 := wr_salt2 p, wr_frame_n := wr_frame_n p\<rparr>"
  let ?t = "?b'\<lparr>wr_chksum1 := wr_chksum1 r, wr_chksum2 := wr_chksum2 r, wr_frame_n := wr_frame_n r\<rparr>"
  have at: "frame_at ?b' = frame_at p" "frame_at ?t = frame_at r" "0 \<le> frame_size p"
    using p(4,5,8) by (simp_all add: frame_at_def frame_size_def)
  have le: "tb \<le> frame_at p" "tb \<le> frame_at r" using assms(5) p(12,13) at(3) by linarith+
  have tail: "drop (nat (x - tb + 32)) image = drop (nat x) data" if "tb \<le> x" for x
    using tail_drop [of "encode_head h" "nat tb" x data] assms(4) that by (simp add: image_def)
  have "in_frames ?b'" "remaining ?b' = remaining p" "in_frames ?t" "remaining ?t = remaining r"
    using le at assms(4) p(2,4,5,6,7) tail by (simp_all add: in_frames_def remaining_def WAL_HEADER_SIZE_def)
  note seek = seek_resumes [OF p(2,3,1) refl this(1) _ this(2)] and t = this(3,4)
  have "twin r ?t"
    using t p(2,4,8,9,10,11) in_frames_moved [OF p(2)] by (simp add: twin_def)
  moreover have "new_with_offset_over_tail image tb (frame_at r) (wh_salt1 h) (wh_salt2 h) = Some (Ok ?t)"
    using seek p(8,10,11) le(2) assms(4) read_header_encoded [of h "drop (nat tb) data" "nat tb"]
    by (simp add: new_with_offset_over_tail_def WAL_HEADER_SIZE_def image_def)
  ultimately show ?thesis unfolding im by blast
qed

section \<open>The scan of salts\<close>

lemma salts_scan_agree:
  assumes "\<And>x. 0 \<le> x \<Longrightarrow> f x = g x" "\<And>x. f x \<noteq> None \<Longrightarrow> x \<le> L" "0 < step" "0 \<le> x"
  shows "salts_scan until f step x m = salts_scan until g step x m \<and> salts_scan until f step x m \<noteq> None"
  using assms(4)
proof (induction "nat (L + 1 - x)" arbitrary: x m rule: less_induct)
  case less
  show ?case
  proof (cases "f x")
    case None
    then show ?thesis using assms(1) [OF less.prems] by (simp add: salts_scan.simps [of until f] salts_scan.simps [of until g])
  next
    case (Some hdr)
    then have "x \<le> L" using assms(2) by blast
    then have "nat (L + 1 - (x + step)) < nat (L + 1 - x)" using assms(3) by linarith
    note IH = less.hyps [OF this]
    let ?salt = "(be_u32 (drop 8 hdr), be_u32 (drop 12 hdr))"
    have A: "salts_scan until f step (x + step) (insert ?salt m) = salts_scan until g step (x + step) (insert ?salt m)
        \<and> salts_scan until f step (x + step) (insert ?salt m) \<noteq> None"
      by (rule IH) (use less.prems assms(3) in simp)
    have B: "salts_scan until h step x m = (if ?salt = until then Some (insert ?salt m)
        else salts_scan until h step (x + step) (insert ?salt m))" if "h x = Some hdr" for h
      using that by (simp add: salts_scan.simps [of until h step x] Let_def)
    have "f x = Some hdr" "g x = Some hdr" using Some assms(1) [OF less.prems] by simp_all
    then show ?thesis
      using A [THEN conjunct1] A [THEN conjunct2] unfolding B [of f, OF \<open>f x = Some hdr\<close>] B [of g, OF \<open>g x = Some hdr\<close>]
      by (cases "?salt = until") (simp_all only: if_True if_False simp_thms option.distinct not_False_eq_True)
  qed
qed

lemma read_header_data:
  assumes "wal_read_at r 0 WAL_HEADER_SIZE = Some hdr" "wal_read_at (r\<lparr>wr_data := d\<rparr>) 0 WAL_HEADER_SIZE = Some hdr" "length hdr = 32"
  shows "\<exists>x. read_header r = Some x \<and> read_header (r\<lparr>wr_data := d\<rparr>) = Some (case x of Ok q \<Rightarrow> Ok (q\<lparr>wr_data := d\<rparr>) | Err e \<Rightarrow> Err e)
    \<and> (case x of Ok q \<Rightarrow> wr_data q = wr_data r \<and> wr_tail_base q = wr_tail_base r | Err _ \<Rightarrow> True)"
proof -
  obtain c0 c1 where "checksum_loop (be_u32 hdr = WAL_MAGIC_BIG_ENDIAN) 0 0 (take 24 hdr) = (c0, c1)" by fastforce
  then have "wal_checksum (be_u32 hdr = WAL_MAGIC_BIG_ENDIAN) 0 0 (take 24 hdr) = Some (c0, c1)" using assms(3) by (simp add: wal_checksum_def)
  then show ?thesis
    unfolding read_header_def assms(1,2) option.case Let_def
    by (cases "be_u32 hdr \<noteq> WAL_MAGIC_LITTLE_ENDIAN \<and> be_u32 hdr \<noteq> WAL_MAGIC_BIG_ENDIAN")
      (simp_all only: if_True if_False option.case prod.case, simp_all)
qed

lemma header_is_local:
  assumes "32 \<le> length bytes"
  obtains e where "wal_new bytes = Some (Err e)" "wal_new (take 32 bytes) = Some (Err e)"
  | r where "wal_new bytes = Some (Ok r)" "wal_new (take 32 bytes) = Some (Ok (r\<lparr>wr_data := take 32 bytes\<rparr>))"
      "wr_data r = bytes" "wr_tail_base r = 0"
proof -
  define b where "b = \<lparr>wr_data = bytes, wr_tail_base = 0, wr_frame_n = 0, wr_big_endian = False, wr_page_size = 0,
       wr_salt1 = 0, wr_salt2 = 0, wr_chksum1 = 0, wr_chksum2 = 0\<rparr>"
  have "wal_read_at b 0 WAL_HEADER_SIZE = Some (take 32 bytes)" "wal_read_at (b\<lparr>wr_data := take 32 bytes\<rparr>) 0 WAL_HEADER_SIZE = Some (take 32 bytes)"
    using assms by (simp_all add: b_def wal_read_at_def WAL_HEADER_SIZE_def)
  then obtain x where x: "read_header b = Some x"
    "read_header (b\<lparr>wr_data := take 32 bytes\<rparr>) = Some (case x of Ok q \<Rightarrow> Ok (q\<lparr>wr_data := take 32 bytes\<rparr>) | Err e \<Rightarrow> Err e)"
    "case x of Ok q \<Rightarrow> wr_data q = wr_data b \<and> wr_tail_base q = wr_tail_base b | Err _ \<Rightarrow> True"
    using read_header_data [of b "take 32 bytes" "take 32 bytes"] assms by auto
  moreover have "wal_new bytes = read_header b" "wal_new (take 32 bytes) = read_header (b\<lparr>wr_data := take 32 bytes\<rparr>)"
    by (simp_all add: wal_new_def b_def)
  moreover have "wr_data b = bytes" "wr_tail_base b = 0" by (simp_all add: b_def)
  ultimately show thesis using that by (cases x) simp_all
qed

lemma salts_in_file_as_in_memory:
  "frame_salts_until_in_file bytes until =
     (case wal_new bytes of
        None \<Rightarrow> None
      | Some (Err e) \<Rightarrow> Some (Err e)
      | Some (Ok r) \<Rightarrow> map_option Ok (frame_salts_until until r))
   \<and> frame_salts_until_in_file bytes until \<noteq> None"
proof (cases "length bytes < 32")
  case True
  then show ?thesis
    by (simp add: frame_salts_until_in_file_def wal_new_def read_header_def wal_read_at_def WAL_HEADER_SIZE_def)
next
  case False
  then have "32 \<le> length bytes" by simp
  then show ?thesis
  proof (cases rule: header_is_local)
    case (1 e)
    then show ?thesis using False by (simp add: frame_salts_until_in_file_def WAL_HEADER_SIZE_def)
  next
    case (2 r)
    let ?in_file = "\<lambda>x. if length bytes < nat x + WAL_FRAME_HEADER_SIZE then None else Some (take WAL_FRAME_HEADER_SIZE (drop (nat x) bytes))"
    have "salts_scan until ?in_file (frame_size r) 32 {} = salts_scan until (\<lambda>x. wal_read_at r x WAL_FRAME_HEADER_SIZE) (frame_size r) 32 {}
        \<and> salts_scan until ?in_file (frame_size r) 32 {} \<noteq> None"
    proof (rule salts_scan_agree [where L = "int (length bytes)"])
      show "?in_file x = wal_read_at r x WAL_FRAME_HEADER_SIZE" if "0 \<le> x" for x
        using that 2(3,4) by (simp add: wal_read_at_def)
      show "x \<le> int (length bytes)" if "?in_file x \<noteq> None" for x using that by (simp split: if_splits)
      show "0 < frame_size r" by (simp add: frame_size_def WAL_FRAME_HEADER_SIZE_def add_nonneg_pos)
    qed simp
    then obtain y where "salts_scan until ?in_file (frame_size r) 32 {} = Some y"
      "salts_scan until (\<lambda>x. wal_read_at r x WAL_FRAME_HEADER_SIZE) (frame_size r) 32 {} = Some y" by (metis not_None_eq)
    moreover have "frame_size (r\<lparr>wr_data := take 32 bytes\<rparr>) = frame_size r" by (simp add: frame_size_def)
    ultimately show ?thesis
      using 2 False by (simp add: frame_salts_until_in_file_def frame_salts_until_def WAL_HEADER_SIZE_def)
  qed
qed

section \<open>A small log\<close>

definition small_head :: wal_head where
  "small_head = \<lparr>wh_big_endian = True, wh_page_size = 8, wh_sequence = 0, wh_salt1 = 11, wh_salt2 = 12\<rparr>"

definition small_frames :: "wal_frame list" where
  "small_frames = [(1, 0, replicate 8 5), (2, 2, replicate 8 6), (1, 0, replicate 8 7)]"

definition small_wal :: "byte list" where
  "small_wal = encode_wal small_head small_frames @ [1, 2, 3]"

lemma small_reader: "wal_new small_wal = Some (Ok (reader_of small_head small_wal 0))"
  unfolding small_wal_def wal_new_inner encode_wal_def append.assoc by (rule read_header_encoded)

lemma read_all_to_end:
  assumes "in_frames r" "page_bytes r mod 8 = 0" "frames_ok (wr_page_size r) fs" "remaining r = encode_from r fs @ rest" "length rest < 24"
  shows "read_all r = fs"
  using assms
proof (induction fs arbitrary: r)
  case Nil
  have "length (remaining r) < 24 + page_bytes r" using Nil.prems(4,5) by simp
  then have "read_frame (page_bytes r) r = Some (r, Err Eof)" unfolding read_frame_view [OF Nil.prems(1,2)] Let_def by simp
  then show ?case by (subst read_all.simps) simp
next
  case (Cons f fs)
  have "remaining r = reader_frame r f @ (encode_from (moved r f) fs @ rest)" "length (snd (snd f)) = page_bytes r"
    using Cons.prems(3,4) by (simp_all add: page_bytes_def)
  note ok = read_frame_encoded [OF Cons.prems(1,2) this]
  have "read_all (moved r f) = fs"
    by (rule Cons.IH) (use Cons.prems(1,2,3,5) in \<open>simp_all add: in_frames_moved ok(2)\<close>)
  then show ?case by (simp add: read_all.simps [of r] ok(1))
qed

lemma small_reads: "read_all (reader_of small_head small_wal 0) = small_frames"
proof (rule read_all_to_end)
  show "remaining (reader_of small_head small_wal 0) = encode_from (reader_of small_head small_wal 0) small_frames @ [1, 2, 3]"
    by (simp add: small_wal_def encode_wal_def)
qed (simp_all add: small_frames_def small_head_def)

section \<open>Properties\<close>

text \<open>
  C16. A log reads back. Whatever header and frames are written, with either byte order of the checksums and whatever
  follows them in the buffer (an older generation of the log, or a torn write), the reader opens it with the header's
  page size and salts and returns those frames first, in order and unchanged.
\<close>

theorem wal_reads_back:
  assumes "unat (wh_page_size h) mod 8 = 0" "frames_ok (wh_page_size h) fs"
  shows "\<exists>r. wal_new (encode_wal h fs @ rest) = Some (Ok r) \<and> wr_page_size r = wh_page_size h
    \<and> wr_salt1 r = wh_salt1 h \<and> wr_salt2 r = wh_salt2 h \<and> take (length fs) (read_all r) = fs"
proof -
  let ?r = "reader_of h (encode_wal h fs @ rest) 0"
  have "wal_new (encode_wal h fs @ rest) = Some (Ok ?r)"
    unfolding wal_new_inner encode_wal_def append.assoc by (rule read_header_encoded)
  moreover have "take (length fs) (read_all ?r) = fs"
    by (rule read_all_complete [of _ _ rest]) (use assms in \<open>simp_all add: encode_wal_def\<close>)
  ultimately show ?thesis by (intro exI [of _ ?r]) (simp add: reader_of_def)
qed

theorem wal_reads_back_witness:
  "\<exists>r. wal_new small_wal = Some (Ok r) \<and> wr_salt1 r = 11 \<and> take 3 (read_all r) = small_frames"
proof -
  have "unat (wh_page_size small_head) mod 8 = 0" "frames_ok (wh_page_size small_head) small_frames"
    and s: "wh_salt1 small_head = 11" "length small_frames = 3"
    by (simp_all add: small_head_def small_frames_def)
  from wal_reads_back [OF this(1,2), of "[1, 2, 3]"] show ?thesis unfolding s small_wal_def by blast
qed

text \<open>
  C17. The reader invents nothing and never stops too early. A buffer it opens starts with the encoding of some header and
  of exactly the frames the reader returns, every one sealed by the checksum of all that precede it, and no longer
  list of frames with that header is encoded at the start of the buffer.
\<close>

theorem wal_reader_is_exact:
  assumes "wal_new data = Some (Ok r)" "unat (wr_page_size r) mod 8 = 0"
  shows "\<exists>h rest. wh_page_size h = wr_page_size r \<and> frames_ok (wh_page_size h) (read_all r)
    \<and> data = encode_wal h (read_all r) @ rest
    \<and> (\<forall>fs rest'. frames_ok (wh_page_size h) fs \<and> data = encode_wal h fs @ rest' \<longrightarrow> length fs \<le> length (read_all r))"
proof -
  obtain h rest where d: "data = encode_head h @ rest" and r: "r = reader_of h data 0"
    using read_header_ok assms(1) unfolding wal_new_inner by blast
  have i: "in_frames r" "page_bytes r mod 8 = 0" using assms(2) by (simp_all add: r)
  obtain rest' where "remaining r = encode_from r (read_all r) @ rest'" "frames_ok (wr_page_size r) (read_all r)"
    using read_all_sound [OF i] by blast
  then have "data = encode_wal h (read_all r) @ rest'" "frames_ok (wh_page_size h) (read_all r)"
    by (simp_all add: r d encode_wal_def)
  moreover have "length fs \<le> length (read_all r)" if "frames_ok (wh_page_size h) fs" "data = encode_wal h fs @ rest'" for fs rest'
  proof -
    have "take (length fs) (read_all r) = fs"
      by (rule read_all_complete [OF i, of fs rest']) (use that in \<open>simp_all add: r encode_wal_def\<close>)
    then have "length (take (length fs) (read_all r)) = length fs" by simp
    then show ?thesis by simp
  qed
  ultimately show ?thesis by (intro exI [of _ h] exI [of _ rest']) (auto simp: r)
qed

theorem wal_reader_is_exact_witness:
  "\<exists>h rest. wh_page_size h = 8 \<and> small_wal = encode_wal h small_frames @ rest"
proof -
  have "unat (wr_page_size (reader_of small_head small_wal 0)) mod 8 = 0" and s: "wr_page_size (reader_of small_head small_wal 0) = 8"
    by (simp_all add: small_head_def)
  from wal_reader_is_exact [OF small_reader this(1)] show ?thesis unfolding s small_reads by blast
qed

text \<open>
  C18. The page map is the last committed version of every page. From any position of a log, \<open>page_map\<close> neither panics nor
  fails. Of the frames the reader returns it takes those up to the last commit record; a page is mapped to the offset
  of its last frame among them, unless it lies beyond the size the last commit record gives the database. When
  the last committed frame is inside that size, the segment ends right after that frame.
\<close>

theorem page_map_is_last_committed:
  assumes "in_frames r" "unat (wr_page_size r) mod 8 = 0" "cs = committed_frames (read_all r)"
  shows "\<exists>r' m top commit. page_map r = Some (r', Ok (m, top, commit))
    \<and> (\<forall>p. bm_get m p = (if cs \<noteq> [] \<and> p \<le> final_size cs then latest r cs p else None))
    \<and> (cs \<noteq> [] \<and> fst (List.last cs) \<le> final_size cs \<longrightarrow>
         commit = final_size cs \<and> top = frame_at r + int (length cs) * frame_size r)
    \<and> (m = [] \<longrightarrow> top = 0 \<and> commit = 0)"
proof -
  have i: "page_bytes r mod 8 = 0" using assms(2) by (simp add: page_bytes_def)
  obtain r' m c where l: "page_map_loop [] [] 0 r = Some (r', Ok (m, c))" "wr_page_size r' = wr_page_size r" "bm_ok m"
    and spec: "loop_spec r [] [] 0 m c"
    using page_map_loop_exact [OF assms(1) i bm_ok_Nil bm_ok_Nil, of 0] by blast
  define k where "k = filter (\<lambda>(pgno, _). pgno \<le> c) m"
  have get: "bm_get k p = (if cs \<noteq> [] \<and> p \<le> final_size cs then latest r cs p else None)" for p
    using spec by (cases "cs = []") (simp_all add: k_def map_of_filter_key loop_spec_def assms(3) split: option.split)
  have kok: "bm_ok k" using l(3) by (simp add: k_def bm_ok_def sorted_wrt_map sorted_wrt_filter)
  define top where "top = fold (\<lambda>(_, offset) top. if top = 0 \<or> top < offset then offset else top) k (0 :: int)"
  have pos: "\<forall>(p, x)\<in>set k. 0 < x"
    using get latest_range(1) assms(1) bm_get_mem [OF kok] by (fastforce simp: in_frames_def split: if_splits)
  note tf = top_fold [OF pos _ top_def]
  have "top = frame_at r + (int (length cs) - 1) * frame_size r" "k \<noteq> []" "c = final_size cs"
    if "cs \<noteq> []" "fst (List.last cs) \<le> final_size cs"
  proof -
    have g: "bm_get k (fst (List.last cs)) = Some (frame_at r + (int (length cs) - 1) * frame_size r)"
      using get that latest_last [OF that(1)] by simp
    then have mem: "(fst (List.last cs), frame_at r + (int (length cs) - 1) * frame_size r) \<in> set k" using bm_get_mem [OF kok] by simp
    then show "k \<noteq> []" by auto
    have "frame_at r + (int (length cs) - 1) * frame_size r \<le> top" "0 < frame_at r + (int (length cs) - 1) * frame_size r" using tf mem pos by auto
    then obtain p where "(p, top) \<in> set k" using tf by auto
    then have "latest r cs p = Some top" using get [of p] bm_get_mem [OF kok] by (simp split: if_splits)
    then show "top = frame_at r + (int (length cs) - 1) * frame_size r"
      using latest_range(2) assms(1) \<open>_ \<le> top\<close> by (fastforce simp: in_frames_def)
    show "c = final_size cs" using spec that by (simp add: loop_spec_def assms(3))
  qed
  moreover have "page_map r = Some (r', Ok (if k = [] then ([], 0, 0) else (k, top + 24 + int (unat (wr_page_size r)), c)))"
    by (simp add: page_map_def l(1,2) Let_def k_def [symmetric] top_def [symmetric] WAL_FRAME_HEADER_SIZE_def)
  moreover have "frame_size r = 24 + int (unat (wr_page_size r))" by (simp add: frame_size_def WAL_FRAME_HEADER_SIZE_def)
  ultimately show ?thesis using get by (cases "k = []") (auto simp: algebra_simps)
qed

theorem page_map_is_last_committed_witness:
  "\<exists>r' m. page_map (reader_of small_head small_wal 0) = Some (r', Ok (m, 96, 2)) \<and> bm_get m 1 = Some 32 \<and> bm_get m 2 = Some 64"
proof -
  let ?r = "reader_of small_head small_wal 0" and ?cs = "take 2 small_frames"
  have "?cs = committed_frames (read_all ?r)" unfolding small_reads by (simp add: committed_frames_def small_frames_def)
  moreover have "in_frames ?r" "unat (wr_page_size ?r) mod 8 = 0" by (simp_all add: small_head_def)
  moreover have "latest ?r ?cs 1 = Some 32" "latest ?r ?cs 2 = Some 64" "final_size ?cs = 2" "fst (List.last ?cs) = 2" "frame_at ?r = 32" "frame_size ?r = 32"
    by (simp_all add: latest_def placed_def final_size_def frame_at_def frame_size_def small_frames_def small_head_def
        WAL_HEADER_SIZE_def WAL_FRAME_HEADER_SIZE_def)
  moreover have "?cs \<noteq> []" "length ?cs = 2" by (simp_all add: small_frames_def)
  ultimately show ?thesis using page_map_is_last_committed [of ?r ?cs] by fastforce
qed

text \<open>
  C19. Resuming is the same as reading on. When a reader opened at the start has read some frames, the reader that
  \<open>new_with_offset\<close> opens at that offset under the same salts is in the same state; and the one that
  \<open>new_with_offset_over_tail\<close> opens over the header and the tail of the file, as long as the tail holds the frame before
  the offset, yields the same page map.
\<close>

theorem resumed_reader_reads_on:
  assumes "wal_new data = Some (Ok r0)" "unat (wr_page_size r0) mod 8 = 0" "read_some (Suc n) r0 = Some r"
    and "32 \<le> tail_base" "tail_base \<le> frame_at r - frame_size r"
  shows "new_with_offset data (frame_at r) (wr_salt1 r0) (wr_salt2 r0) = Some (Ok r)
    \<and> (\<exists>t. new_with_offset_over_tail (take 32 data @ drop (nat tail_base) data) tail_base (frame_at r) (wr_salt1 r0) (wr_salt2 r0) = Some (Ok t)
         \<and> map_option snd (page_map t) = map_option snd (page_map r))"
proof -
  obtain h rest where d: "data = encode_head h @ rest" and r: "r0 = reader_of h data 0"
    using read_header_ok assms(1) unfolding wal_new_inner by blast
  have ps: "unat (wh_page_size h) mod 8 = 0" and some: "read_some (Suc n) (reader_of h data 0) = Some r" using assms(2,3) by (simp_all add: r)
  have "new_with_offset data (frame_at r) (wh_salt1 h) (wh_salt2 h) = Some (Ok r)"
    by (rule resume_whole [OF some ps]) (use assms(1) in \<open>simp add: wal_new_inner r\<close>)
  moreover obtain t where "new_with_offset_over_tail (take 32 data @ drop (nat tail_base) data) tail_base (frame_at r) (wh_salt1 h) (wh_salt2 h) = Some (Ok t)"
    and "twin r t" using resume_tail [OF some ps d assms(4,5)] by blast
  moreover have "page_bytes r mod 8 = 0" using read_some_moves [OF some] ps by (simp add: page_bytes_def)
  ultimately show ?thesis using twin_page_map by (auto simp: r)
qed

theorem resumed_reader_reads_on_witness:
  "\<exists>r t. read_some 1 (reader_of small_head small_wal 0) = Some r \<and> new_with_offset small_wal 64 11 12 = Some (Ok r)
     \<and> new_with_offset_over_tail small_wal 32 64 11 12 = Some (Ok t) \<and> map_option snd (page_map t) = map_option snd (page_map r)"
proof -
  have "read_all (reader_of small_head small_wal 0) \<noteq> []" unfolding small_reads by (simp add: small_frames_def)
  then obtain r where r: "read_some (Suc 0) (reader_of small_head small_wal 0) = Some r"
    by (auto simp: read_all.simps [of "reader_of small_head small_wal 0"] split: option.splits result.splits)
  then have "frame_at r = 64" "frame_size r = 32"
    using read_some_moves [OF r] by (simp_all add: frame_at_def frame_size_def small_head_def WAL_HEADER_SIZE_def WAL_FRAME_HEADER_SIZE_def)
  moreover have "take 32 small_wal @ drop 32 small_wal = small_wal" by simp
  ultimately show ?thesis
    using resumed_reader_reads_on [OF small_reader _ r, of 32] r by (auto simp: small_head_def)
qed

end
