(* ===== verification/Safety.thy ===== *)
theory Safety
  imports Events
begin

text \<open>
  Properties of the core as a whole. \<open>reachable\<close> is the set of states that a node reaches from
  \<open>State::new\<close> by handling events; the handler triples of the component theories give the invariant of
  every reachable state, and \<open>on_event_acked\<close> bounds what an event may acknowledge.
\<close>

section \<open>Definitions\<close>

inductive reachable :: "node_id \<Rightarrow> config \<Rightarrow> core_state \<Rightarrow> bool" for node config where
  reachable_new: "reachable node config (state_new node config)"
| reachable_event:
    "reachable node config s \<Longrightarrow> event_ok e \<Longrightarrow> reachable node config (fst (on_event s e))"

text \<open>The state after a sequence of events.\<close>

definition after :: "core_state \<Rightarrow> event list \<Rightarrow> core_state" where
  "after s es = run_steps (\<lambda>s e. fst (on_event s e)) s es"

section \<open>One event\<close>

interpretation ack: lease_proof "(\<lambda>x. acked x \<longrightarrow> A x, \<lambda>_ _. True)" for A
  by unfold_locales simp_all

lemma handle_event_inv:
  assumes "event_ok e" and "core_inv none_held s" and "runs (handle_event e) s = (u, s', effects)"
  shows "core_inv none_held s' \<and>
    core_le (\<lambda>x. acked x \<longrightarrow> may_ack (tick e s) e x, \<lambda>_ _. True) (s, []) (s', effects)"
  using ack.handle_event_ok [OF assms(1), of "may_ack (tick e s) e"] assms(2,3)
  unfolding tri_def runs_def by (fastforce split: prod.splits)

lemma arm_operation_deadlines_acks:
  "x \<in> set (arm_operation_deadlines s effects) \<Longrightarrow> acked x \<Longrightarrow> x \<in> set effects"
  by (auto simp: arm_operation_deadlines_def Let_def acked_def split: option.splits)

lemma on_event_cases:
  obtains u s' effects where "runs (handle_event e) s = (u, s', effects)"
    and "on_event s e = (s', arm_operation_deadlines s' effects)"
  by (cases "runs (handle_event e) s") (auto simp: on_event_def)

lemma on_event_inv:
  assumes "event_ok e" and "core_inv none_held s"
  shows "core_inv none_held (fst (on_event s e))"
proof (rule on_event_cases [of e s])
  fix u s' effects
  assume "runs (handle_event e) s = (u, s', effects)"
    and "on_event s e = (s', arm_operation_deadlines s' effects)"
  then show ?thesis using handle_event_inv [OF assms] by simp
qed

lemma on_event_le:
  assumes "event_ok e" and "core_inv none_held s"
  shows "core_le anything (s, []) (fst (on_event s e), [])"
proof (rule on_event_cases [of e s])
  fix u s' effects
  assume "runs (handle_event e) s = (u, s', effects)"
    and "on_event s e = (s', arm_operation_deadlines s' effects)"
  then show ?thesis
    using handle_event_inv [OF assms] by (simp add: core_le_def emits_only_def)
qed

lemma on_event_acked:
  assumes "event_ok e" and "core_inv none_held s" and "x \<in> set (snd (on_event s e))" and "acked x"
  shows "may_ack (tick e s) e x"
proof (rule on_event_cases [of e s])
  fix u s' effects
  assume *: "runs (handle_event e) s = (u, s', effects)"
    and "on_event s e = (s', arm_operation_deadlines s' effects)"
  then have "x \<in> set effects"
    using assms(3,4) by (auto intro: arm_operation_deadlines_acks)
  then show ?thesis
    using handle_event_inv [OF assms(1,2) *] assms(4) by (auto simp: core_le_def emits_only_def)
qed

lemma state_new_inv: "core_inv none_held (state_new node config)"
  by (simp add: core_inv_def state_new_def walked_def bm_values_def bm_ok_def)

lemma reachable_inv:
  "reachable node config s \<Longrightarrow>
   core_inv none_held s \<and> st_config s = config \<and> st_node s = node"
proof (induction rule: reachable.induct)
  case reachable_new
  then show ?case by (simp add: state_new_inv) (simp add: state_new_def)
next
  case (reachable_event s e)
  then show ?case using on_event_inv [of e s] on_event_le [of e s] by (simp add: core_le_def)
qed

lemma reachable_after:
  "reachable node config s \<Longrightarrow> list_all event_ok es \<Longrightarrow> reachable node config (after s es)"
  by (induction es arbitrary: s) (auto simp: after_def intro: reachable_event)

lemma tick_barriers [simp]: "st_barriers (tick e s) = st_barriers s"
  by (simp add: tick_def split: option.split)

lemma released_by_barrier:
  "effect.Release request channel (Ok ()) \<in> set (barrier_acks gate) \<Longrightarrow> holds_output request gate"
  by (auto simp: barrier_acks_def holds_output_def list_ex_iff split: gate_owner.splits)

section \<open>A small node for the witnesses\<close>

definition small_config :: config where
  "small_config =
     \<lparr>cf_max_resident = 2, cf_max_activations = 4, cf_max_evictions = 2, cf_max_releases = 4,
      cf_max_outbound_websockets = 1, cf_ownership_on_evict = ownership_on_evict.Release,
      cf_require_node_lease = False, cf_peer_protocol = 1, cf_operation_deadline_ms = None,
      cf_owner_log_recovery_backoff_ms = 100, cf_owner_log_recovery_attempts = 3,
      cf_alarm_resident_ms = 1000, cf_idle_evict_ms = None,
      cf_pressure = \<lparr>high_bytes = None, rss_hard_bytes = None\<rparr>\<rparr>"

text \<open>The events that bring a cell nobody owns from its first request to residency.\<close>

definition activation_of :: "request_id \<Rightarrow> cell_id \<Rightarrow> op_id \<Rightarrow> event list" where
  "activation_of request i op =
     [RequestAt request i (10 * request), OwnerRead op 1 (Ok None),
      OwnerCasCompleted (op + 1) (Ok cas_outcome.Applied),
      RestoreCompleted (op + 2) (Ok \<lparr>ro_restored = False, ro_alarm = None\<rparr>),
      RuntimeStarted (op + 3) None 0 (Ok ()), Published (op + 4) (Ok ())]"

definition one_resident :: core_state where
  "one_resident = after (state_new ''n'' small_config) (activation_of 1 ''A'' 1)"

definition one_gated :: core_state where
  "one_gated = after one_resident [event.Output 1 Response (Some 7) None None]"

lemma one_resident_reachable: "reachable ''n'' small_config one_resident"
  unfolding one_resident_def
  by (rule reachable_after [OF reachable_new]) (simp add: activation_of_def event_ok_def)

lemma one_gated_reachable: "reachable ''n'' small_config one_gated"
  unfolding one_gated_def by (rule reachable_after [OF one_resident_reachable]) (simp add: event_ok_def)

section \<open>Properties\<close>

text \<open>
  C2. In every state a node reaches, the occupancy counter equals the number of cells whose phase takes
  a slot, and it stays within \<open>max_resident\<close>; the activation permits stay within \<open>max_activations\<close> and
  the eviction permits within the eviction ceiling.
\<close>

theorem reachable_within_ceilings:
  assumes "reachable node config s"
  shows "st_occupied s = walked s \<and> walked s \<le> cf_max_resident config \<and>
    card (st_activation_permits s) \<le> cf_max_activations config \<and>
    card (st_eviction_permits s) \<le> eviction_ceiling s"
  using reachable_inv [OF assms] by (auto simp: core_inv_def)

theorem reachable_within_ceilings_witness:
  "walked one_resident = 1 \<and> st_occupied one_resident = walked one_resident \<and>
   walked one_resident \<le> cf_max_resident small_config"
proof -
  have "walked one_resident = 1" by code_simp
  then show ?thesis using reachable_within_ceilings [OF one_resident_reachable] by simp
qed

text \<open>
  C1. An output leaves as a success in two ways only. Either the event brings it, it wrote nothing, this
  node is authoritative, and everything the handler could have seen is proven; or a barrier held it and
  the event is that barrier's proof: a fleet acknowledgement that covers its position, or the
  confirmed ownership read.
\<close>

theorem released_only_when_proven:
  assumes "reachable node config s" and "event_ok e"
    and "effect.Release request channel (Ok ()) \<in> set (snd (on_event s e))"
  shows "(\<exists>position observed epoch.
       (e = event.Output request channel position observed epoch \<or>
        (\<exists>now. e = OutputAt request channel position observed epoch now)) \<and>
       output_clear (tick e s) request position observed epoch) \<or>
     (\<exists>op gate. bm_get (st_barriers s) op = Some gate \<and> holds_output request gate \<and>
       ((\<exists>durable. e = DurableReached op (Ok durable) proof_source.Fleet \<and> b_position gate \<le> durable) \<or>
        e = OwnershipVerified op (Ok ())))"
proof -
  have "may_ack (tick e s) e (effect.Release request channel (Ok ()))"
    using on_event_acked [of e s] reachable_inv assms by (simp add: acked_def)
  moreover have "holds_output request (gate\<lparr>b_riders := []\<rparr>) = holds_output request gate" for gate
    by (simp add: holds_output_def)
  ultimately show ?thesis
    by (cases e) (auto simp: may_ack_def split: result.splits proof_source.splits option.splits
        dest: released_by_barrier)
qed

theorem released_only_when_proven_witness:
  "effect.Release 1 Response (Ok ()) \<in>
     set (snd (on_event one_gated (DurableReached 6 (Ok 7) proof_source.Fleet))) \<and>
   (\<exists>gate. bm_get (st_barriers one_gated) 6 = Some gate \<and> holds_output 1 gate \<and> b_position gate \<le> 7)"
proof -
  have *: "effect.Release 1 Response (Ok ()) \<in>
      set (snd (on_event one_gated (DurableReached 6 (Ok 7) proof_source.Fleet)))"
    by code_simp
  then show ?thesis
    using released_only_when_proven [OF one_gated_reachable, of "DurableReached 6 (Ok 7) proof_source.Fleet" 1 Response]
    by (auto simp: event_ok_def)
qed

text \<open>
  C3. The ownership read that lets a bucket proof acknowledge is asked for only by a bucket proof that
  covers the barrier's position, for that barrier's cell and epoch.
\<close>

theorem ownership_read_needs_covering_proof:
  assumes "reachable node config s" and "event_ok e"
    and "VerifyOwnership op i epoch \<in> set (snd (on_event s e))"
  shows "\<exists>gate durable. bm_get (st_barriers s) op = Some gate \<and> b_cell gate = i \<and> b_epoch gate = epoch \<and>
    e = DurableReached op (Ok durable) Bucket \<and> b_position gate \<le> durable"
proof -
  have "may_ack (tick e s) e (VerifyOwnership op i epoch)"
    using on_event_acked [of e s] reachable_inv assms by (simp add: acked_def)
  moreover have "VerifyOwnership op i epoch \<notin> set (barrier_acks gate)" for gate
    by (auto simp: barrier_acks_def split: gate_owner.split)
  ultimately show ?thesis
    by (cases e) (auto simp: may_ack_def split: result.splits proof_source.splits option.splits)
qed

theorem ownership_read_needs_covering_proof_witness:
  "VerifyOwnership 6 ''A'' 1 \<in> set (snd (on_event one_gated (DurableReached 6 (Ok 9) Bucket))) \<and>
   (\<exists>gate. bm_get (st_barriers one_gated) 6 = Some gate \<and> b_position gate \<le> 9)"
proof -
  have *: "VerifyOwnership 6 ''A'' 1 \<in> set (snd (on_event one_gated (DurableReached 6 (Ok 9) Bucket)))"
    by code_simp
  then show ?thesis
    using ownership_read_needs_covering_proof
      [OF one_gated_reachable, of "DurableReached 6 (Ok 9) Bucket" 6 "''A''" 1]
    by (auto simp: event_ok_def)
qed

text \<open>
  C4. Handling an event keeps the node's name and configuration, never lifts a fence or a drain, and never
  moves a clock, an operation id, a timer generation or the application generation backwards.
\<close>

theorem on_event_moves_forward:
  assumes "reachable node config s" and "event_ok e" and "s' = fst (on_event s e)"
  shows "st_node s' = st_node s \<and> st_config s' = st_config s \<and>
    (st_fenced s \<longrightarrow> st_fenced s') \<and> (st_draining s \<longrightarrow> st_draining s') \<and>
    st_now_ms s \<le> st_now_ms s' \<and> st_now_mono_ms s \<le> st_now_mono_ms s' \<and>
    st_next_op s \<le> st_next_op s' \<and> st_next_timer_generation s \<le> st_next_timer_generation s' \<and>
    st_current_generation s \<le> st_current_generation s'"
  using on_event_le [of e s] reachable_inv [OF assms(1)] assms(2,3) by (simp add: core_le_def)

theorem on_event_moves_forward_witness:
  "st_draining (fst (on_event one_resident ReleaseAll)) \<and>
   st_draining (fst (on_event (fst (on_event one_resident ReleaseAll)) (event.Evict ''A'')))"
proof -
  have *: "st_draining (fst (on_event one_resident ReleaseAll))" by code_simp
  have "reachable ''n'' small_config (fst (on_event one_resident ReleaseAll))"
    by (rule reachable_event [OF one_resident_reachable]) (simp add: event_ok_def)
  then show ?thesis
    using on_event_moves_forward [of "''n''" small_config "fst (on_event one_resident ReleaseAll)"
        "event.Evict ''A''"] *
    by (simp add: event_ok_def)
qed

end
