(* ===== verification/LeaseSafety.thy ===== *)
theory LeaseSafety
  imports Safety
begin

text \<open>
  The safety of the node lease over the whole core. A node acts while its last confirmed write is younger
  than the TTL on the monotonic clock; its peers judge it by the expiry in the published record, on the
  wall clock. The invariant \<open>authority_inside\<close> relates the two: the monotonic window of every lease that
  the node holds, or may come to hold by a write in flight, ends no later than the expiry that was
  written with it. Only the lease events move the authority, so the handlers of all other events
  keep the invariant by their quiet triples.
\<close>

section \<open>Definitions\<close>

text \<open>
  \<open>off\<close> is how far the wall clock runs ahead of the monotonic clock, at least. The TTL and the clock
  readings stay below half of the range of the clock, so no expiry saturates.
\<close>

definition held_inside :: "int \<Rightarrow> held_node_lease \<Rightarrow> bool" where
  "held_inside off h =
     (2 * sp_ttl_ms (hl_spec h) \<le> u64_max \<and>
      int (hl_last_ok_mono_ms h) + int (sp_ttl_ms (hl_spec h)) + off \<le> int (nl_expires_ms (hl_record h)))"

definition pending_inside :: "int \<Rightarrow> pending_node_lease \<Rightarrow> bool" where
  "pending_inside off p =
     (2 * sp_ttl_ms (pl_spec p) \<le> u64_max \<and>
      int (pl_anchor_mono_ms p) + int (sp_ttl_ms (pl_spec p)) + off \<le> int (nl_expires_ms (pl_desired p)) \<and>
      (case pl_prior p of None \<Rightarrow> True | Some h \<Rightarrow> held_inside off h))"

definition authority_inside :: "int \<Rightarrow> node_authority \<Rightarrow> bool" where
  "authority_inside off a =
     (case a of
        Held h \<Rightarrow> held_inside off h
      | Reading _ p \<Rightarrow> pending_inside off p
      | Writing _ p \<Rightarrow> pending_inside off p
      | Retrying spec _ \<Rightarrow> 2 * sp_ttl_ms spec \<le> u64_max
      | _ \<Rightarrow> True)"

definition clocks_agree :: "int \<Rightarrow> nat \<Rightarrow> nat \<Rightarrow> bool" where
  "clocks_agree off now_ms now_mono_ms =
     (2 * now_ms \<le> u64_max \<and> int now_mono_ms + off \<le> int now_ms)"

text \<open>What an event that reads both clocks must satisfy.\<close>

definition clock_ok :: "int \<Rightarrow> core_state \<Rightarrow> event \<Rightarrow> bool" where
  "clock_ok off s e =
     (case e of
        StartNodeLease now_ms now_mono_ms spec \<Rightarrow>
          clocks_agree off now_ms now_mono_ms \<and> st_now_mono_ms s \<le> now_mono_ms
          \<and> 2 * sp_ttl_ms spec \<le> u64_max
      | TimerFired _ now_ms now_mono_ms \<Rightarrow>
          clocks_agree off now_ms now_mono_ms \<and> st_now_mono_ms s \<le> now_mono_ms
      | NudgeNodeLease now_ms now_mono_ms \<Rightarrow> clocks_agree off now_ms now_mono_ms
      | _ \<Rightarrow> True)"

inductive timed_reachable :: "int \<Rightarrow> node_id \<Rightarrow> config \<Rightarrow> core_state \<Rightarrow> bool" for off node config where
  timed_new: "timed_reachable off node config (state_new node config)"
| timed_event:
    "timed_reachable off node config s \<Longrightarrow> event_ok e \<Longrightarrow> clock_ok off s e \<Longrightarrow>
     timed_reachable off node config (fst (on_event s e))"

definition inside :: "int \<Rightarrow> core_state \<Rightarrow> bool" where
  "inside off s = (core_inv none_held s \<and> authority_inside off (st_node_authority s))"

text \<open>The clock at which an acquisition may start, and the authority that waits for one.\<close>

definition may_acquire :: "int \<Rightarrow> nat \<Rightarrow> core_state \<Rightarrow> bool" where
  "may_acquire off now_ms s = (int (st_now_mono_ms s) + off \<le> int now_ms)"

definition retrying :: "node_authority \<Rightarrow> bool" where
  "retrying a = (case a of Retrying _ _ \<Rightarrow> True | _ \<Rightarrow> False)"

section \<open>The calculus\<close>

interpretation still: core_proof "(\<lambda>_. True, \<lambda>_ _. False)"
  by unfold_locales simp

lemma rtranclp_never: "(\<lambda>_ _. False)\<^sup>*\<^sup>* a b \<Longrightarrow> b = a"
  by (erule rtranclp_induct) simp_all

lemma inside_still:
  assumes "tri (\<lambda>_. True, \<lambda>_ _. False) (core_inv none_held) m (\<lambda>_. core_inv none_held)"
  shows "tri anything (inside off) m (\<lambda>_. inside off)"
  using assms unfolding tri_def inside_def
  by (fastforce simp: core_le_def emits_only_def rtranclp_never split: prod.splits dest: rtranclp_never)

lemma inside_set:
  assumes "authority_inside off a"
  shows "tri anything (inside off) (set_authority a) (\<lambda>_. inside off)"
proof -
  have "core_inv none_held (s\<lparr>st_node_authority := a\<rparr>)" if "core_inv none_held s" for s
    using that by (auto simp: core_inv_def walked_def eviction_ceiling_def)
  then show ?thesis
    unfolding set_authority_def using assms
    by (intro tri_upd) (auto simp: inside_def core_le_def emits_only_def)
qed

lemma inside_look:
  assumes "\<And>a. authority_inside off a \<Longrightarrow> tri anything (inside off) (f a) Q"
  shows "tri anything (inside off) (State_Monad.bind (look st_node_authority) f) Q"
  using assms by (fastforce simp: tri_def inside_def)

lemmas inside_struct =
  inside_look tri_same_bind [where I = "inside off" for off]
  tri_if tri_option tri_result tri_prod tri_let lease_struct

lemma inside_skip: "tri anything (inside off) skip (\<lambda>_. inside off)"
  by (simp add: tri_skip)

lemma inside_onlyif:
  "(b \<Longrightarrow> tri anything (inside off) m (\<lambda>_. inside off)) \<Longrightarrow>
   tri anything (inside off) (onlyif b m) (\<lambda>_. inside off)"
  by (rule tri_onlyif)

lemmas inside_still_steps =
  inside_still [OF still.fresh_op_ok] inside_still [OF still.fresh_timer_generation_ok]
  inside_still [OF still.take_nudge_ok] inside_still [OF still.fence_ok]
  inside_still [OF still.quiet_emit] inside_still [OF inv_upd] inside_still [OF inv_look]
  inside_skip inside_onlyif

named_theorems lease_ok \<open>triples of the lease handlers\<close>

section \<open>The lease handlers\<close>

lemma authority_inside_simps [simp]:
  "authority_inside off (Held h) = held_inside off h"
  "authority_inside off (Reading op p) = pending_inside off p"
  "authority_inside off (Writing op p) = pending_inside off p"
  "authority_inside off (Retrying spec g) = (2 * sp_ttl_ms spec \<le> u64_max)"
  "authority_inside off Unstarted" "authority_inside off node_authority.Failed"
  "authority_inside off node_authority.Fenced"
  by (simp_all add: authority_inside_def)

lemma sat_add_half: "2 * a \<le> u64_max \<Longrightarrow> 2 * b \<le> u64_max \<Longrightarrow> sat_add a b = a + b"
  by (simp add: sat_add_def)

lemma fence_node_inside [lease_ok]: "tri anything (inside off) (fence_node reason) (\<lambda>_. inside off)"
  unfolding fence_node_def set_authority_def [symmetric]
  by (rule inside_set inside_still_steps inside_struct | simp add: acked_def)+

lemma fail_initial_node_lease_inside [lease_ok]:
  "2 * sp_ttl_ms spec \<le> u64_max \<Longrightarrow>
   tri anything (inside off) (fail_initial_node_lease spec) (\<lambda>_. inside off)"
  unfolding fail_initial_node_lease_def
  by (rule inside_set inside_still_steps inside_struct | simp add: acked_def)+

lemma hold_node_lease_inside [lease_ok]:
  "2 * sp_ttl_ms spec \<le> u64_max \<Longrightarrow>
   int anchor + int (sp_ttl_ms spec) + off \<le> int (nl_expires_ms record) \<Longrightarrow>
   tri anything (inside off) (hold_node_lease spec record anchor resume_local confirm_local)
     (\<lambda>_. inside off)"
  unfolding hold_node_lease_def
  by (rule inside_set inside_still_steps inside_struct | simp add: acked_def held_inside_def benign_def)+

lemma complete_node_lease_write_inside [lease_ok]:
  "pending_inside off pending \<Longrightarrow> nl_expires_ms record = nl_expires_ms (pl_desired pending) \<Longrightarrow>
   tri anything (inside off) (complete_node_lease_write pending record now_mono_ms) (\<lambda>_. inside off)"
  unfolding complete_node_lease_write_def pending_inside_def
  by (rule lease_ok inside_struct | simp)+

lemma resume_node_lease_after_failure_inside [lease_ok]:
  "held_inside off prior \<Longrightarrow>
   tri anything (inside off) (resume_node_lease_after_failure prior now_mono_ms) (\<lambda>_. inside off)"
  unfolding resume_node_lease_after_failure_def
  by (rule inside_set inside_still_steps inside_struct | simp add: acked_def)+

lemma begin_node_lease_write_inside [lease_ok]:
  "pending_inside off pending \<Longrightarrow>
   tri anything (inside off) (begin_node_lease_write pending guard) (\<lambda>_. inside off)"
  unfolding begin_node_lease_write_def
  by (rule inside_set inside_still_steps inside_struct | simp add: acked_def)+

lemma fail_node_lease_attempt_inside [lease_ok]:
  "pending_inside off pending \<Longrightarrow>
   tri anything (inside off) (fail_node_lease_attempt pending now_mono_ms) (\<lambda>_. inside off)"
  unfolding fail_node_lease_attempt_def pending_inside_def by (rule lease_ok inside_struct | simp)+

text \<open>A late renewal found by the readback moves the anchor by no more than it moved the expiry.\<close>

lemma adopt_zombie_anchor:
  assumes "held_inside off prior" and "nl_expires_ms (hl_record prior) < nl_expires_ms record"
  shows "held_inside off (prior\<lparr>hl_last_ok_mono_ms :=
      min (sat_add (hl_last_ok_mono_ms prior) (nl_expires_ms record - nl_expires_ms (hl_record prior))) t,
    hl_record := record\<rparr>)"
  using assms by (simp add: held_inside_def sat_add_def min_def) linarith

lemma adopt_zombie_inside [lease_ok]:
  "held_inside off prior \<Longrightarrow> nl_expires_ms (hl_record prior) < nl_expires_ms record \<Longrightarrow>
   tri anything (inside off) (adopt_zombie prior record now_ms now_mono_ms) (\<lambda>_. inside off)"
  unfolding adopt_zombie_def
  by (rule lease_ok inside_still_steps inside_struct
      | simp add: acked_def benign_def adopt_zombie_anchor)+

lemma install_over_inside [lease_ok]:
  "pending_inside off pending \<Longrightarrow>
   tri anything (inside off) (install_over pending record now_ms) (\<lambda>_. inside off)"
  unfolding install_over_def by (rule lease_ok inside_struct | simp add: pending_inside_def)+

lemma settle_self_read_inside [lease_ok]:
  "pending_inside off pending \<Longrightarrow>
   tri anything (inside off) (settle_self_read pending now_ms now_mono_ms result) (\<lambda>_. inside off)"
  unfolding settle_self_read_def
  by (rule lease_ok inside_struct
      | simp add: pending_inside_def held_inside_def same_node_lease_def own_zombie_def)+

lemma read_self_node_lease_inside [lease_ok]:
  "tri anything (inside off) (read_self_node_lease op now_ms now_mono_ms result) (\<lambda>_. inside off)"
  unfolding read_self_node_lease_def by (rule inside_set lease_ok inside_skip inside_struct | simp)+

lemma read_back_inside [lease_ok]:
  "pending_inside off pending \<Longrightarrow> tri anything (inside off) (read_back pending) (\<lambda>_. inside off)"
  unfolding read_back_def
  by (rule inside_set inside_still_steps inside_struct | simp add: acked_def)+

lemma settle_self_write_inside [lease_ok]:
  "pending_inside off pending \<Longrightarrow>
   tri anything (inside off) (settle_self_write pending now_mono_ms result stamped) (\<lambda>_. inside off)"
  unfolding settle_self_write_def by (rule lease_ok inside_struct | simp add: pending_inside_def)+

lemma node_lease_cas_completed_inside [lease_ok]:
  "tri anything (inside off) (node_lease_cas_completed op now_mono_ms result stamped) (\<lambda>_. inside off)"
  unfolding node_lease_cas_completed_def by (rule inside_set lease_ok inside_skip inside_struct | simp)+

lemma renew_node_lease_inside [lease_ok]:
  "held_inside off prior \<Longrightarrow> clocks_agree off now_ms now_mono_ms \<Longrightarrow>
   tri anything (inside off) (renew_node_lease prior now_ms now_mono_ms) (\<lambda>_. inside off)"
  unfolding renew_node_lease_def
  by (rule lease_ok inside_still_steps inside_struct
      | simp add: pending_inside_def held_inside_def clocks_agree_def sat_add_half)+

lemma begin_node_lease_acquisition_inside:
  assumes "2 * sp_ttl_ms spec \<le> u64_max" and "2 * now_ms \<le> u64_max"
  shows "tri anything (\<lambda>s. inside off s \<and> may_acquire off now_ms s)
    (begin_node_lease_acquisition now_ms spec) (\<lambda>_. inside off)"
  unfolding begin_node_lease_acquisition_def Let_def
proof (rule tri_bind_state)
  fix s
  assume "inside off s \<and> may_acquire off now_ms s"
  then have "pending_inside off
      \<lparr>pl_spec = spec,
       pl_desired =
         \<lparr>nl_node = st_node s, nl_addr = sp_addr spec, nl_expires_ms = sat_add now_ms (sp_ttl_ms spec),
          nl_peer_protocol = sp_peer_protocol spec, nl_generation = sp_generation spec,
          nl_log_state = None, nl_etag = ''''\<rparr>,
       pl_prior = None, pl_readback_only = False, pl_anchor_mono_ms = st_now_mono_ms s,
       pl_resume_local = False\<rparr>" (is "pending_inside off ?p")
    using assms by (simp add: pending_inside_def sat_add_half may_acquire_def)
  then show "tri anything (\<lambda>s'. (inside off s' \<and> may_acquire off now_ms s') \<and> s' = s)
      (do {
         op \<leftarrow> fresh_op;
         set_authority (Reading op ?p);
         emit (ReadSelfNodeLease op)
       }) (\<lambda>_. inside off)"
    by - (rule tri_pre [where I = "inside off"],
      (rule inside_set inside_still_steps inside_struct | simp add: acked_def)+)
qed

lemma start_node_lease_inside:
  assumes "2 * sp_ttl_ms spec \<le> u64_max" and "2 * now_ms \<le> u64_max"
  shows "tri anything (\<lambda>s. inside off s \<and> may_acquire off now_ms s)
    (start_node_lease now_ms spec) (\<lambda>_. inside off)"
  unfolding start_node_lease_def
  by (rule tri_same_bind [OF tri_same_look], rule tri_onlyif)
    (use begin_node_lease_acquisition_inside [OF assms] in auto)

lemma node_lease_timer_inside:
  assumes clocks: "clocks_agree off now_ms now_mono_ms"
  shows "tri anything
    (\<lambda>s. inside off s \<and> (retrying (st_node_authority s) \<longrightarrow> may_acquire off now_ms s))
    (node_lease_timer timer now_ms now_mono_ms) (\<lambda>_. inside off)"
  unfolding node_lease_timer_def
proof (rule tri_bind [OF tri_look])
  fix a
  let ?I = "\<lambda>s. (inside off s \<and> (retrying (st_node_authority s) \<longrightarrow> may_acquire off now_ms s))
    \<and> a = st_node_authority s"
  let ?held = "case held_lease a of
      None \<Rightarrow> skip
    | Some held \<Rightarrow>
        if (timer = NodeLeaseFence (hl_timer_generation held)
            \<or> timer = NodeLeaseRenew (hl_timer_generation held)) \<and> lease_expired held now_ms now_mono_ms
        then fence_node NodeLeaseExpired
        else if timer = NodeLeaseRenew (hl_timer_generation held) \<and> a = Held held
        then renew_node_lease held now_ms now_mono_ms
        else skip"
  have inside_held: "authority_inside off a \<Longrightarrow> held_lease a = Some h \<Longrightarrow> held_inside off h" for h
    by (cases a) (auto simp: held_lease_def pending_inside_def)
  have held: "tri anything ?I ?held (\<lambda>_. inside off)"
  proof (cases "authority_inside off a")
    case True
    then have "tri anything (inside off) ?held (\<lambda>_. inside off)"
      using clocks inside_held by - (rule lease_ok inside_skip inside_struct | simp)+
    then show ?thesis by (rule tri_pre) simp
  next
    case False
    then show ?thesis by (intro tri_absurd) (auto simp: inside_def)
  qed
  have retry: "tri anything ?I
      (onlyif (timer = NodeLeaseRenew generation) (begin_node_lease_acquisition now_ms spec))
      (\<lambda>_. inside off)" if "a = Retrying spec generation" for spec generation
  proof (cases "2 * sp_ttl_ms spec \<le> u64_max")
    case True
    then have "tri anything (\<lambda>s. inside off s \<and> may_acquire off now_ms s)
        (begin_node_lease_acquisition now_ms spec) (\<lambda>_. inside off)"
      using clocks by (intro begin_node_lease_acquisition_inside) (simp_all add: clocks_agree_def)
    then show ?thesis
      by (rule tri_onlyif [OF tri_pre]) (auto simp: that retrying_def dest: sym)
  next
    case False
    then show ?thesis by (intro tri_absurd) (auto simp: that inside_def dest: sym)
  qed
  show "tri anything ?I
     (case a of
        Retrying spec generation \<Rightarrow>
          onlyif (timer = NodeLeaseRenew generation) (begin_node_lease_acquisition now_ms spec)
      | _ \<Rightarrow> ?held) (\<lambda>_. inside off)"
    using held retry by (cases a) simp_all
qed

lemma nudge_node_lease_inside:
  assumes clocks: "clocks_agree off now_ms now_mono_ms"
  shows "tri anything (inside off) (nudge_node_lease now_ms now_mono_ms) (\<lambda>_. inside off)"
  unfolding nudge_node_lease_def
proof (rule tri_bind [OF tri_look])
  fix a
  have "tri anything (\<lambda>s. inside off s \<and> Held held = st_node_authority s)
      (node_lease_timer (NodeLeaseRenew (hl_timer_generation held)) now_ms now_mono_ms)
      (\<lambda>_. inside off)" for held
    by (rule tri_pre [OF node_lease_timer_inside [OF clocks]]) (auto simp: retrying_def dest: sym)
  moreover have "tri anything (inside off) (upd (\<lambda>s. s\<lparr>st_nudge_pending := True\<rparr>)) (\<lambda>_. inside off)"
    by (rule inside_still_steps) (simp add: benign_def)
  ultimately show "tri anything (\<lambda>s. inside off s \<and> a = st_node_authority s)
     (case a of
        Held held \<Rightarrow> node_lease_timer (NodeLeaseRenew (hl_timer_generation held)) now_ms now_mono_ms
      | Writing _ _ \<Rightarrow> upd (\<lambda>s. s\<lparr>st_nudge_pending := True\<rparr>)
      | Reading _ _ \<Rightarrow> upd (\<lambda>s. s\<lparr>st_nudge_pending := True\<rparr>)
      | _ \<Rightarrow> skip) (\<lambda>_. inside off)"
    by (cases a) (auto intro: tri_pre tri_skip)
qed

section \<open>Every event\<close>

lemma tick_authority [simp]: "st_node_authority (tick e s) = st_node_authority s"
  by (simp add: tick_def split: option.split)

lemma lease_dispatch_inside:
  assumes "lease_event e" and "clock_ok off s e"
  shows "tri anything (\<lambda>s'. inside off s' \<and> s' = tick e s) (dispatch e) (\<lambda>_. inside off)"
proof -
  have drop: "tri anything (inside off) m Q \<Longrightarrow> tri anything (\<lambda>s'. inside off s' \<and> s' = t) m Q"
    for m :: "unit core" and Q t
    by (erule tri_pre) simp
  show ?thesis
  proof (cases e)
    case (StartNodeLease now_ms now_mono_ms spec)
    then have "may_acquire off now_ms (tick e s)" "2 * sp_ttl_ms spec \<le> u64_max" "2 * now_ms \<le> u64_max"
      using assms(2)
      by (auto simp: clock_ok_def may_acquire_def clocks_agree_def tick_def event_mono_ms_def event_now_ms_def)
    then show ?thesis
      unfolding StartNodeLease dispatch_def event.case
      by - (rule tri_pre [OF start_node_lease_inside], auto simp: StartNodeLease)
  next
    case (TimerFired timer now_ms now_mono_ms)
    then have clocks: "clocks_agree off now_ms now_mono_ms" and "may_acquire off now_ms (tick e s)"
      using assms(2)
      by (auto simp: clock_ok_def may_acquire_def clocks_agree_def tick_def event_mono_ms_def event_now_ms_def)
    then have "tri anything (\<lambda>s'. inside off s' \<and> s' = tick e s)
        (node_lease_timer timer now_ms now_mono_ms) (\<lambda>_. inside off)"
      by - (rule tri_pre [OF node_lease_timer_inside [OF clocks]], auto)
    then show ?thesis
      using assms(1) TimerFired
      by (cases timer) (auto simp: dispatch_def timer_fired_def lease_event_def lease_timer_def)
  next
    case (NudgeNodeLease now_ms now_mono_ms)
    then show ?thesis
      using assms(2) drop nudge_node_lease_inside [of off now_ms now_mono_ms]
      by (auto simp: dispatch_def clock_ok_def)
  qed (use assms(1) in \<open>auto simp: lease_event_def dispatch_def intro!: drop lease_ok\<close>)
qed

lemma quiet_handle_inside:
  assumes "event_ok e" and "\<not> lease_event e"
  shows "tri anything (inside off) (handle_event e) (\<lambda>_. inside off)"
  by (rule inside_still, rule tri_pre [OF still.handle_dispatched [OF still.quiet_dispatch_ok [OF assms]]]) simp

lemma lease_handle_inside:
  assumes "lease_event e" and "clock_ok off s e"
  shows "tri anything (\<lambda>s'. inside off s' \<and> s' = s) (handle_event e) (\<lambda>_. inside off)"
  unfolding handle_event_def
proof (rule tri_bind [of _ _ _ "\<lambda>_ s'. inside off s' \<and> s' = tick e s"])
  show "tri anything (\<lambda>s'. inside off s' \<and> s' = s) (upd (tick e)) (\<lambda>_ s'. inside off s' \<and> s' = tick e s)"
    by (rule tri_upd) (auto simp: inside_def intro: benign_inv [OF tick_benign] benign_le [OF tick_benign])
  show "tri anything (\<lambda>s'. inside off s' \<and> s' = tick e s)
      (do {
         dispatch e;
         pump_activations;
         pump_release;
         pump_swap
       }) (\<lambda>_. inside off)"
    by (rule tri_bind [OF lease_dispatch_inside [OF assms]])
      (rule tri_same_bind inside_still still.pump_activations_ok still.pump_release_ok still.pump_swap_ok)+
qed

lemma on_event_inside:
  assumes "event_ok e" and "clock_ok off s e" and "inside off s"
  shows "inside off (fst (on_event s e))"
proof (rule on_event_cases [of e s])
  fix u s' effects
  assume "runs (handle_event e) s = (u, s', effects)"
    and "on_event s e = (s', arm_operation_deadlines s' effects)"
  moreover have "tri anything (\<lambda>s'. inside off s' \<and> s' = s) (handle_event e) (\<lambda>_. inside off)"
    using quiet_handle_inside [OF assms(1)] lease_handle_inside [OF _ assms(2)]
    by (cases "lease_event e") (auto intro: tri_pre)
  ultimately show ?thesis
    using assms(3) unfolding tri_def runs_def by (fastforce split: prod.splits)
qed

lemma timed_reachable_inside: "timed_reachable off node config s \<Longrightarrow> inside off s"
proof (induction rule: timed_reachable.induct)
  case timed_new
  then show ?case by (simp add: inside_def state_new_inv) (simp add: state_new_def)
qed (rule on_event_inside)

lemma timed_reachable_reachable: "timed_reachable off node config s \<Longrightarrow> reachable node config s"
  by (induction rule: timed_reachable.induct) (auto intro: reachable.intros)

lemma authoritative_fresh:
  assumes "node_authoritative s" and "cf_require_node_lease (st_config s)"
  obtains h where "held_lease (st_node_authority s) = Some h"
    and "st_now_mono_ms s < hl_last_ok_mono_ms h + sp_ttl_ms (hl_spec h)"
  using assms
  by (auto simp: node_authoritative_def held_lease_def Let_def less_diff_conv2
      split: node_authority.splits option.splits)

text \<open>The witness: a node that acquired its lease at wall time 1000, monotonic time 10.\<close>

definition leased_config :: config where
  "leased_config = small_config\<lparr>cf_require_node_lease := True\<rparr>"

definition lease_spec :: node_lease_spec where
  "lease_spec =
     \<lparr>sp_addr = ''a'', sp_peer_protocol = 1, sp_generation = ''g'', sp_resume_generation = None,
      sp_ttl_ms = 300\<rparr>"

definition leased_node :: core_state where
  "leased_node =
     after (state_new ''n'' leased_config)
       [StartNodeLease 1000 10 lease_spec, SelfNodeLeaseRead 1 1005 15 (Ok None),
        NodeLeaseCasCompleted 2 20 (Ok (lease_cas_outcome.Applied ''e'')) None]"

lemma leased_node_reachable: "timed_reachable 990 ''n'' leased_config leased_node"
  unfolding leased_node_def after_def run_steps_def foldl.simps
  by (intro timed_event timed_new)
    (simp_all add: event_ok_def clock_ok_def clocks_agree_def lease_spec_def u64_max_def state_new_def)

section \<open>Properties\<close>

text \<open>
  C5. A node acts only inside the lease it published. Whenever a node that requires a lease passes the
  authority test, it holds a lease whose published expiry is still ahead of its clock: with the wall
  clock at least \<open>off\<close> ahead of the monotonic clock at every lease event, the monotonic time plus \<open>off\<close>
  is below the expiry in the record that the store confirmed.
\<close>

theorem acts_inside_published_lease:
  assumes "timed_reachable off node config s" and "cf_require_node_lease config" and "node_authoritative s"
  shows "\<exists>h. held_lease (st_node_authority s) = Some h \<and>
    int (st_now_mono_ms s) + off < int (nl_expires_ms (hl_record h))"
proof -
  have config: "cf_require_node_lease (st_config s)"
    using reachable_inv [OF timed_reachable_reachable [OF assms(1)]] assms(2) by simp
  obtain h where h: "held_lease (st_node_authority s) = Some h"
    and fresh: "st_now_mono_ms s < hl_last_ok_mono_ms h + sp_ttl_ms (hl_spec h)"
    using authoritative_fresh [OF assms(3) config] by blast
  have "authority_inside off (st_node_authority s)"
    using timed_reachable_inside [OF assms(1)] by (simp add: inside_def)
  with h have "held_inside off h"
    by (cases "st_node_authority s") (auto simp: held_lease_def pending_inside_def)
  with fresh h show ?thesis by (auto simp: held_inside_def)
qed

theorem acts_inside_published_lease_witness:
  "node_authoritative leased_node \<and>
   (\<exists>h. held_lease (st_node_authority leased_node) = Some h \<and>
      int (st_now_mono_ms leased_node) + 990 < int (nl_expires_ms (hl_record h)))"
proof -
  have "node_authoritative leased_node" by code_simp
  moreover have "cf_require_node_lease leased_config" by (simp add: leased_config_def)
  ultimately show ?thesis
    using acts_inside_published_lease [OF leased_node_reachable] by blast
qed

end
