(* ===== verification/Traces.thy ===== *)
theory Traces
  imports LeaseSafety
begin

text \<open>
  Executions of the core on concrete events where the code departs from what its comments promise: examples that
  show a behaviour is reached, not laws. Every trace starts from \<open>State::new\<close> and is evaluated in full.
\<close>

section \<open>Definitions\<close>

text \<open>
  An export barrier of cell A stays open across a generation swap. The new runtime runs at the same
  epoch, and its positions start over.
\<close>

definition swapped_with_export :: core_state where
  "swapped_with_export =
     after one_resident
       [ActivityFinished 1, ExportTicket ''A'' 1 9 77, GenerationChanged 1 100 0 [],
        RuntimeStopped 7, RuntimeStarted 8 None 1 (Ok ()), Published 9 (Ok ())]"

text \<open>The proof of the old runtime's position lands, and a request runs on the new runtime.\<close>

definition stale_proof_noted :: core_state where
  "stale_proof_noted =
     after swapped_with_export [DurableReached 6 (Ok 9) proof_source.Fleet, RequestAt 2 ''A'' 200]"

text \<open>
  A drain of two residents. Cancelling the outputs of A frees it, so the shed that a waiting cell asked for
  starts to evict B, and the drain loop then marks B as quiescing although it is on its way out.
\<close>

definition drained_while_shedding :: core_state where
  "drained_while_shedding =
     after (state_new ''n'' small_config)
       (activation_of 1 ''A'' 1 @ activation_of 2 ''B'' 6 @
        [AlarmObserved ''B'' \<lparr>sn_at_ms = Some 500, sn_source = None\<rparr> True 1 30, ActivityFinished 2,
         RequestAt 5 ''A'' 40, event.Output 1 Response (Some 7) None None, ActivityFinished 1,
         ActivityFinished 5, RequestAt 3 ''C'' 50, OwnerRead 12 1 (Ok None), ReleaseAll])"

text \<open>Two evictions are in flight when a drain with one release slot starts.\<close>

definition drained_while_evicting :: core_state where
  "drained_while_evicting =
     after (state_new ''n'' (small_config\<lparr>cf_max_releases := 1\<rparr>))
       (activation_of 1 ''A'' 1 @ activation_of 2 ''B'' 6 @
        [ActivityFinished 1, ActivityFinished 2, event.Evict ''A'', event.Evict ''B'', ReleaseAll])"

text \<open>A node that resumes its local cells is fenced before their listing arrives.\<close>

definition fenced_while_resuming :: core_state where
  "fenced_while_resuming =
     after (state_new ''n'' leased_config)
       [StartNodeLease 1000 10 (lease_spec\<lparr>sp_resume_generation := Some ''f''\<rparr>),
        SelfNodeLeaseRead 1 1005 15
          (Ok (Some \<lparr>nl_node = ''n'', nl_addr = ''a'', nl_expires_ms = 1200, nl_peer_protocol = 1,
                     nl_generation = ''f'', nl_log_state = None, nl_etag = ''x''\<rparr>)),
        NodeLeaseCasCompleted 2 20 (Ok (lease_cas_outcome.Applied ''e'')) None, event.NodeFenced]"

text \<open>A resume whose listing names two live epochs of one cell.\<close>

definition resumed_twice :: core_state where
  "resumed_twice =
     after (state_new ''n'' leased_config)
       [StartNodeLease 1000 10 (lease_spec\<lparr>sp_resume_generation := Some ''f''\<rparr>),
        SelfNodeLeaseRead 1 1005 15
          (Ok (Some \<lparr>nl_node = ''n'', nl_addr = ''a'', nl_expires_ms = 1200, nl_peer_protocol = 1,
                     nl_generation = ''f'', nl_log_state = None, nl_etag = ''x''\<rparr>)),
        NodeLeaseCasCompleted 2 20 (Ok (lease_cas_outcome.Applied ''e'')) None,
        LocalCellsRead
          (Ok [\<lparr>lc_id = ''A'', lc_epoch = 1, lc_live = True\<rparr>, \<lparr>lc_id = ''A'', lc_epoch = 2, lc_live = True\<rparr>])]"

section \<open>Theorems\<close>

text \<open>
  A residency starts with no proof on record, and yet the proof of an export barrier that outlived the swap
  is noted for the new runtime: a read that observed position 3 of the new runtime, which nothing has
  proven, is released at once.
\<close>

lemma export_proof_outlives_swap:
  "map_option c_proven_position (bm_get (st_cells swapped_with_export) ''A'') = Some None \<and>
   snd (on_event stale_proof_noted (event.Output 2 Response None (Some 3) (Some 1))) =
     [effect.Release 2 Response (Ok ())]"
  by (intro conjI; code_simp)

text \<open>
  The drain leaves B both evicting and quiescing, which the consistency check rejects, and the mark stays
  after B has gone dormant: its handoff slot is not returned.
\<close>

lemma drain_leaks_a_handoff_slot:
  "\<not> validate drained_while_shedding \<and>
   (let s = after drained_while_shedding [DurabilityChecked 13 (Ok ()), RuntimeStopped 15]
    in phase_at ''B'' s = Some (Dormant 1) \<and> ''B'' \<in> st_quiescing_cells s)"
  unfolding Let_def by (intro conjI; code_simp)

text \<open>
  The consistency check bounds the handoffs of a drain by the release ceiling alone: two evictions that
  were in flight when a drain with one release slot began make it fail.
\<close>

lemma drain_ceiling_ignores_evictions_in_flight:
  "handoffs_in_flight drained_while_evicting = 2 \<and> \<not> validate drained_while_evicting"
  by (intro conjI; code_simp)

text \<open>
  A listing of local cells that arrives after the fence makes the fenced node start to restore a cell.
\<close>

lemma fenced_node_resumes:
  "st_fenced fenced_while_resuming \<and>
   effect.Restore 3 ''A''
     \<lparr>rs_epoch = 3, rs_fresh = False, rs_took_over = False, rs_resume_local = True, rs_prior = None\<rparr>
     \<in> set (snd (on_event fenced_while_resuming
          (LocalCellsRead (Ok [\<lparr>lc_id = ''A'', lc_epoch = 3, lc_live = True\<rparr>]))))"
  by (intro conjI; code_simp)

text \<open>
  The occupancy counter relies on a listing with one live epoch of a cell: a second one is admitted over
  the first, which keeps its slot.
\<close>

theorem two_live_epochs_break_occupancy:
  "st_occupied resumed_twice = 2 \<and> walked resumed_twice = 1"
  by (intro conjI; code_simp)

end
