(* ===== verification/Spec2Isabelle.thy ===== *)
theory Spec2Isabelle
  imports Serving LogTier Pressure WakeLaws Upkeep FleetPolicy HttpAuthority CronLaws QueuePolicy KvPolicy TurnLanes SlotPool LogEvict
    ExportGate Pumps WalResume Traces
begin

text \<open>
  celld runs cells: single-writer JavaScript actors, each with its own SQLite database, replicated to an object store.
  A node decides everything that matters in the crate \<open>crates/logic\<close>, which does no input and output: it is told
  events and answers effects. The shell, \<open>crates/celld\<close>, carries the effects out. This development models the
  whole crate \<open>crates/logic\<close> and those parts of the shell that are decisions themselves.

  \<^bold>\<open>Conventions.\<close> A struct is a record and an enum a datatype with the constructors of the source. \<open>u64\<close> and
  \<open>usize\<close> are \<open>nat\<close> with \<open>sat_add\<close>, \<open>sat_mul\<close> and \<open>checked_add\<close> where the source saturates or checks, \<open>i64\<close>
  is \<open>int\<close> with \<open>i64_sat\<close>; a subtraction on \<open>nat\<close> stands for \<open>saturating_sub\<close>, or for a plain subtraction at
  places where an invariant shows that it does not underflow. \<open>BTreeMap\<close> is the sorted association list \<open>bmap\<close>, so
  iteration has the order of the source. A handler on the state of the core is a computation \<open>'a core\<close>, a state
  passing function that also returns the effects in the order they are emitted. \<open>Result\<close> is \<open>result\<close>; a panic is
  \<open>None\<close>. A loop is a recursion with a termination proof. Fuel is used for four loops of the
  core: the two pumps of \<open>Activation\<close> take the length of their waiter queue (a turn takes one waiter off and adds none)
  and the two loops of \<open>Eviction\<close> one more than the number of cells (a turn takes one cell out of residency); \<open>Pumps\<close>
  shows that each is enough. The day walk of \<open>Cron\<close> takes \<open>MAX_LOOKAHEAD_DAYS\<close>, the bound of the source;
  \<open>CronLaws.next_after_is_first_match\<close> shows that it is enough. The scan of salts in \<open>WalReader\<close> is a partial function
  over an arbitrary reader, shown total on a buffer and on a file.

  \<^bold>\<open>The core.\<close> \<open>Types\<close> and \<open>CoreState\<close> hold the vocabulary and the state (\<open>types.rs\<close>, \<open>lib.rs\<close>), \<open>CoreOps\<close> the
  primitive operations and the accounting of phases, \<open>Validate\<close> the check \<open>State::validate\<close>. One theory
  follows per group of handlers of \<open>lib.rs\<close>: \<open>Eviction\<close>, \<open>Activation\<close>, \<open>AlarmCore\<close>, \<open>OutputGate\<close> (with
  \<open>output_gate.rs\<close>), \<open>NodeLease\<close>, \<open>Requests\<close>, \<open>Ownership\<close>, \<open>Runtime\<close>, \<open>Handoff\<close>; \<open>Events\<close> composes them to
  \<open>on_event\<close>. \<open>CoreLogic\<close> is the proof calculus: a triple for computations with an invariant on the state, a set
  of permitted effects and a preorder on states, packaged in the locales \<open>core_proof\<close> and \<open>lease_proof\<close>. Each handler
  theory ends with its triples, and the properties of whole runs follow: \<open>Safety\<close> shows for every reachable state that
  an output is acknowledged only by a proof that covers it, that an ownership read is asked for only by such a proof,
  that occupancy and permits are within their ceilings, and that an event never moves a clock, an identity, a fence or a
  drain back. \<open>LeaseSafety\<close> shows that a node acts only inside the lease it published, over every sequence of events
  whose two clocks advance together. \<open>Pumps\<close> shows that no event leaves a cell waiting for a free activation permit,
  and that the capacity pump stops only with an empty queue or a full node. \<open>Traces\<close>
  evaluates single runs on which the code departs from its comments, as examples.

  \<^bold>\<open>Policies beside the core.\<close> \<open>LogTier\<close> (\<open>log_tier.rs\<close>): recovery keeps what was acknowledged. \<open>LogEvict\<close>
  (\<open>log_evict.rs\<close> and the watch of \<open>node_log.rs\<close>): who is evicted for slowness was found slow
  \<open>sustain_ms\<close> before, silence in between included, and swaps are spaced. \<open>Pressure\<close>
  (\<open>pressure.rs\<close>): two independent latches. \<open>Wake\<close> and \<open>WakeLaws\<close> (\<open>wake.rs\<close>): which keys of entries parse and to
  what (the calendar has four-digit years), and the publication cache. \<open>Upkeep\<close> (\<open>alarm.rs\<close>, \<open>cache.rs\<close>, \<open>durability.rs\<close>, \<open>epoch_gc.rs\<close>, \<open>restore.rs\<close>, \<open>sweep.rs\<close>,
  \<open>dead_node_reconciliation.rs\<close>). \<open>FleetPolicy\<close> (\<open>drain.rs\<close>, \<open>rebalance.rs\<close>, \<open>format.rs\<close>):
  exactly when a joining node is ready, and what a balancing batch may hold. \<open>Serving\<close> (\<open>gate.rs\<close>,
  \<open>routing.rs\<close>, \<open>schedule.rs\<close>, \<open>peer.rs\<close>, \<open>cell.rs\<close>, \<open>sqlite.rs\<close>). \<open>HttpAuthority\<close> (\<open>http.rs\<close>) with \<open>Text\<close>. \<open>Cron\<close>
  and \<open>CronLaws\<close> (\<open>cron.rs\<close>): the next firing is the first match, and a plan runs what matches
  the occurrence it handles and arms nothing later than the next one. \<open>QueuePolicy\<close>
  (\<open>queue.rs\<close>) against reference definitions of a lease transaction and a settlement. \<open>KvPolicy\<close> (\<open>kv.rs\<close>,
  \<open>kv_blob.rs\<close>): what is put survives sweeps. \<open>IsolatePool\<close> (\<open>isolate.rs\<close>), and over it \<open>TurnLanes\<close> and \<open>SlotPool\<close>
  (\<open>pool.rs\<close>), whose steps are the points at which the asynchronous code can be interleaved or cancelled: lanes take
  turns, and an isolate in use keeps its heap.
  \<open>ExportOrder\<close> and \<open>ExportGate\<close> (\<open>export.rs\<close>): the observed order of WAL generations is the real one, nothing is
  lost, reordered or released before its proof, and the byte budget holds.

  \<^bold>\<open>The WAL reader.\<close> \<open>WalReader\<close> (\<open>crates/ltx/src/wal.rs\<close>, \<open>wal_checksum\<close> of \<open>crates/ltx/src/lib.rs\<close>) works on bytes and
  32-bit words as the source does. \<open>WalLaws\<close> and \<open>WalResume\<close> compare it with a reference writer: a log reads back, the
  reader returns exactly the longest valid list of frames, the page map is the last committed version of every page, and
  a reader that resumes in the middle or over the tail of a file reads on like the one that started at the header. The
  laws assume a page size that is a multiple of eight, as SQLite's are; otherwise \<open>wal_checksum\<close> panics.

  \<^bold>\<open>The library.\<close> \<open>Prelude\<close> has the maps, the arithmetic and the interfaces \<open>keyed_map\<close>, \<open>act_preorder\<close>,
  \<open>step_machine\<close> and \<open>codec\<close>, each interpreted on the definitions of the components that provide it.

  \<^bold>\<open>Assumptions.\<close> The hypotheses on events are \<open>event_ok\<close> and, for the lease, \<open>clock_ok\<close>: the two clocks of an
  event agree up to a constant. What the shell reports, for example that a frame is durable, is taken as told. In
  \<open>ExportOrder\<close> the reports follow a real order of generations (\<open>order_reachable\<close>).

  \<^bold>\<open>Not modelled.\<close> Text that only reaches a log line. The rest of the shell: the bindings to V8 (\<open>js.rs\<close>), SQLite
  and its files (\<open>storage.rs\<close>, \<open>crates/ltx\<close> apart from the WAL reader), the replication and object store clients (\<open>ltx_repl.rs\<close>, \<open>bucket.rs\<close>,
  \<open>node_log.rs\<close> apart from the eviction watch), servers, tools, telemetry and the exporters. Their behaviour is that of
  the engines and services they call, which are not in the repository, and what the modelled code relies on of them
  appears as the events it is told. A thread is modelled only through the events and cancellations it causes.
\<close>

end
